(* ===== verification/Prelude.thy ===== *)
theory Prelude
  imports Main "HOL-Library.Word" "HOL-Library.AList" "HOL-Library.Char_ord"
    "HOL-Library.List_Lexorder" "HOL-Library.Multiset"
begin

text \<open>
  Shared vocabulary of the MoodengSQL model: machine integers, the two result monads (a pure
  \<open>Result\<close> and a stateful one that keeps the state reached when an error is returned), list search,
  ASCII case folding, fixed-width byte codecs and the stable sort behind \<open>sort_by\<close>.

  Conventions of the whole library.
  \<^item> A Rust \<open>String\<close> is an Isabelle \<open>string\<close> holding its UTF-8 bytes, so byte length, byte-wise
    ordering and ASCII case folding are the ones of Rust.
  \<^item> Integers keep their width; arithmetic wraps, as in a release build (the workspace sets no
    \<open>overflow-checks\<close>).
  \<^item> A \<open>HashMap\<close> or \<open>DashMap\<close> is an association list with distinct keys (\<open>AList.update\<close>,
    \<open>AList.delete\<close>, \<open>map_of\<close>); its list order stands for the unspecified iteration order, so a
    theorem about all such lists covers every order.
  \<^item> \<open>Result<T, E>\<close> is \<open>'e + 't\<close> with \<open>Inl\<close> the error.
\<close>

unbundle bit_operations_syntax

named_theorems result_simps \<open>unfolding rules of the result monads\<close>
named_theorems eval_simps \<open>evaluation of closed terms in the kernel\<close>
named_theorems codec_simps \<open>round trips and widths of the byte codecs\<close>

type_synonym u8 = "8 word"
type_synonym u16 = "16 word"
type_synonym u32 = "32 word"
type_synonym u64 = "64 word"
type_synonym bytes = "u8 list"

subsection \<open>Results\<close>

definition rbind :: "'e + 'a \<Rightarrow> ('a \<Rightarrow> 'e + 'b) \<Rightarrow> 'e + 'b" where
  "rbind m f = (case m of Inl e \<Rightarrow> Inl e | Inr x \<Rightarrow> f x)"

fun rmapM :: "('a \<Rightarrow> 'e + 'b) \<Rightarrow> 'a list \<Rightarrow> 'e + 'b list" where
  "rmapM f [] = Inr []"
| "rmapM f (x # xs) = rbind (f x) (\<lambda>y. rbind (rmapM f xs) (\<lambda>ys. Inr (y # ys)))"

text \<open>A stateful computation returns its result and the state it reached, on errors too.\<close>

type_synonym ('e, 's, 'a) op = "'s \<Rightarrow> ('e + 'a) \<times> 's"

definition sret :: "'a \<Rightarrow> ('e, 's, 'a) op" where
  "sret x s = (Inr x, s)"

definition sfail :: "'e \<Rightarrow> ('e, 's, 'a) op" where
  "sfail e s = (Inl e, s)"

definition slift :: "'e + 'a \<Rightarrow> ('e, 's, 'a) op" where
  "slift r s = (r, s)"

definition sbind :: "('e, 's, 'a) op \<Rightarrow> ('a \<Rightarrow> ('e, 's, 'b) op) \<Rightarrow> ('e, 's, 'b) op" where
  "sbind m f s = (case m s of (Inl e, s') \<Rightarrow> (Inl e, s') | (Inr x, s') \<Rightarrow> f x s')"

fun sfold :: "('a \<Rightarrow> 'b \<Rightarrow> ('e, 's, 'b) op) \<Rightarrow> 'a list \<Rightarrow> 'b \<Rightarrow> ('e, 's, 'b) op" where
  "sfold f [] acc = sret acc"
| "sfold f (x # xs) acc = sbind (f x acc) (sfold f xs)"

definition sgets :: "('s \<Rightarrow> 'a) \<Rightarrow> ('e, 's, 'a) op" where
  "sgets f s = (Inr (f s), s)"

definition smodify :: "('s \<Rightarrow> 's) \<Rightarrow> ('e, 's, unit) op" where
  "smodify f s = (Inr (), f s)"

text \<open>A computation on one component of a pair of states.\<close>

definition on_fst :: "('e, 's, 'a) op \<Rightarrow> ('e, 's \<times> 't, 'a) op" where
  "on_fst f p = (case f (fst p) of (r, s) \<Rightarrow> (r, (s, snd p)))"

definition on_snd :: "('e, 't, 'a) op \<Rightarrow> ('e, 's \<times> 't, 'a) op" where
  "on_snd f p = (case f (snd p) of (r, t) \<Rightarrow> (r, (fst p, t)))"

lemma rbind_simps [simp, result_simps]:
  "rbind (Inl e) f = Inl e" "rbind (Inr x) f = f x"
  by (simp_all add: rbind_def)

lemma rbind_eq_Inr [result_simps]: "rbind m f = Inr y \<longleftrightarrow> (\<exists>x. m = Inr x \<and> f x = Inr y)"
  by (cases m) auto

lemma rbind_eq_Inl [result_simps]:
  "rbind m f = Inl e \<longleftrightarrow> m = Inl e \<or> (\<exists>x. m = Inr x \<and> f x = Inl e)"
  by (cases m) auto

lemma rmapM_Inr_iff: "rmapM f xs = Inr ys \<longleftrightarrow> list_all2 (\<lambda>x y. f x = Inr y) xs ys"
  by (induction xs arbitrary: ys) (auto simp: rbind_eq_Inr list_all2_Cons1)

lemma rmapM_total: "(\<And>x. x \<in> set xs \<Longrightarrow> f x = Inr (g x)) \<Longrightarrow> rmapM f xs = Inr (map g xs)"
  by (induction xs) auto

lemma sret_simp [simp, result_simps]: "sret x s = (Inr x, s)"
  by (simp add: sret_def)

lemma sfail_simp [simp, result_simps]: "sfail e s = (Inl e, s)"
  by (simp add: sfail_def)

lemma sgets_simp [simp, result_simps]: "sgets f s = (Inr (f s), s)"
  by (simp add: sgets_def)

lemma smodify_simp [simp, result_simps]: "smodify f s = (Inr (), f s)"
  by (simp add: smodify_def)

lemma slift_simp [simp, result_simps]: "slift r s = (r, s)"
  by (simp add: slift_def)

lemma sbind_split:
  "sbind m f s = (r, t) \<longleftrightarrow>
     (\<exists>e. m s = (Inl e, t) \<and> r = Inl e) \<or> (\<exists>x s'. m s = (Inr x, s') \<and> f x s' = (r, t))"
  by (auto simp: sbind_def split: prod.splits sum.splits)

lemma sbind_Inr: "m s = (Inr x, s') \<Longrightarrow> sbind m f s = f x s'"
  by (simp add: sbind_def)

lemma sbind_Inl: "m s = (Inl e, s') \<Longrightarrow> sbind m f s = (Inl e, s')"
  by (simp add: sbind_def)

text \<open>An invariant of the state kept by every step of a stateful loop is kept by the loop,
  whether it finishes or stops at an error.\<close>

lemma sfold_snoc: "sfold f (xs @ [x]) acc = sbind (sfold f xs acc) (f x)"
  by (induction xs arbitrary: acc) (auto simp: fun_eq_iff sbind_def split: prod.splits sum.splits)

lemma sfold_invariant:
  assumes step: "\<And>x acc s. x \<in> set xs \<Longrightarrow> I s \<Longrightarrow> I (snd (f x acc s))"
    and init: "I s"
  shows "I (snd (sfold f xs acc s))"
  using assms
proof (induction xs arbitrary: acc s)
  case Nil
  then show ?case by simp
next
  case (Cons x xs)
  have fx: "I (snd (f x acc s))" by (rule Cons.prems(1)) (use Cons.prems(2) in auto)
  have rest: "I (snd (sfold f xs acc' t))" if "I t" for acc' t
    by (rule Cons.IH) (use Cons.prems(1) that in auto)
  show ?case using fx rest by (auto simp: sbind_def split: prod.splits sum.splits)
qed

text \<open>The weakest precondition of a computation for a postcondition on results and one on errors. The
  rules reduce the one of a composite computation to the ones of its parts.\<close>

named_theorems wp_simps \<open>weakest preconditions of the combinators\<close>

definition wp :: "('e, 's, 'a) op \<Rightarrow> ('a \<Rightarrow> 's \<Rightarrow> bool) \<Rightarrow> ('e \<Rightarrow> 's \<Rightarrow> bool) \<Rightarrow> 's \<Rightarrow> bool" where
  "wp m Q E s = (case m s of (Inr x, s') \<Rightarrow> Q x s' | (Inl e, s') \<Rightarrow> E e s')"

lemma wp_basic [wp_simps]:
  "wp (sret x) Q E = Q x" "wp (sfail e) Q E = E e" "wp (sgets f) Q E = (\<lambda>s. Q (f s) s)"
  "wp (smodify g) R E = (\<lambda>s. R () (g s))" "wp (slift r) Q E = (case r of Inr x \<Rightarrow> Q x | Inl e \<Rightarrow> E e)"
  by (auto simp: wp_def fun_eq_iff split: sum.splits)

lemma wp_sbind [wp_simps]: "wp (sbind m f) Q E = wp m (\<lambda>x. wp (f x) Q E) E"
  by (auto simp: wp_def sbind_def fun_eq_iff split: prod.splits sum.splits)

lemma wp_Inr: "m s = (Inr x, t) \<Longrightarrow> wp m Q E s = Q x t"
  by (simp add: wp_def)

lemma wp_Inl: "m s = (Inl e, t) \<Longrightarrow> wp m Q E s = E e t"
  by (simp add: wp_def)

lemma wp_mono: "wp m Q E s \<Longrightarrow> (\<And>x t. Q x t \<Longrightarrow> Q' x t) \<Longrightarrow> (\<And>e t. E e t \<Longrightarrow> E' e t) \<Longrightarrow> wp m Q' E' s"
  by (auto simp: wp_def split: prod.splits sum.splits)

lemma wp_run: "wp m Q E s \<Longrightarrow> m s = (Inr x, t) \<Longrightarrow> Q x t"
  by (simp add: wp_def)

lemma wp_success: "(\<And>x t. m s = (Inr x, t) \<Longrightarrow> Q x t) \<Longrightarrow> wp m Q (\<lambda>_ _. True) s"
  by (auto simp: wp_def split: prod.splits sum.splits)

text \<open>A loop, with an invariant on the elements that are left.\<close>

lemma wp_sfold:
  assumes "\<And>x rest acc s. I (x # rest) acc s \<Longrightarrow> wp (f x acc) (I rest) E s" and "I xs acc s"
  shows "wp (sfold f xs acc) (I []) E s"
  using assms(2)
proof (induction xs arbitrary: acc s)
  case Nil
  then show ?case by (simp add: wp_def)
next
  case (Cons x xs)
  show ?case unfolding sfold.simps wp_sbind
    by (rule wp_mono [OF assms(1) [OF Cons.prems]]) (simp_all add: Cons.IH)
qed

subsection \<open>Searching lists\<close>

text \<open>\<open>Iterator::position\<close>: the index of the first element that satisfies the predicate.\<close>

fun position :: "('a \<Rightarrow> bool) \<Rightarrow> 'a list \<Rightarrow> nat option" where
  "position P [] = None"
| "position P (x # xs) = (if P x then Some 0 else map_option Suc (position P xs))"

lemma position_None_iff [simp]: "position P xs = None \<longleftrightarrow> (\<forall>x \<in> set xs. \<not> P x)"
  by (induction xs) auto

lemma position_SomeD:
  "position P xs = Some i \<Longrightarrow> i < length xs \<and> P (xs ! i) \<and> (\<forall>j < i. \<not> P (xs ! j))"
proof (induction xs arbitrary: i)
  case Nil
  then show ?case by simp
next
  case (Cons x xs)
  show ?case
  proof (cases "P x")
    case True
    with Cons.prems show ?thesis by simp
  next
    case False
    with Cons.prems obtain k where k: "position P xs = Some k" "i = Suc k" by auto
    from Cons.IH [OF k(1)] show ?thesis
      using False k(2) by (auto simp: less_Suc_eq_0_disj)
  qed
qed

lemma position_cong: "(\<And>x. x \<in> set xs \<Longrightarrow> P x = Q x) \<Longrightarrow> position P xs = position Q xs"
  by (induction xs) auto

text \<open>\<open>slice::get(i).cloned().unwrap_or(d)\<close>.\<close>

definition get_or :: "'a \<Rightarrow> 'a list \<Rightarrow> nat \<Rightarrow> 'a" where
  "get_or d xs i = (if i < length xs then xs ! i else d)"

subsection \<open>Hash maps\<close>

text \<open>A map with distinct keys whose entries all satisfy a predicate: the shape of the invariants of
  the program's hash maps. It is kept by insertion, removal and in-place change of the values.\<close>

definition amap_inv :: "('k \<Rightarrow> 'v \<Rightarrow> bool) \<Rightarrow> ('k \<times> 'v) list \<Rightarrow> bool" where
  "amap_inv P m \<longleftrightarrow> distinct (map fst m) \<and> (\<forall>e \<in> set m. P (fst e) (snd e))"

lemma amap_inv_iff:
  "amap_inv P m \<longleftrightarrow> distinct (map fst m) \<and> (\<forall>k v. map_of m k = Some v \<longrightarrow> P k v)"
proof (cases "distinct (map fst m)")
  case True
  then have "map_of m k = Some v \<longleftrightarrow> (k, v) \<in> set m" for k v by simp
  then show ?thesis using True by (auto simp: amap_inv_def)
qed (simp add: amap_inv_def)

lemma amap_inv_Nil [simp]: "amap_inv P []"
  by (simp add: amap_inv_def)

lemma amap_inv_distinct: "amap_inv P m \<Longrightarrow> distinct (map fst m)"
  by (simp add: amap_inv_def)

lemma amap_inv_lookup: "amap_inv P m \<Longrightarrow> map_of m k = Some v \<Longrightarrow> P k v"
  by (auto simp: amap_inv_def dest!: map_of_SomeD)

lemma amap_inv_update: "amap_inv P m \<Longrightarrow> P k v \<Longrightarrow> amap_inv P (AList.update k v m)"
  by (auto simp: amap_inv_iff distinct_update update_conv' split: if_splits)

lemma update_fresh: "map_of m k = None \<Longrightarrow> AList.update k v m = m @ [(k, v)]"
  by (induction m) (auto split: if_splits)

lemma amap_inv_delete: "amap_inv P m \<Longrightarrow> amap_inv P (AList.delete k m)"
  by (auto simp: amap_inv_iff distinct_delete delete_conv' split: if_splits)

lemma amap_inv_mono: "amap_inv P m \<Longrightarrow> (\<And>k v. P k v \<Longrightarrow> Q k v) \<Longrightarrow> amap_inv Q m"
  by (auto simp: amap_inv_def)

lemma amap_inv_map_snd:
  "amap_inv P m \<Longrightarrow> (\<And>k v. P k v \<Longrightarrow> Q k (f v)) \<Longrightarrow> amap_inv Q (map (apsnd f) m)"
  by (auto simp: amap_inv_def)

lemma length_update_None: "map_of m k = None \<Longrightarrow> AList.update k v m = m @ [(k, v)]"
  by (induction m) (auto split: if_splits)

lemma map_of_filter_key: "map_of (filter (\<lambda>e. P (fst e)) m) k = (if P k then map_of m k else None)"
  by (induction m) auto

subsection \<open>ASCII case folding\<close>

definition ascii_lower :: "char \<Rightarrow> char" where
  "ascii_lower c = (if CHR ''A'' \<le> c \<and> c \<le> CHR ''Z'' then char_of (of_char c + 32 :: nat) else c)"

definition ascii_upper :: "char \<Rightarrow> char" where
  "ascii_upper c = (if CHR ''a'' \<le> c \<and> c \<le> CHR ''z'' then char_of (of_char c - 32 :: nat) else c)"

definition eq_ignore_ascii_case :: "string \<Rightarrow> string \<Rightarrow> bool" where
  "eq_ignore_ascii_case a b \<longleftrightarrow> map ascii_lower a = map ascii_lower b"

lemma eq_ignore_ascii_case_refl [simp, intro]: "eq_ignore_ascii_case a a"
  by (simp add: eq_ignore_ascii_case_def)

lemma eq_ignore_ascii_case_sym: "eq_ignore_ascii_case a b \<longleftrightarrow> eq_ignore_ascii_case b a"
  by (auto simp: eq_ignore_ascii_case_def)

lemma eq_ignore_ascii_case_trans:
  "eq_ignore_ascii_case a b \<Longrightarrow> eq_ignore_ascii_case b c \<Longrightarrow> eq_ignore_ascii_case a c"
  by (simp add: eq_ignore_ascii_case_def)

subsection \<open>Byte codecs\<close>

text \<open>\<open>Read::read_exact\<close> on a byte source: the next \<open>n\<close> bytes and what is left, or an error.\<close>

definition read_exact :: "nat \<Rightarrow> bytes \<Rightarrow> (bytes \<times> bytes) option" where
  "read_exact n bs = (if n \<le> length bs then Some (take n bs, drop n bs) else None)"

lemma read_exact_append [simp]: "length xs = n \<Longrightarrow> read_exact n (xs @ ys) = Some (xs, ys)"
  by (auto simp: read_exact_def)

lemma read_exact_short [simp]: "length bs < n \<Longrightarrow> read_exact n bs = None"
  by (simp add: read_exact_def)

lemma read_exact_SomeD: "read_exact n bs = Some (xs, ys) \<Longrightarrow> bs = xs @ ys \<and> length xs = n"
  by (auto simp: read_exact_def split: if_splits)

lemma unat_add_one: "x + 1 \<noteq> 0 \<Longrightarrow> unat (x + 1 :: 'a::len word) = Suc (unat x)"
  using unatSuc [of x] by (simp add: add.commute)

text \<open>Big-endian bytes, most significant first: \<open>to_be_bytes\<close> and \<open>from_be_bytes\<close>.\<close>

definition be_bytes :: "nat \<Rightarrow> 'a::len word \<Rightarrow> bytes" where
  "be_bytes n w = map (\<lambda>i. ucast (drop_bit (8 * i) w)) (rev [0..<n])"

fun be_value :: "'a::len word \<Rightarrow> bytes \<Rightarrow> 'a word" where
  "be_value acc [] = acc"
| "be_value acc (b # bs) = be_value (push_bit 8 acc OR ucast b) bs"

definition from_be_bytes :: "bytes \<Rightarrow> 'a::len word" where
  "from_be_bytes bs = be_value 0 bs"

definition le_bytes :: "nat \<Rightarrow> 'a::len word \<Rightarrow> bytes" where
  "le_bytes n w = rev (be_bytes n w)"

definition from_le_bytes :: "bytes \<Rightarrow> 'a::len word" where
  "from_le_bytes bs = from_be_bytes (rev bs)"

lemma length_be_bytes [simp]: "length (be_bytes n w) = n"
  by (simp add: be_bytes_def)

lemma be_bytes_Suc [eval_simps]: "be_bytes (Suc n) w = ucast (drop_bit (8 * n) w) # be_bytes n w"
  by (simp add: be_bytes_def)

lemma be_value_step:
  fixes w acc :: "'a::len word"
  shows "push_bit (8 * n) (push_bit 8 acc OR ucast (ucast (drop_bit (8 * n) w) :: u8))
      OR take_bit (8 * n) w = push_bit (8 * Suc n) acc OR take_bit (8 * Suc n) w"
proof (rule bit_eqI)
  fix i assume "possible_bit TYPE('a word) i"
  then have "i < LENGTH('a)" by simp
  then show "bit (push_bit (8 * n) (push_bit 8 acc OR ucast (ucast (drop_bit (8 * n) w) :: u8))
      OR take_bit (8 * n) w) i = bit (push_bit (8 * Suc n) acc OR take_bit (8 * Suc n) w) i"
    by (cases "i < 8 * n"; cases "i < 8 * n + 8")
      (auto simp: bit_simps not_less less_diff_conv2 le_diff_conv2 algebra_simps)
qed

lemma be_value_be_bytes:
  "be_value acc (be_bytes n w) = push_bit (8 * n) acc OR take_bit (8 * n) w"
proof (induction n arbitrary: acc)
  case 0
  then show ?case by (simp add: be_bytes_def)
next
  case (Suc n)
  show ?case unfolding be_bytes_Suc be_value.simps Suc.IH by (rule be_value_step)
qed

lemma from_be_bytes_be_bytes:
  fixes w :: "'a::len word"
  assumes "8 * n = LENGTH('a)"
  shows "from_be_bytes (be_bytes n w) = w"
  by (simp add: from_be_bytes_def be_value_be_bytes assms)

text \<open>The contract of a fixed-width integer codec, and what a reader of a byte stream gets from
  it: reading a width of bytes in front of a rest gives back the encoded integer and the rest.\<close>

locale fixed_codec =
  fixes enc :: "'a \<Rightarrow> bytes" and dec :: "bytes \<Rightarrow> 'a" and width :: nat
  assumes length_enc: "length (enc x) = width"
    and dec_enc: "dec (enc x) = x"
begin

lemma read_enc: "read_exact width (enc x @ rest) = Some (enc x, rest)"
  by (simp add: length_enc)

lemma decode_read: "map_option (apfst dec) (read_exact width (enc x @ rest)) = Some (x, rest)"
  by (simp add: length_enc dec_enc)

lemma enc_inject: "enc x = enc y \<longleftrightarrow> x = y"
  by (metis dec_enc)

end

interpretation u64_be: fixed_codec "be_bytes 8 :: u64 \<Rightarrow> bytes" from_be_bytes 8
  by unfold_locales (simp_all add: from_be_bytes_be_bytes)

interpretation u32_be: fixed_codec "be_bytes 4 :: u32 \<Rightarrow> bytes" from_be_bytes 4
  by unfold_locales (simp_all add: from_be_bytes_be_bytes)

interpretation u16_be: fixed_codec "be_bytes 2 :: u16 \<Rightarrow> bytes" from_be_bytes 2
  by unfold_locales (simp_all add: from_be_bytes_be_bytes)

interpretation u32_le: fixed_codec "le_bytes 4 :: u32 \<Rightarrow> bytes" from_le_bytes 4
  by unfold_locales (simp_all add: from_be_bytes_be_bytes le_bytes_def from_le_bytes_def)

lemmas codec_roundtrips [simp, codec_simps] =
  u64_be.length_enc u64_be.dec_enc u32_be.length_enc u32_be.dec_enc
  u16_be.length_enc u16_be.dec_enc u32_le.length_enc u32_le.dec_enc

lemma be_bytes_numeral [eval_simps]:
  "be_bytes (numeral k) w =
     ucast (drop_bit (8 * pred_numeral k) w) # be_bytes (pred_numeral k) w"
  "be_bytes 0 w = []"
  by (simp_all add: numeral_eq_Suc be_bytes_Suc be_bytes_def)

text \<open>A serialiser the program calls but does not contain (\<open>bincode\<close>): encoding of a value, and
  decoding, which may fail with a message. What the program relies on, that a value it encoded is
  decoded to itself, is the hypothesis \<open>codec_ok\<close> of the theorems that need it. Encoding is total:
  \<open>bincode\<close> fails only on size limits and unsized sequences, which the program does not use.\<close>

record 'a codec =
  ser :: "'a \<Rightarrow> bytes"
  deser :: "bytes \<Rightarrow> string + 'a"

definition codec_ok :: "'a codec \<Rightarrow> 'a \<Rightarrow> bool" where
  "codec_ok C x \<longleftrightarrow> deser C (ser C x) = Inr x"

subsection \<open>Stable sorting with a comparator\<close>

datatype ordering = Less | Equal | Greater

definition cmp_of :: "'a::linorder \<Rightarrow> 'a \<Rightarrow> ordering" where
  "cmp_of x y = (if x < y then Less else if x = y then Equal else Greater)"

lemma cmp_of_not_Greater [simp]: "cmp_of x y \<noteq> Greater \<longleftrightarrow> x \<le> y"
  by (auto simp: cmp_of_def)

fun ordering_reverse :: "ordering \<Rightarrow> ordering" where
  "ordering_reverse Less = Greater"
| "ordering_reverse Equal = Equal"
| "ordering_reverse Greater = Less"

text \<open>\<open>slice::sort_by\<close>, a stable sort. Rust leaves the result unspecified when the comparator is
  not a total preorder; the insertion sort below is then one possible result.\<close>

fun insort_by :: "('a \<Rightarrow> 'a \<Rightarrow> ordering) \<Rightarrow> 'a \<Rightarrow> 'a list \<Rightarrow> 'a list" where
  "insort_by cmp x [] = [x]"
| "insort_by cmp x (y # ys) = (if cmp x y = Greater then y # insort_by cmp x ys else x # y # ys)"

fun sort_by :: "('a \<Rightarrow> 'a \<Rightarrow> ordering) \<Rightarrow> 'a list \<Rightarrow> 'a list" where
  "sort_by cmp [] = []"
| "sort_by cmp (x # xs) = insort_by cmp x (sort_by cmp xs)"

lemma mset_insort_by [simp]: "mset (insort_by cmp x xs) = add_mset x (mset xs)"
  by (induction xs) auto

lemma mset_sort_by [simp]: "mset (sort_by cmp xs) = mset xs"
  by (induction xs) auto

lemma set_insort_by [simp]: "set (insort_by cmp x xs) = insert x (set xs)"
  by (induction xs) auto

lemma set_sort_by [simp]: "set (sort_by cmp xs) = set xs"
  by (induction xs) auto

text \<open>What a comparator must promise on the elements \<open>S\<close> for \<open>sort_by\<close> to sort them.\<close>

locale comparator_on =
  fixes cmp :: "'a \<Rightarrow> 'a \<Rightarrow> ordering" and S :: "'a set"
  assumes cmp_refl: "x \<in> S \<Longrightarrow> cmp x x = Equal"
    and cmp_reverse: "x \<in> S \<Longrightarrow> y \<in> S \<Longrightarrow> cmp y x = ordering_reverse (cmp x y)"
    and cmp_trans: "x \<in> S \<Longrightarrow> y \<in> S \<Longrightarrow> z \<in> S \<Longrightarrow>
      cmp x y \<noteq> Greater \<Longrightarrow> cmp y z \<noteq> Greater \<Longrightarrow> cmp x z \<noteq> Greater"
begin

abbreviation sorted_cmp :: "'a list \<Rightarrow> bool" where
  "sorted_cmp \<equiv> sorted_wrt (\<lambda>x y. cmp x y \<noteq> Greater)"

lemma insort_by_sorted:
  assumes "x \<in> S" "set ys \<subseteq> S" "sorted_cmp ys"
  shows "sorted_cmp (insort_by cmp x ys)"
  using assms
proof (induction ys)
  case Nil
  then show ?case by simp
next
  case (Cons y ys)
  show ?case
  proof (cases "cmp x y = Greater")
    case True
    with Cons.prems cmp_reverse [of x y] have "cmp y x \<noteq> Greater" by simp
    with True Cons show ?thesis by auto
  next
    case False
    with Cons.prems show ?thesis using cmp_trans [of x y] by fastforce
  qed
qed

lemma sort_by_sorted: "set xs \<subseteq> S \<Longrightarrow> sorted_cmp (sort_by cmp xs)"
  by (induction xs) (simp_all add: insort_by_sorted)

lemma insort_by_filter_out: "\<not> P x \<Longrightarrow> filter P (insort_by cmp x ys) = filter P ys"
  by (induction ys) auto

lemma insort_by_filter_in:
  assumes "P x" "x \<in> S" "set ys \<subseteq> S" "\<And>y. y \<in> set ys \<Longrightarrow> P y \<Longrightarrow> cmp x y \<noteq> Greater"
  shows "filter P (insort_by cmp x ys) = x # filter P ys"
  using assms by (induction ys) auto

lemma sort_by_stable:
  assumes "set xs \<subseteq> S" "k \<in> S"
  shows "filter (\<lambda>x. cmp k x = Equal) (sort_by cmp xs) = filter (\<lambda>x. cmp k x = Equal) xs"
  using assms
proof (induction xs)
  case Nil
  then show ?case by simp
next
  case (Cons x xs)
  have le: "cmp x y \<noteq> Greater" if y: "y \<in> set xs" "cmp k y = Equal" and x: "cmp k x = Equal" for y
  proof -
    have "cmp x k = Equal" using Cons.prems x cmp_reverse [of k x] by simp
    then show ?thesis using Cons.prems y cmp_trans [of x k y] by auto
  qed
  show ?case
  proof (cases "cmp k x = Equal")
    case True
    have "filter (\<lambda>x. cmp k x = Equal) (insort_by cmp x (sort_by cmp xs)) =
        x # filter (\<lambda>x. cmp k x = Equal) (sort_by cmp xs)"
      by (rule insort_by_filter_in) (use True Cons.prems le in auto)
    with True Cons show ?thesis by simp
  next
    case False
    with Cons show ?thesis by (simp add: insort_by_filter_out)
  qed
qed

end

text \<open>Comparators by a key, in reverse order, and one after the other.\<close>

lemma comparator_key: "comparator_on (\<lambda>x y. cmp_of (k x) (k y)) S"
  by unfold_locales (auto simp: cmp_of_def split: if_splits)

lemma comparator_cong:
  assumes "comparator_on f S" "\<And>x y. x \<in> S \<Longrightarrow> y \<in> S \<Longrightarrow> f x y = g x y"
  shows "comparator_on g S"
proof
  fix x y z assume S: "x \<in> S" "y \<in> S" "z \<in> S"
  then show "g x x = Equal" using assms(2) comparator_on.cmp_refl [OF assms(1)] by metis
  show "g y x = ordering_reverse (g x y)"
    using S assms(2) comparator_on.cmp_reverse [OF assms(1)] by metis
  show "g x y \<noteq> Greater \<Longrightarrow> g y z \<noteq> Greater \<Longrightarrow> g x z \<noteq> Greater"
    using S assms(2) comparator_on.cmp_trans [OF assms(1)] by metis
qed

lemma ordering_reverse_simps [simp]:
  "ordering_reverse c = Equal \<longleftrightarrow> c = Equal" "ordering_reverse c = Greater \<longleftrightarrow> c = Less"
  "ordering_reverse c = Less \<longleftrightarrow> c = Greater" "ordering_reverse (ordering_reverse c) = c"
  by (cases c; simp)+

lemma comparator_reverse:
  assumes "comparator_on f S"
  shows "comparator_on (\<lambda>x y. ordering_reverse (f x y)) S"
proof
  fix x y z assume S: "x \<in> S" "y \<in> S" "z \<in> S"
  note f = comparator_on.cmp_refl [OF assms] comparator_on.cmp_reverse [OF assms]
  show "ordering_reverse (f x x) = Equal" using f(1) S by simp
  show "ordering_reverse (f y x) = ordering_reverse (ordering_reverse (f x y))"
    using f(2) [of x y] S by simp
  assume "ordering_reverse (f x y) \<noteq> Greater" "ordering_reverse (f y z) \<noteq> Greater"
  then have "f y x \<noteq> Greater" "f z y \<noteq> Greater" using f(2) [of x y] f(2) [of y z] S by simp_all
  then have "f z x \<noteq> Greater" using comparator_on.cmp_trans [OF assms, of z y x] S by simp
  then show "ordering_reverse (f x z) \<noteq> Greater" using f(2) [of z x] S by simp
qed

lemma comparator_then:
  assumes f: "comparator_on f S" and g: "comparator_on g S"
  shows "comparator_on (\<lambda>x y. if f x y \<noteq> Equal then f x y else g x y) S"
proof
  fix x y z assume S: "x \<in> S" "y \<in> S" "z \<in> S"
  note rev = comparator_on.cmp_reverse [OF f] and trans = comparator_on.cmp_trans [OF f]
  show "(if f x x \<noteq> Equal then f x x else g x x) = Equal"
    using S comparator_on.cmp_refl [OF f] comparator_on.cmp_refl [OF g] by simp
  show "(if f y x \<noteq> Equal then f y x else g y x) = ordering_reverse (if f x y \<noteq> Equal then f x y else g x y)"
    using S rev [of x y] comparator_on.cmp_reverse [OF g, of x y] by simp
  assume xy: "(if f x y \<noteq> Equal then f x y else g x y) \<noteq> Greater"
    and yz: "(if f y z \<noteq> Equal then f y z else g y z) \<noteq> Greater"
  have le: "f x y \<noteq> Greater" "f y z \<noteq> Greater" using xy yz by (auto split: if_splits)
  then have xz: "f x z \<noteq> Greater" using trans [of x y z] S by simp
  show "(if f x z \<noteq> Equal then f x z else g x z) \<noteq> Greater"
  proof (cases "f x z = Equal")
    case True
    have "f z x \<noteq> Greater" using True rev [of x z] S by simp
    then have "f y x \<noteq> Greater" "f z y \<noteq> Greater"
      using trans [of y z x] trans [of z x y] le S by simp_all
    then have "f x y = Equal" "f y z = Equal" using le rev [of x y] rev [of y z] S
      by (cases "f x y"; cases "f y z"; simp)+
    then show ?thesis using True xy yz comparator_on.cmp_trans [OF g, of x y z] S by simp
  qed (use xz in simp)
qed

end
