(* ===== verification/Floats.thy ===== *)
theory Floats
  imports Prelude
begin

text \<open>
  The IEEE 754 binary formats the program's \<open>f32\<close> and \<open>f64\<close> values have. A float is its bit
  pattern, as \<open>to_bits\<close> gives it. A finite magnitude is a whole number of units, the unit being the
  least positive number of the format (\<open>2^-149\<close> or \<open>2^-1074\<close>), so arithmetic is exact integer
  arithmetic followed by one rounding to nearest, ties to even. NaN results are the quiet NaN
  with an empty payload (Rust leaves the payload open).
\<close>

type_synonym f64 = "64 word"
type_synonym f32 = "32 word"

fun bitlen :: "nat \<Rightarrow> nat" where
  "bitlen n = (if n = 0 then 0 else Suc (bitlen (n div 2)))"

declare bitlen.simps [simp del]

text \<open>Rounding of the rational \<open>num / den\<close> units to a format with \<open>m\<close> explicit significand bits whose
  infinity has the pattern \<open>infty\<close>. The exponent and the significand of a float are adjacent bit
  fields, so a carry out of the significand lands in the exponent, as it must.\<close>

definition fp_round :: "nat \<Rightarrow> nat \<Rightarrow> nat \<Rightarrow> nat \<Rightarrow> nat" where
  "fp_round m infty num den =
     (let k = bitlen (num div den) - (m + 1);
          unit = den * 2 ^ k;
          r = num div unit;
          rem = num mod unit;
          r' = (if unit < 2 * rem \<or> (2 * rem = unit \<and> odd r) then r + 1 else r)
      in min (k * 2 ^ m + r') infty)"

definition f64_pack :: "bool \<Rightarrow> nat \<Rightarrow> f64" where
  "f64_pack neg mag = word_of_nat (mag + (if neg then 2 ^ 63 else 0))"

definition f64_neg_sign :: "f64 \<Rightarrow> bool" where
  "f64_neg_sign x \<longleftrightarrow> 2 ^ 63 \<le> unat x"

definition f64_mag :: "f64 \<Rightarrow> nat" where
  "f64_mag x = unat x mod 2 ^ 63"

definition f64_inf_mag :: nat where
  "f64_inf_mag = 2047 * 2 ^ 52"

definition f64_is_nan :: "f64 \<Rightarrow> bool" where
  "f64_is_nan x \<longleftrightarrow> f64_inf_mag < f64_mag x"

definition f64_is_inf :: "f64 \<Rightarrow> bool" where
  "f64_is_inf x \<longleftrightarrow> f64_mag x = f64_inf_mag"

definition f64_nan :: f64 where
  "f64_nan = 0x7FF8000000000000"

definition f64_units :: "f64 \<Rightarrow> nat" where
  "f64_units x =
     (let e = f64_mag x div 2 ^ 52; f = f64_mag x mod 2 ^ 52
      in if e = 0 then f else (2 ^ 52 + f) * 2 ^ (e - 1))"

definition f64_int :: "f64 \<Rightarrow> int" where
  "f64_int x = (if f64_neg_sign x then - int (f64_units x) else int (f64_units x))"

definition f64_round :: "bool \<Rightarrow> nat \<Rightarrow> nat \<Rightarrow> f64" where
  "f64_round neg num den = f64_pack neg (fp_round 52 f64_inf_mag num den)"

definition f64_neg :: "f64 \<Rightarrow> f64" where
  "f64_neg x = x XOR 0x8000000000000000"

definition f64_abs :: "f64 \<Rightarrow> f64" where
  "f64_abs x = x AND 0x7FFFFFFFFFFFFFFF"

definition f64_add :: "f64 \<Rightarrow> f64 \<Rightarrow> f64" where
  "f64_add x y =
     (if f64_is_nan x \<or> f64_is_nan y then f64_nan
      else if f64_is_inf x then (if f64_is_inf y \<and> f64_neg_sign x \<noteq> f64_neg_sign y then f64_nan else x)
      else if f64_is_inf y then y
      else let s = f64_int x + f64_int y
           in if s = 0 then f64_pack (f64_neg_sign x \<and> f64_neg_sign y) 0
              else f64_round (s < 0) (nat \<bar>s\<bar>) 1)"

definition f64_sub :: "f64 \<Rightarrow> f64 \<Rightarrow> f64" where
  "f64_sub x y = f64_add x (f64_neg y)"

definition f64_div :: "f64 \<Rightarrow> f64 \<Rightarrow> f64" where
  "f64_div x y =
     (let neg = (f64_neg_sign x \<noteq> f64_neg_sign y)
      in if f64_is_nan x \<or> f64_is_nan y then f64_nan
         else if f64_is_inf x then (if f64_is_inf y then f64_nan else f64_pack neg f64_inf_mag)
         else if f64_is_inf y then f64_pack neg 0
         else if f64_units y = 0 then (if f64_units x = 0 then f64_nan else f64_pack neg f64_inf_mag)
         else f64_round neg (f64_units x * 2 ^ 1074) (f64_units y))"

text \<open>\<open>n as f64\<close> for an integer, and \<open>v as f64\<close> for an \<open>f32\<close>.\<close>

definition f64_of_int :: "int \<Rightarrow> f64" where
  "f64_of_int n = f64_round (n < 0) (nat \<bar>n\<bar> * 2 ^ 1074) 1"

definition f32_neg_sign :: "f32 \<Rightarrow> bool" where
  "f32_neg_sign x \<longleftrightarrow> 2 ^ 31 \<le> unat x"

definition f32_mag :: "f32 \<Rightarrow> nat" where
  "f32_mag x = unat x mod 2 ^ 31"

definition f32_inf_mag :: nat where
  "f32_inf_mag = 255 * 2 ^ 23"

definition f32_units :: "f32 \<Rightarrow> nat" where
  "f32_units x =
     (let e = f32_mag x div 2 ^ 23; f = f32_mag x mod 2 ^ 23
      in if e = 0 then f else (2 ^ 23 + f) * 2 ^ (e - 1))"

definition f64_of_f32 :: "f32 \<Rightarrow> f64" where
  "f64_of_f32 x =
     (if f32_inf_mag < f32_mag x then f64_nan
      else if f32_mag x = f32_inf_mag then f64_pack (f32_neg_sign x) f64_inf_mag
      else f64_round (f32_neg_sign x) (f32_units x * 2 ^ 925) 1)"

text \<open>\<open>partial_cmp\<close> and \<open><\<close>. The units of the two infinities exceed those of every finite number, so
  one comparison of signed units covers all cases but NaN.\<close>

definition f64_partial_cmp :: "f64 \<Rightarrow> f64 \<Rightarrow> ordering option" where
  "f64_partial_cmp x y =
     (if f64_is_nan x \<or> f64_is_nan y then None else Some (cmp_of (f64_int x) (f64_int y)))"

definition f64_less :: "f64 \<Rightarrow> f64 \<Rightarrow> bool" where
  "f64_less x y \<longleftrightarrow> f64_partial_cmp x y = Some Less"

definition f64_epsilon :: f64 where
  "f64_epsilon = 0x3CB0000000000000"

subsection \<open>Text conversion\<close>

definition is_digit :: "char \<Rightarrow> bool" where
  "is_digit c \<longleftrightarrow> CHR ''0'' \<le> c \<and> c \<le> CHR ''9''"

definition digit_value :: "char \<Rightarrow> nat" where
  "digit_value c = of_char c - 48"

fun digits_value :: "nat \<Rightarrow> string \<Rightarrow> nat" where
  "digits_value acc [] = acc"
| "digits_value acc (c # cs) = digits_value (10 * acc + digit_value c) cs"

fun show_nat :: "nat \<Rightarrow> string" where
  "show_nat n = (if n < 10 then [char_of (48 + n)] else show_nat (n div 10) @ [char_of (48 + n mod 10)])"

declare show_nat.simps [simp del]

definition show_int :: "int \<Rightarrow> string" where
  "show_int i = (if i < 0 then ''-'' @ show_nat (nat (- i)) else show_nat (nat i))"

text \<open>\<open>str::parse\<close> into an integer type: an optional sign (a minus only for signed types), digits
  only, at least one, and a value in range; \<open>None\<close> is the parse error.\<close>

definition parse_digits :: "string \<Rightarrow> nat option" where
  "parse_digits s = (if s \<noteq> [] \<and> list_all is_digit s then Some (digits_value 0 s) else None)"

definition parse_signed :: "string \<Rightarrow> int option" where
  "parse_signed s =
     (case s of
        [] \<Rightarrow> None
      | c # cs \<Rightarrow> if c = CHR ''-'' then map_option (\<lambda>n. - int n) (parse_digits cs)
                else if c = CHR ''+'' then map_option int (parse_digits cs)
                else map_option int (parse_digits s))"

definition parse_i64 :: "string \<Rightarrow> u64 option" where
  "parse_i64 s =
     (case parse_signed s of
        None \<Rightarrow> None
      | Some i \<Rightarrow> if - (2 ^ 63) \<le> i \<and> i < 2 ^ 63 then Some (word_of_int i) else None)"

definition parse_usize :: "string \<Rightarrow> u64 option" where
  "parse_usize s =
     (case parse_digits (case s of [] \<Rightarrow> [] | c # cs \<Rightarrow> if c = CHR ''+'' then cs else s) of
        None \<Rightarrow> None
      | Some n \<Rightarrow> if n < 2 ^ 64 then Some (word_of_nat n) else None)"

text \<open>\<open>str::parse::<f64>\<close> on a decimal number: an optional sign, digits with at most one point and at
  least one digit, and an optional exponent; correctly rounded. (The words \<open>inf\<close> and \<open>nan\<close> that Rust
  accepts too have no point in them, and the program parses a float only when it saw a point.)\<close>

definition parse_decimal :: "string \<Rightarrow> (nat \<times> int) option" where
  "parse_decimal s =
     (let ip = takeWhile is_digit s;
          r1 = dropWhile is_digit s;
          (fp, r2) = (case r1 of [] \<Rightarrow> ([], [])
                      | c # cs \<Rightarrow> if c = CHR ''.'' then (takeWhile is_digit cs, dropWhile is_digit cs)
                                else ([], r1));
          ex = (case r2 of [] \<Rightarrow> Some 0
                | c # cs \<Rightarrow> if c = CHR ''e'' \<or> c = CHR ''E'' then parse_signed cs else None)
      in if ip = [] \<and> fp = [] then None
         else map_option (\<lambda>e. (digits_value 0 (ip @ fp), e - int (length fp))) ex)"

definition f64_of_decimal :: "bool \<Rightarrow> nat \<Rightarrow> int \<Rightarrow> f64" where
  "f64_of_decimal neg m e =
     (if 0 \<le> e then f64_round neg (m * 10 ^ nat e * 2 ^ 1074) 1
      else f64_round neg (m * 2 ^ 1074) (10 ^ nat (- e)))"

definition parse_f64 :: "string \<Rightarrow> f64 option" where
  "parse_f64 s =
     (let (neg, body) = (case s of [] \<Rightarrow> (False, [])
                         | c # cs \<Rightarrow> if c = CHR ''-'' then (True, cs)
                                   else if c = CHR ''+'' then (False, cs) else (False, s))
      in map_option (\<lambda>(m, e). f64_of_decimal neg m e) (parse_decimal body))"

text \<open>\<open>Display\<close> for floats: the shortest decimal that reads back as the same float, in positional
  notation. \<open>num / den\<close> is the magnitude; \<open>back c s\<close> is the float nearest to \<open>c * 10^-s\<close>.\<close>

fun leading_zeros :: "nat \<Rightarrow> nat \<Rightarrow> nat \<Rightarrow> nat" where
  "leading_zeros 0 num den = 0"
| "leading_zeros (Suc fuel) num den =
     (if den \<le> 10 * num then 0 else Suc (leading_zeros fuel (10 * num) den))"

definition dec_exponent :: "nat \<Rightarrow> nat \<Rightarrow> int" where
  "dec_exponent num den =
     (if den \<le> num then int (length (show_nat (num div den))) else - int (leading_zeros 400 num den))"

definition scale10 :: "nat \<Rightarrow> nat \<Rightarrow> int \<Rightarrow> nat \<times> nat" where
  "scale10 num den s = (if 0 \<le> s then (num * 10 ^ nat s, den) else (num, den * 10 ^ nat (- s)))"

definition positional :: "nat \<Rightarrow> int \<Rightarrow> string" where
  "positional c s =
     (if s \<le> 0 then show_nat c @ replicate (nat (- s)) CHR ''0''
      else let ds = show_nat c;
               ps = replicate (Suc (nat s) - length ds) CHR ''0'' @ ds;
               ip = take (length ps - nat s) ps;
               fp = rev (dropWhile (\<lambda>ch. ch = CHR ''0'') (rev (drop (length ps - nat s) ps)))
           in if fp = [] then ip else ip @ ''.'' @ fp)"

fun shortest :: "(nat \<Rightarrow> int \<Rightarrow> bool) \<Rightarrow> nat \<Rightarrow> nat \<Rightarrow> int \<Rightarrow> nat list \<Rightarrow> string" where
  "shortest back num den k [] = []"
| "shortest back num den k (n # ns) =
     (let s = int n - k;
          (a, b) = scale10 num den s;
          c = a div b;
          near = (if 2 * (a mod b) < b then [c, c + 1] else [c + 1, c])
      in case filter (\<lambda>d. back d s) near of
           d # _ \<Rightarrow> positional d s
         | [] \<Rightarrow> shortest back num den k ns)"

definition show_f64 :: "f64 \<Rightarrow> string" where
  "show_f64 x =
     (if f64_is_nan x then ''NaN''
      else (if f64_neg_sign x then ''-'' else []) @
        (if f64_is_inf x then ''inf''
         else if f64_units x = 0 then ''0''
         else shortest (\<lambda>c s. f64_of_decimal False c (- s) = f64_pack False (f64_mag x))
                (f64_units x) (2 ^ 1074) (dec_exponent (f64_units x) (2 ^ 1074)) [1..<18]))"

definition f32_of_decimal :: "nat \<Rightarrow> int \<Rightarrow> nat" where
  "f32_of_decimal m e =
     (if 0 \<le> e then fp_round 23 f32_inf_mag (m * 10 ^ nat e * 2 ^ 149) 1
      else fp_round 23 f32_inf_mag (m * 2 ^ 149) (10 ^ nat (- e)))"

definition show_f32 :: "f32 \<Rightarrow> string" where
  "show_f32 x =
     (if f32_inf_mag < f32_mag x then ''NaN''
      else (if f32_neg_sign x then ''-'' else []) @
        (if f32_mag x = f32_inf_mag then ''inf''
         else if f32_units x = 0 then ''0''
         else shortest (\<lambda>c s. f32_of_decimal c (- s) = f32_mag x)
                (f32_units x) (2 ^ 149) (dec_exponent (f32_units x) (2 ^ 149)) [1..<10]))"

subsection \<open>Decimal digits read back\<close>

lemma is_digit_char_of: "(d::nat) < 10 \<Longrightarrow> is_digit (char_of (48 + d))"
  by (simp add: is_digit_def less_eq_char_def)

lemma digit_value_char_of: "(d::nat) < 10 \<Longrightarrow> digit_value (char_of (48 + d)) = d"
  by (simp add: digit_value_def)

lemma digits_value_append: "digits_value acc (xs @ ys) = digits_value (digits_value acc xs) ys"
  by (induction xs arbitrary: acc) auto

lemma show_nat_small: "n < 10 \<Longrightarrow> show_nat n = [char_of (48 + n)]"
  by (simp add: show_nat.simps)

lemma show_nat_big:
  "\<not> n < 10 \<Longrightarrow> show_nat n = show_nat (n div 10) @ [char_of (48 + n mod 10)]"
  by (simp add: show_nat.simps)

lemma show_nat_digits: "list_all is_digit (show_nat n)"
proof (induction n rule: show_nat.induct)
  case (1 n)
  then show ?case
    by (cases "n < 10") (simp_all add: show_nat_small show_nat_big is_digit_char_of)
qed

lemma show_nat_not_Nil [simp]: "show_nat n \<noteq> []"
  by (simp add: show_nat.simps)

lemma digits_value_show_nat: "digits_value 0 (show_nat n) = n"
proof (induction n rule: show_nat.induct)
  case (1 n)
  then show ?case
    by (cases "n < 10")
      (simp_all add: show_nat_small show_nat_big digits_value_append digit_value_char_of)
qed

lemma parse_digits_show_nat: "parse_digits (show_nat n) = Some n"
  by (simp add: parse_digits_def show_nat_digits digits_value_show_nat)

lemma show_nat_head: "\<exists>c cs. show_nat n = c # cs \<and> is_digit c"
  using show_nat_digits [of n] by (cases "show_nat n") auto

lemma digit_not_sign: "is_digit c \<Longrightarrow> c \<noteq> CHR ''-'' \<and> c \<noteq> CHR ''+''"
  by (auto simp: is_digit_def less_eq_char_def)

lemma parse_usize_show_nat: "parse_usize (show_nat (unat n)) = Some n"
proof -
  obtain c cs where c: "show_nat (unat n) = c # cs" "is_digit c"
    using show_nat_head by blast
  then have "(case show_nat (unat n) of [] \<Rightarrow> [] | c # cs \<Rightarrow> if c = CHR ''+'' then cs
      else show_nat (unat n)) = show_nat (unat n)"
    using digit_not_sign [of c] by simp
  moreover have "unat n < 2 ^ 64" using unsigned_less [of n] by simp
  ultimately show ?thesis by (simp add: parse_usize_def parse_digits_show_nat)
qed

end
