(* ===== verification/Types.thy ===== *)
theory Types
  imports Floats
begin

text \<open>
  \<open>moodeng-core/src/error.rs\<close> and \<open>types.rs\<close>: the error enum, SQL data types, run-time values, rows
  and query results. A JSON value is represented by the text \<open>to_string\<close> gives for it, the only
  thing the program reads of it. Literals come from the SQL parser's syntax tree
  (\<open>sqlparser::ast::Value\<close>); the variants the program does not name are \<open>OtherValue\<close> with the
  \<open>Debug\<close> text the program stores for them. Case conversion of strings is ASCII conversion.
\<close>

subsection \<open>Errors\<close>

datatype moodeng_error =
    Parse string
  | Execution string
  | TableNotFound string
  | ColumnNotFound string
  | TypeMismatch (expected: string) (actual: string)
  | DuplicateKey string
  | VersionConflict (conflict_table: string) (conflict_row: u64)
  | IndexExists string
  | StorageError string
  | Io string
  | OtherError string

type_synonym 'a res = "moodeng_error + 'a"

subsection \<open>Data types\<close>

datatype data_type =
    TInt4 | TInt8 | TFloat4 | TFloat8 | TText | TVarchar u64 | TBool | TTimestamp | TJson

definition to_uppercase :: "string \<Rightarrow> string" where
  "to_uppercase s = map ascii_upper s"

definition to_lowercase :: "string \<Rightarrow> string" where
  "to_lowercase s = map ascii_lower s"

definition starts_with :: "string \<Rightarrow> string \<Rightarrow> bool" where
  "starts_with p s \<longleftrightarrow> take (length p) s = p"

text \<open>\<open>trim_start_matches\<close> and \<open>trim_end_matches\<close>: the pattern is removed as often as it matches.\<close>

function trim_start_matches :: "string \<Rightarrow> string \<Rightarrow> string" where
  "trim_start_matches p s =
     (if p \<noteq> [] \<and> starts_with p s then trim_start_matches p (drop (length p) s) else s)"
  by pat_completeness auto
termination
  by (relation "measure (\<lambda>(p, s). length s)") (auto simp: starts_with_def diff_less_mono2 intro!: diff_less dest!: arg_cong [where f = length])

declare trim_start_matches.simps [simp del]

definition trim_end_char :: "char \<Rightarrow> string \<Rightarrow> string" where
  "trim_end_char c s = rev (dropWhile (\<lambda>d. d = c) (rev s))"

definition data_type_from_sql :: "string \<Rightarrow> data_type option" where
  "data_type_from_sql name =
     (let upper = to_uppercase name in
      if upper \<in> {''INT'', ''INTEGER'', ''INT4''} then Some TInt4
      else if upper \<in> {''BIGINT'', ''INT8''} then Some TInt8
      else if upper \<in> {''REAL'', ''FLOAT4''} then Some TFloat4
      else if upper \<in> {''DOUBLE PRECISION'', ''FLOAT8'', ''FLOAT''} then Some TFloat8
      else if upper \<in> {''TEXT'', ''STRING''} then Some TText
      else if upper \<in> {''BOOLEAN'', ''BOOL''} then Some TBool
      else if upper \<in> {''TIMESTAMP'', ''TIMESTAMPTZ''} then Some TTimestamp
      else if upper \<in> {''JSON'', ''JSONB''} then Some TJson
      else if starts_with ''VARCHAR'' upper then
        (let len = trim_end_char CHR '')''
                     (trim_start_matches ''('' (trim_start_matches ''VARCHAR'' upper))
         in Some (TVarchar (case parse_usize len of Some n \<Rightarrow> n | None \<Rightarrow> 255)))
      else None)"

fun data_type_name :: "data_type \<Rightarrow> string" where
  "data_type_name TInt4 = ''INT4''"
| "data_type_name TInt8 = ''INT8''"
| "data_type_name TFloat4 = ''FLOAT4''"
| "data_type_name TFloat8 = ''FLOAT8''"
| "data_type_name TText = ''TEXT''"
| "data_type_name (TVarchar _) = ''VARCHAR''"
| "data_type_name TBool = ''BOOL''"
| "data_type_name TTimestamp = ''TIMESTAMP''"
| "data_type_name TJson = ''JSON''"

fun show_data_type :: "data_type \<Rightarrow> string" where
  "show_data_type (TVarchar n) = ''VARCHAR('' @ show_nat (unat n) @ '')''"
| "show_data_type t = data_type_name t"

subsection \<open>Values\<close>

datatype db_value =
    Null
  | Int4 u32
  | Int8 u64
  | Float4 f32
  | Float8 f64
  | Text string
  | BoolV bool
  | Timestamp u64
  | Json string

definition is_null :: "db_value \<Rightarrow> bool" where
  "is_null v \<longleftrightarrow> v = Null"

fun type_name :: "db_value \<Rightarrow> string" where
  "type_name Null = ''NULL''"
| "type_name (Int4 _) = ''INT4''"
| "type_name (Int8 _) = ''INT8''"
| "type_name (Float4 _) = ''FLOAT4''"
| "type_name (Float8 _) = ''FLOAT8''"
| "type_name (Text _) = ''TEXT''"
| "type_name (BoolV _) = ''BOOL''"
| "type_name (Timestamp _) = ''TIMESTAMP''"
| "type_name (Json _) = ''JSON''"

fun to_display_string :: "db_value \<Rightarrow> string" where
  "to_display_string Null = ''NULL''"
| "to_display_string (Int4 v) = show_int (sint v)"
| "to_display_string (Int8 v) = show_int (sint v)"
| "to_display_string (Float4 v) = show_f32 v"
| "to_display_string (Float8 v) = show_f64 v"
| "to_display_string (Text v) = v"
| "to_display_string (BoolV v) = (if v then ''true'' else ''false'')"
| "to_display_string (Timestamp v) = show_int (sint v)"
| "to_display_string (Json v) = v"

datatype sql_value =
    Number string bool
  | SingleQuotedString string
  | DoubleQuotedString string
  | Boolean bool
  | SqlNull
  | OtherValue string

fun from_sql_literal :: "sql_value \<Rightarrow> db_value" where
  "from_sql_literal (Number n _) =
     (if CHR ''.'' \<in> set n
      then Float8 (case parse_f64 n of Some x \<Rightarrow> x | None \<Rightarrow> 0)
      else Int8 (case parse_i64 n of Some x \<Rightarrow> x | None \<Rightarrow> 0))"
| "from_sql_literal (SingleQuotedString s) = Text s"
| "from_sql_literal (DoubleQuotedString s) = Text s"
| "from_sql_literal (Boolean b) = BoolV b"
| "from_sql_literal SqlNull = Null"
| "from_sql_literal (OtherValue dbg) = Text dbg"

fun is_varchar :: "data_type \<Rightarrow> bool" where
  "is_varchar (TVarchar _) = True"
| "is_varchar _ = False"

definition coerce_to :: "db_value \<Rightarrow> data_type \<Rightarrow> db_value res" where
  "coerce_to v target =
     (if v = Null then Inr Null
      else case (v, target) of
        (Int4 n, TInt8) \<Rightarrow> Inr (Int8 (scast n))
      | (Int8 n, TInt4) \<Rightarrow> Inr (Int4 (ucast n))
      | (Int4 n, TFloat8) \<Rightarrow> Inr (Float8 (f64_of_int (sint n)))
      | (Int8 n, TFloat8) \<Rightarrow> Inr (Float8 (f64_of_int (sint n)))
      | (Float4 n, TFloat8) \<Rightarrow> Inr (Float8 (f64_of_f32 n))
      | (a, b) \<Rightarrow> if type_name a = data_type_name b \<or> is_varchar b then Inr a
                else Inl (TypeMismatch (show_data_type b) (type_name a)))"

subsection \<open>Columns, rows and results\<close>

record column_def =
  col_name :: string
  col_type :: data_type
  col_nullable :: bool
  col_primary_key :: bool

record row =
  row_values :: "db_value list"
  row_version :: u64

definition row_new :: "db_value list \<Rightarrow> row" where
  "row_new vs = \<lparr>row_values = vs, row_version = 1\<rparr>"

record query_result =
  qr_columns :: "string list"
  qr_rows :: "row list"
  qr_rows_affected :: u64
  qr_message :: "string option"
  qr_meta_changed :: bool

definition qr_empty :: "string \<Rightarrow> query_result" where
  "qr_empty msg = \<lparr>qr_columns = [], qr_rows = [], qr_rows_affected = 0,
     qr_message = Some msg, qr_meta_changed = False\<rparr>"

definition qr_select :: "string list \<Rightarrow> row list \<Rightarrow> query_result" where
  "qr_select cols rs = \<lparr>qr_columns = cols, qr_rows = rs,
     qr_rows_affected = word_of_nat (length rs), qr_message = None, qr_meta_changed = False\<rparr>"

definition qr_modified :: "u64 \<Rightarrow> string \<Rightarrow> query_result" where
  "qr_modified n msg = \<lparr>qr_columns = [], qr_rows = [], qr_rows_affected = n,
     qr_message = Some msg, qr_meta_changed = False\<rparr>"

definition qr_ddl :: "string \<Rightarrow> query_result" where
  "qr_ddl msg = \<lparr>qr_columns = [], qr_rows = [], qr_rows_affected = 0,
     qr_message = Some msg, qr_meta_changed = True\<rparr>"

subsection \<open>Coercion\<close>

text \<open>A value conforms to a column type when it is null, has the type's name, or the type is a
  \<open>VARCHAR\<close>, which stores every value.\<close>

definition conforms :: "db_value \<Rightarrow> data_type \<Rightarrow> bool" where
  "conforms v t \<longleftrightarrow> v = Null \<or> type_name v = data_type_name t \<or> is_varchar t"

lemma coerce_to_laws:
  assumes "coerce_to v t = Inr w"
  shows "conforms w t" "coerce_to w t = Inr w"
  using assms
  by (cases v; cases t; auto simp: coerce_to_def conforms_def)+

text \<open>\<open>coerce_to\<close> only ever produces a value the column type can hold, and such a value is a
  fixed point: storing it again changes nothing.\<close>

theorem coerce_to_conforms_and_stable:
  assumes "coerce_to v t = Inr w"
  shows "conforms w t \<and> coerce_to w t = Inr w"
  using coerce_to_laws [OF assms] by blast

theorem coerce_to_conforms_and_stable_witness:
  "conforms (Int4 7) TInt4 \<and> coerce_to (Int4 7) TInt4 = Inr (Int4 7)"
  by (rule coerce_to_conforms_and_stable [of "Int8 7"]) (simp add: coerce_to_def)

lemma sint_u32_bounds: "- (2 ^ 31) \<le> sint (n :: u32)" "sint (n :: u32) < 2 ^ 31"
  using sint_ge [of n] sint_less [of n] by simp_all

lemma sint_ucast_u32: "sint (ucast (m :: u64) :: u32) = (sint m + 2 ^ 31) mod 2 ^ 32 - 2 ^ 31"
proof -
  have "sint (ucast m :: u32) = signed_take_bit 31 (sint m)"
  proof (rule bit_eqI)
    fix k
    show "bit (sint (ucast m :: u32)) k = bit (signed_take_bit 31 (sint m)) k"
      by (cases "k = 31") (auto simp: bit_sint_iff bit_simps min_def)
  qed
  then show ?thesis by (simp add: signed_take_bit_eq_take_bit_shift take_bit_eq_mod)
qed

lemma sint_scast_u64: "sint (scast (n :: u32) :: u64) = sint n"
  using sint_u32_bounds [of n]
  by (simp add: signed_scast_eq signed_take_bit_int_eq_self)

text \<open>C40: integers stored in a column of the other width. Widening keeps the value; narrowing never
  fails, and the stored number is the original one reduced modulo \<open>2 ^ 32\<close> to the signed range, so
  exactly the values that fit 32 bits are kept.\<close>

theorem coerce_integer_widths:
  "(\<exists>w. coerce_to (Int4 n) TInt8 = Inr (Int8 w) \<and> sint w = sint n)
 \<and> (\<exists>v. coerce_to (Int8 m) TInt4 = Inr (Int4 v)
     \<and> sint v = (sint m + 2 ^ 31) mod 2 ^ 32 - 2 ^ 31
     \<and> (sint v = sint m \<longleftrightarrow> - (2 ^ 31) \<le> sint m \<and> sint m < 2 ^ 31))"
proof -
  have wide: "sint (scast n :: u64) = sint n"
    by (rule sint_scast_u64)
  have narrow: "sint (ucast m :: u32) = (sint m + 2 ^ 31) mod 2 ^ 32 - 2 ^ 31"
    by (rule sint_ucast_u32)
  have fits: "(sint m + 2 ^ 31) mod 2 ^ 32 - 2 ^ 31 = sint m
      \<longleftrightarrow> - (2 ^ 31) \<le> sint m \<and> sint m < 2 ^ 31"
    using pos_mod_bound [of "2 ^ 32 :: int" "sint m + 2 ^ 31"]
      pos_mod_sign [of "2 ^ 32 :: int" "sint m + 2 ^ 31"]
      mod_pos_pos_trivial [of "sint m + 2 ^ 31" "2 ^ 32 :: int"] by auto
  show ?thesis using wide narrow fits by (simp add: coerce_to_def)
qed

lemma digit_upper: "is_digit c \<Longrightarrow> ascii_upper c = c"
  by (auto simp: is_digit_def ascii_upper_def less_eq_char_def)

lemma show_nat_upper: "map ascii_upper (show_nat n) = show_nat n"
  using show_nat_digits [of n] by (intro map_idI) (auto simp: list_all_iff digit_upper)

lemma trim_varchar:
  "trim_end_char CHR '')'' (trim_start_matches ''('' (trim_start_matches ''VARCHAR''
     (''VARCHAR('' @ show_nat n @ '')''))) = show_nat n"
proof -
  obtain c cs where c: "show_nat n = c # cs" "is_digit c" using show_nat_head by blast
  have no_paren: "c \<noteq> CHR ''(''" using c(2) by (auto simp: is_digit_def less_eq_char_def)
  have last: "last (show_nat n) \<noteq> CHR '')''"
    using show_nat_digits [of n] last_in_set [OF show_nat_not_Nil, of n]
    by (fastforce simp: list_all_iff is_digit_def less_eq_char_def)
  have t1: "trim_start_matches ''VARCHAR'' (''VARCHAR('' @ show_nat n @ '')'') =
      ''('' @ show_nat n @ '')''"
    by (simp add: trim_start_matches.simps starts_with_def)
  have t2: "trim_start_matches ''('' (''('' @ show_nat n @ '')'') = show_nat n @ '')''"
    using c(1) no_paren by (simp add: trim_start_matches.simps starts_with_def)
  show ?thesis unfolding t1 t2 trim_end_char_def
    using last by (cases "show_nat n" rule: rev_cases) simp_all
qed

text \<open>The printed form of every column type is read back as the same type.\<close>

theorem data_type_print_parse: "data_type_from_sql (show_data_type t) = Some t"
proof (cases t)
  case (TVarchar n)
  have "to_uppercase (show_data_type t) = ''VARCHAR('' @ show_nat (unat n) @ '')''"
    using TVarchar by (simp add: to_uppercase_def show_nat_upper ascii_upper_def less_eq_char_def)
  then show ?thesis using TVarchar trim_varchar [of "unat n"]
    by (simp add: data_type_from_sql_def Let_def starts_with_def parse_usize_show_nat)
qed (simp_all add: data_type_from_sql_def to_uppercase_def ascii_upper_def less_eq_char_def)

text \<open>Which columns can receive a literal at all. No literal of the SQL grammar other than
  \<open>NULL\<close> can be stored in a \<open>REAL\<close>, \<open>TIMESTAMP\<close> or \<open>JSON\<close> column: coercion has no rule for them.\<close>

theorem literals_rejected_by_columns:
  assumes "t \<in> {TFloat4, TTimestamp, TJson}" and "from_sql_literal lit \<noteq> Null"
  shows "coerce_to (from_sql_literal lit) t =
    Inl (TypeMismatch (show_data_type t) (type_name (from_sql_literal lit)))"
  using assms by (cases lit) (auto simp: coerce_to_def)

theorem literals_rejected_by_columns_witness:
  "coerce_to (from_sql_literal (Number ''1.5'' False)) TFloat4 =
    Inl (TypeMismatch (show_data_type TFloat4) (type_name (from_sql_literal (Number ''1.5'' False))))"
  by (rule literals_rejected_by_columns) simp_all

end
