(* ===== verification/Catalog.thy ===== *)
theory Catalog
  imports Types
begin

text \<open>
  \<open>moodeng-core/src/catalog.rs\<close>: table schemas and index metadata. The concurrent map of tables is
  an association list; every operation takes the catalog and returns its result with the catalog
  it leaves.
\<close>

subsection \<open>State\<close>

record index_meta =
  im_name :: string
  im_columns :: "string list"
  im_unique :: bool

record table_schema =
  ts_name :: string
  ts_columns :: "column_def list"
  ts_indexes :: "index_meta list"

record catalog_stats =
  cs_table_count :: u64
  cs_total_indexes :: u64

record catalog =
  cat_tables :: "(string \<times> table_schema) list"
  cat_stats :: catalog_stats

definition catalog_new :: catalog where
  "catalog_new = \<lparr>cat_tables = [], cat_stats = \<lparr>cs_table_count = 0, cs_total_indexes = 0\<rparr>\<rparr>"

abbreviation schema_names :: "table_schema \<Rightarrow> string list" where
  "schema_names schema \<equiv> map col_name (ts_columns schema)"

subsection \<open>Operations\<close>

definition set_table_count :: "catalog \<Rightarrow> catalog" where
  "set_table_count c =
     c\<lparr>cat_stats := (cat_stats c)\<lparr>cs_table_count := word_of_nat (length (cat_tables c))\<rparr>\<rparr>"

definition cat_create_table :: "string \<Rightarrow> column_def list \<Rightarrow> (moodeng_error, catalog, unit) op" where
  "cat_create_table name columns c =
     (if map_of (cat_tables c) name \<noteq> None
      then (Inl (Execution (''table '' @ [CHR 0x27] @ name @ [CHR 0x27] @ '' already exists'')), c)
      else (Inr (), set_table_count (c\<lparr>cat_tables := AList.update name
             \<lparr>ts_name = name, ts_columns = columns, ts_indexes = []\<rparr> (cat_tables c)\<rparr>)))"

definition cat_drop_table :: "string \<Rightarrow> (moodeng_error, catalog, unit) op" where
  "cat_drop_table name c =
     (if map_of (cat_tables c) name = None then (Inl (TableNotFound name), c)
      else (Inr (), set_table_count (c\<lparr>cat_tables := AList.delete name (cat_tables c)\<rparr>)))"

definition get_table :: "catalog \<Rightarrow> string \<Rightarrow> table_schema res" where
  "get_table c name =
     (case map_of (cat_tables c) name of None \<Rightarrow> Inl (TableNotFound name) | Some t \<Rightarrow> Inr t)"

definition list_tables :: "catalog \<Rightarrow> string list" where
  "list_tables c = sort (map fst (cat_tables c))"

definition load_tables :: "table_schema list \<Rightarrow> catalog \<Rightarrow> catalog" where
  "load_tables ts c =
     set_table_count (c\<lparr>cat_tables := fold (\<lambda>t. AList.update (ts_name t) t) ts (cat_tables c)\<rparr>)"

definition cat_snapshot :: "catalog \<Rightarrow> table_schema list" where
  "cat_snapshot c = sort_by (\<lambda>a b. cmp_of (ts_name a) (ts_name b)) (map snd (cat_tables c))"

definition add_index :: "string \<Rightarrow> index_meta \<Rightarrow> (moodeng_error, catalog, unit) op" where
  "add_index table index c =
     (case map_of (cat_tables c) table of
        None \<Rightarrow> (Inl (TableNotFound table), c)
      | Some entry \<Rightarrow>
          if list_ex (\<lambda>i. im_name i = im_name index) (ts_indexes entry)
          then (Inl (IndexExists (im_name index)), c)
          else (Inr (), c\<lparr>
            cat_tables := AList.update table (entry\<lparr>ts_indexes := ts_indexes entry @ [index]\<rparr>)
                            (cat_tables c),
            cat_stats := (cat_stats c)\<lparr>cs_total_indexes := cs_total_indexes (cat_stats c) + 1\<rparr>\<rparr>))"

definition column_index :: "table_schema \<Rightarrow> string \<Rightarrow> nat option" where
  "column_index schema col = position (\<lambda>c. eq_ignore_ascii_case (col_name c) col) (ts_columns schema)"

definition resolve_column_types :: "table_schema \<Rightarrow> (string \<times> data_type) list" where
  "resolve_column_types schema =
     fold (\<lambda>c. AList.update (col_name c) (col_type c)) (ts_columns schema) []"

subsection \<open>Invariant\<close>

text \<open>Every schema is stored once, under its own name, and its index names are distinct.\<close>

definition schema_ok :: "string \<Rightarrow> table_schema \<Rightarrow> bool" where
  "schema_ok n t \<longleftrightarrow> ts_name t = n \<and> distinct (map im_name (ts_indexes t))"

definition cat_wf :: "catalog \<Rightarrow> bool" where
  "cat_wf c \<longleftrightarrow> amap_inv schema_ok (cat_tables c)"

text \<open>The schemas by name, the abstract view of the catalog.\<close>

definition cat_abs :: "catalog \<Rightarrow> string \<rightharpoonup> table_schema" where
  "cat_abs c = map_of (cat_tables c)"

lemma set_table_count_tables [simp]: "cat_tables (set_table_count c) = cat_tables c"
  by (simp add: set_table_count_def)

lemma cat_wf_new: "cat_wf catalog_new"
  by (simp add: cat_wf_def catalog_new_def)

lemma cat_create_table_wf: "cat_wf c \<Longrightarrow> cat_wf (snd (cat_create_table n cols c))"
  by (auto simp: cat_create_table_def cat_wf_def schema_ok_def intro: amap_inv_update)

lemma cat_drop_table_wf: "cat_wf c \<Longrightarrow> cat_wf (snd (cat_drop_table n c))"
  by (auto simp: cat_drop_table_def cat_wf_def intro: amap_inv_delete)

lemma add_index_wf:
  assumes "cat_wf c"
  shows "cat_wf (snd (add_index n i c))"
proof (cases "map_of (cat_tables c) n")
  case (Some t)
  with assms have "schema_ok n t" by (auto simp: cat_wf_def dest: amap_inv_lookup)
  with Some assms show ?thesis
    by (auto simp: add_index_def cat_wf_def schema_ok_def list_ex_iff intro!: amap_inv_update)
      blast
qed (use assms in \<open>simp add: add_index_def\<close>)

lemma fold_update_wf:
  "amap_inv schema_ok m \<Longrightarrow> \<forall>t \<in> set ts. distinct (map im_name (ts_indexes t)) \<Longrightarrow>
     amap_inv schema_ok (fold (\<lambda>t. AList.update (ts_name t) t) ts m)"
  by (induction ts arbitrary: m) (simp_all add: amap_inv_update schema_ok_def)

lemma load_tables_wf:
  "cat_wf c \<Longrightarrow> \<forall>t \<in> set ts. distinct (map im_name (ts_indexes t)) \<Longrightarrow> cat_wf (load_tables ts c)"
  by (simp add: cat_wf_def load_tables_def fold_update_wf)

subsection \<open>Saving and loading\<close>

text \<open>Schemas are ordered by their names when the catalog is saved.\<close>

interpretation schema_name: comparator_on "\<lambda>a b. cmp_of (ts_name a) (ts_name b)" UNIV
  by unfold_locales (auto simp: cmp_of_def split: if_splits)

lemma map_of_fold_update:
  assumes "distinct (map ts_name ts)"
  shows "map_of (fold (\<lambda>t. AList.update (ts_name t) t) ts m) n =
    (case map_of (map (\<lambda>t. (ts_name t, t)) ts) n of None \<Rightarrow> map_of m n | Some t \<Rightarrow> Some t)"
  using assms
  by (induction ts arbitrary: m)
    (auto simp: update_conv' split: option.splits dest!: map_of_SomeD)

lemma snapshot_schemas:
  assumes "cat_wf c"
  shows "set (cat_snapshot c) = snd ` set (cat_tables c)" "distinct (map ts_name (cat_snapshot c))"
proof -
  have names: "map ts_name (map snd (cat_tables c)) = map fst (cat_tables c)"
    using assms by (auto simp: cat_wf_def amap_inv_def schema_ok_def)
  show "set (cat_snapshot c) = snd ` set (cat_tables c)" by (simp add: cat_snapshot_def)
  have "mset (map ts_name (cat_snapshot c)) = mset (map fst (cat_tables c))"
    unfolding names [symmetric] by (simp add: cat_snapshot_def del: map_map)
  then show "distinct (map ts_name (cat_snapshot c))"
    using assms by (metis cat_wf_def amap_inv_distinct mset_eq_imp_distinct_iff)
qed

lemma snapshot_load_wf:
  "cat_wf c \<Longrightarrow> cat_wf (load_tables (cat_snapshot c) catalog_new)"
  using snapshot_schemas(1) [of c]
  by (intro load_tables_wf cat_wf_new) (auto simp: cat_wf_def amap_inv_def schema_ok_def)

lemma snapshot_load_map:
  assumes "cat_wf c"
  shows "map_of (cat_tables (load_tables (cat_snapshot c) catalog_new)) = map_of (cat_tables c)"
proof -
  let ?named = "map (\<lambda>t. (ts_name t, t)) (cat_snapshot c)"
  have "map fst ?named = map ts_name (cat_snapshot c)" by simp
  moreover have "set ?named = set (cat_tables c)"
    using assms snapshot_schemas(1) [OF assms] by (force simp: cat_wf_def amap_inv_def schema_ok_def)
  moreover have "distinct (map fst (cat_tables c))"
    using assms by (simp add: cat_wf_def amap_inv_distinct)
  ultimately have "map_of ?named = map_of (cat_tables c)"
    using snapshot_schemas(2) [OF assms] by (simp only: map_of_inject_set)
  then show ?thesis
    using map_of_fold_update [OF snapshot_schemas(2) [OF assms], of "[]"]
    by (auto simp: load_tables_def catalog_new_def fun_eq_iff split: option.splits)
qed

text \<open>Saving and loading the catalog. The snapshot lists every schema once in the order of the
  names, and loading it into an empty catalog gives a well-formed catalog with the same schema for
  every name.\<close>

theorem catalog_snapshot_load:
  assumes "cat_wf c"
  shows "cat_wf (load_tables (cat_snapshot c) catalog_new)
    \<and> sorted (map ts_name (cat_snapshot c))
    \<and> get_table (load_tables (cat_snapshot c) catalog_new) n = get_table c n"
proof (intro conjI)
  show "cat_wf (load_tables (cat_snapshot c) catalog_new)" by (rule snapshot_load_wf [OF assms])
  show "sorted (map ts_name (cat_snapshot c))"
    using schema_name.sort_by_sorted [of "map snd (cat_tables c)"]
    by (simp add: cat_snapshot_def sorted_map)
  show "get_table (load_tables (cat_snapshot c) catalog_new) n = get_table c n"
    using snapshot_load_map [OF assms] by (simp add: get_table_def)
qed

definition example_catalog :: catalog where
  "example_catalog = snd (add_index ''t'' \<lparr>im_name = ''i'', im_columns = [''a''], im_unique = True\<rparr>
     (snd (cat_create_table ''s'' [] (snd (cat_create_table ''t'' [] catalog_new)))))"

theorem catalog_snapshot_load_witness:
  "cat_wf (load_tables (cat_snapshot example_catalog) catalog_new)
    \<and> sorted (map ts_name (cat_snapshot example_catalog))
    \<and> get_table (load_tables (cat_snapshot example_catalog) catalog_new) ''t'' =
        get_table example_catalog ''t''"
  by (rule catalog_snapshot_load)
    (simp add: example_catalog_def add_index_wf cat_create_table_wf cat_wf_new)

end
