(* ===== verification/Sql.thy ===== *)
theory Sql
  imports Catalog
begin

text \<open>
  \<open>moodeng-core/src/parser.rs\<close>: the part of the syntax tree of the \<open>sqlparser\<close> crate the program reads,
  and the evaluation of expressions, conditions and assignments on a row. Constructors whose name
  starts with \<open>Other\<close> stand for the remaining variants; where the program prints such a variant, they
  carry the text. An identifier is its \<open>value\<close>, an object name the list of its identifiers, the
  name of a function the text it prints as. How a whole expression prints is the parameter
  \<open>show_expr\<close> of the definitions that need it.
\<close>

subsection \<open>Syntax\<close>

type_synonym object_name = "string list"

datatype binary_operator =
    Plus | Minus | Multiply | StringConcat | Eq | NotEq | Lt | LtEq | Gt | GtEq | And | Or
  | OtherBinary string

datatype unary_operator = NotOp | MinusOp | OtherUnary string

datatype 'e function_arg = ArgExpr 'e | ArgWildcard | OtherArg string

datatype expr =
    ValueE sql_value
  | Identifier string
  | CompoundIdentifier "string list"
  | BinaryOp expr binary_operator expr
  | UnaryOp unary_operator expr
  | IsNull expr
  | IsNotNull expr
  | Nested expr
  | Function string "expr function_arg list option"
  | OtherExpr string

datatype character_length = IntegerLength u64 | MaxLength

datatype sql_data_type =
    SqlInt | SqlInteger | SqlBigInt | SqlFloat | SqlDouble | SqlText | SqlString | SqlBoolean
  | SqlTimestamp | SqlJson | SqlJsonb
  | SqlVarchar "character_length option"
  | SqlCharacterVarying "character_length option"
  | SqlCustom object_name string
  | OtherDataType string

datatype column_option = Unique bool | NotNull | OtherOption string

record sql_column_def =
  scd_name :: string
  scd_data_type :: sql_data_type
  scd_options :: "column_option list"

datatype table_constraint = PrimaryKey "string list" | OtherConstraint string

datatype select_item =
    Wildcard
  | UnnamedExpr expr
  | ExprWithAlias expr string
  | OtherItem string

datatype assignment_target = ColumnName object_name | TupleTarget "object_name list"

record assignment =
  as_target :: assignment_target
  as_value :: expr

datatype table_factor = Table object_name | OtherFactor string

datatype join_constraint = On expr | NoConstraint | OtherJoinConstraint string

datatype join_operator = Inner join_constraint | CrossJoin | OtherJoin string

record join =
  jn_relation :: table_factor
  jn_operator :: join_operator

record table_with_joins =
  twj_relation :: table_factor
  twj_joins :: "join list"

datatype group_by_expr = GroupByAll | GroupByExprs "expr list"

record select =
  sel_projection :: "select_item list"
  sel_from :: "table_with_joins list"
  sel_selection :: "expr option"
  sel_group_by :: group_by_expr

datatype set_expr = Select select | Values "expr list list" | OtherBody string

record order_by_expr =
  ob_expr :: expr
  ob_asc :: "bool option"

record query =
  q_body :: set_expr
  q_order_by :: "order_by_expr list option"
  q_limit :: "expr option"
  q_offset :: "expr option"

datatype conflict_target = TargetColumns "string list" | OnConstraint object_name

datatype on_conflict_action = DoNothing | DoUpdate "assignment list" "expr option"

record on_conflict =
  oc_target :: "conflict_target option"
  oc_action :: on_conflict_action

datatype on_insert = OnConflict on_conflict | DuplicateKeyUpdate | OtherOnInsert string

record insert_stmt =
  ins_table :: object_name
  ins_columns :: "string list"
  ins_source :: "query option"
  ins_on :: "on_insert option"

datatype statement =
    StartTransaction
  | Commit
  | Rollback
  | CreateTable object_name "sql_column_def list" "table_constraint list"
  | Drop string "object_name list"
  | Insert insert_stmt
  | Query query
  | Update table_factor "assignment list" "expr option"
  | Delete "table_with_joins list" "expr option"
  | CreateIndex "object_name option" object_name "expr list" bool
  | Explain statement
  | OtherStatement string

text \<open>What the program takes from \<open>sqlparser\<close>: parsing a text, and how an expression prints.\<close>

record sql_library =
  lib_parse_sql :: "string \<Rightarrow> string + statement list"
  lib_show_expr :: "expr \<Rightarrow> string"

definition parse_sql :: "sql_library \<Rightarrow> string \<Rightarrow> statement list res" where
  "parse_sql L sql = (case lib_parse_sql L sql of Inl e \<Rightarrow> Inl (Parse e) | Inr ss \<Rightarrow> Inr ss)"

subsection \<open>Names and types\<close>

definition last_or_default :: "string list \<Rightarrow> string" where
  "last_or_default xs = (if xs = [] then [] else last xs)"

definition extract_table_name :: "object_name \<Rightarrow> string" where
  "extract_table_name name = last_or_default name"

definition extract_ident :: "object_name \<Rightarrow> string" where
  "extract_ident name = extract_table_name name"

fun dt_name :: "sql_data_type \<Rightarrow> string option" where
  "dt_name (SqlCustom name _) = (if name = [] then None else Some (last name))"
| "dt_name _ = None"

fun varchar_len :: "character_length option \<Rightarrow> u64" where
  "varchar_len (Some (IntegerLength n)) = n"
| "varchar_len (Some MaxLength) = 65535"
| "varchar_len None = 255"

fun sql_type_to_data_type :: "sql_data_type \<Rightarrow> data_type res" where
  "sql_type_to_data_type SqlInt = Inr TInt4"
| "sql_type_to_data_type SqlInteger = Inr TInt4"
| "sql_type_to_data_type SqlBigInt = Inr TInt8"
| "sql_type_to_data_type SqlFloat = Inr TFloat4"
| "sql_type_to_data_type SqlDouble = Inr TFloat8"
| "sql_type_to_data_type SqlText = Inr TText"
| "sql_type_to_data_type SqlString = Inr TText"
| "sql_type_to_data_type SqlBoolean = Inr TBool"
| "sql_type_to_data_type SqlTimestamp = Inr TTimestamp"
| "sql_type_to_data_type SqlJson = Inr TJson"
| "sql_type_to_data_type SqlJsonb = Inr TJson"
| "sql_type_to_data_type (SqlVarchar len) = Inr (TVarchar (varchar_len len))"
| "sql_type_to_data_type (SqlCharacterVarying len) = Inr (TVarchar (varchar_len len))"
| "sql_type_to_data_type (SqlCustom name dbg) =
     (case dt_name (SqlCustom name dbg) of
        Some n \<Rightarrow> (case data_type_from_sql n of
                    Some t \<Rightarrow> Inr t | None \<Rightarrow> Inl (Parse (''unsupported type: '' @ n)))
      | None \<Rightarrow> Inl (Parse (''unsupported type: '' @ dbg)))"
| "sql_type_to_data_type (OtherDataType dbg) = Inl (Parse (''unsupported type: '' @ dbg))"

definition sql_column_to_def :: "sql_column_def \<Rightarrow> column_def res" where
  "sql_column_to_def col =
     rbind (sql_type_to_data_type (scd_data_type col)) (\<lambda>t.
       Inr \<lparr>col_name = scd_name col, col_type = t,
            col_nullable = \<not> list_ex (\<lambda>opt. opt = NotNull) (scd_options col),
            col_primary_key = list_ex (\<lambda>opt. opt = Unique True) (scd_options col)\<rparr>)"

fun primary_key_columns :: "table_constraint \<Rightarrow> string list" where
  "primary_key_columns (PrimaryKey columns) = columns"
| "primary_key_columns _ = []"

definition extract_pk_from_constraints :: "table_constraint list \<Rightarrow> string list" where
  "extract_pk_from_constraints constraints = concat (map primary_key_columns constraints)"

subsection \<open>Expressions\<close>

text \<open>\<open>rsplit('.').next()\<close>: what follows the last dot.\<close>

definition bare_name :: "string \<Rightarrow> string" where
  "bare_name col = rev (takeWhile (\<lambda>c. c \<noteq> CHR ''.'') (rev col))"

definition column_value :: "string \<Rightarrow> db_value list \<Rightarrow> string list \<Rightarrow> db_value res" where
  "column_value col r columns =
     (case position (\<lambda>c. eq_ignore_ascii_case c col \<or> eq_ignore_ascii_case c (bare_name col)) columns of
        None \<Rightarrow> Inl (ColumnNotFound col)
      | Some idx \<Rightarrow> Inr (get_or Null r idx))"

definition excluded_value :: "string \<Rightarrow> db_value list option \<Rightarrow> string list \<Rightarrow> db_value res" where
  "excluded_value col excluded columns =
     (case excluded of
        None \<Rightarrow> Inl (Execution ''EXCLUDED is only valid in ON CONFLICT DO UPDATE'')
      | Some r \<Rightarrow> column_value col r columns)"

fun as_i64 :: "db_value \<Rightarrow> u64 option" where
  "as_i64 (Int4 n) = Some (scast n)"
| "as_i64 (Int8 n) = Some n"
| "as_i64 _ = None"

definition values_equal :: "db_value \<Rightarrow> db_value \<Rightarrow> bool" where
  "values_equal a b =
     (case (as_i64 a, as_i64 b) of
        (Some ai, Some bi) \<Rightarrow> ai = bi
      | _ \<Rightarrow> (case (a, b) of
               (Text x, Text y) \<Rightarrow> x = y
             | (BoolV x, BoolV y) \<Rightarrow> x = y
             | (Float8 x, Float8 y) \<Rightarrow> f64_less (f64_abs (f64_sub x y)) f64_epsilon
             | (Null, Null) \<Rightarrow> True
             | _ \<Rightarrow> False))"

definition compare_ints :: "db_value \<Rightarrow> db_value \<Rightarrow> ordering option" where
  "compare_ints a b =
     (case (as_i64 a, as_i64 b) of
        (Some x, Some y) \<Rightarrow> Some (cmp_of (sint x) (sint y)) | _ \<Rightarrow> None)"

fun is_comparison :: "binary_operator \<Rightarrow> bool" where
  "is_comparison Eq = True" | "is_comparison NotEq = True" | "is_comparison Lt = True"
| "is_comparison LtEq = True" | "is_comparison Gt = True" | "is_comparison GtEq = True"
| "is_comparison _ = False"

text \<open>The arms of the match, grouped by operator.\<close>

fun eval_operator :: "db_value \<Rightarrow> binary_operator \<Rightarrow> db_value \<Rightarrow> db_value" where
  "eval_operator l Plus r =
     (case (l, r) of (Int4 a, Int4 b) \<Rightarrow> Int4 (a + b) | (Int8 a, Int8 b) \<Rightarrow> Int8 (a + b)
      | (Float8 a, Float8 b) \<Rightarrow> Float8 (f64_add a b) | _ \<Rightarrow> Null)"
| "eval_operator l Minus r =
     (case (l, r) of (Int4 a, Int8 b) \<Rightarrow> Int8 (scast a - b)
      | (Float8 a, Float8 b) \<Rightarrow> Float8 (f64_sub a b) | _ \<Rightarrow> Null)"
| "eval_operator l Multiply r = (case (l, r) of (Int8 a, Int8 b) \<Rightarrow> Int8 (a * b) | _ \<Rightarrow> Null)"
| "eval_operator l StringConcat r = (case (l, r) of (Text a, Text b) \<Rightarrow> Text (a @ b) | _ \<Rightarrow> Null)"
| "eval_operator l Eq r = BoolV (values_equal l r)"
| "eval_operator l NotEq r = BoolV (\<not> values_equal l r)"
| "eval_operator l Lt r = BoolV (compare_ints l r = Some Less)"
| "eval_operator l LtEq r = BoolV (compare_ints l r \<in> {Some Less, Some Equal})"
| "eval_operator l Gt r = BoolV (compare_ints l r = Some Greater)"
| "eval_operator l GtEq r = BoolV (compare_ints l r \<in> {Some Greater, Some Equal})"
| "eval_operator l And r = (case (l, r) of (BoolV a, BoolV b) \<Rightarrow> BoolV (a \<and> b) | _ \<Rightarrow> Null)"
| "eval_operator l Or r = (case (l, r) of (BoolV a, BoolV b) \<Rightarrow> BoolV (a \<or> b) | _ \<Rightarrow> Null)"
| "eval_operator l (OtherBinary _) r = Null"

definition eval_binary :: "db_value \<Rightarrow> binary_operator \<Rightarrow> db_value \<Rightarrow> db_value" where
  "eval_binary l op r =
     (if l = Null \<or> r = Null then
        (if is_comparison op then BoolV False
         else if op = And \<or> op = Or then eval_operator l op r else Null)
      else eval_operator l op r)"

fun eval_unary :: "unary_operator \<Rightarrow> db_value \<Rightarrow> db_value" where
  "eval_unary NotOp v = (case v of BoolV b \<Rightarrow> BoolV (\<not> b) | _ \<Rightarrow> BoolV False)"
| "eval_unary MinusOp v = (case v of Int4 n \<Rightarrow> Int4 (- n) | Int8 n \<Rightarrow> Int8 (- n)
     | Float8 n \<Rightarrow> Float8 (f64_neg n) | other \<Rightarrow> other)"
| "eval_unary (OtherUnary _) v = v"

fun text_function :: "(string \<Rightarrow> string) \<Rightarrow> db_value \<Rightarrow> db_value" where
  "text_function f (Text s) = Text (f s)"
| "text_function f _ = Null"

text \<open>A compound name that is not an excluded column: its two last parts.\<close>

definition compound_column :: "string list \<Rightarrow> string" where
  "compound_column parts =
     (if 2 \<le> length parts then parts ! (length parts - 2) @ ''.'' @ parts ! (length parts - 1)
      else last_or_default parts)"

definition names_excluded :: "string list \<Rightarrow> bool" where
  "names_excluded parts \<longleftrightarrow> 2 \<le> length parts \<and> eq_ignore_ascii_case (parts ! 0) ''excluded''"

text \<open>A call: without an argument list, with a list that does not start with an expression, or with what
  evaluating the first argument gives; only \<open>UPPER\<close> and \<open>LOWER\<close> look at the argument.\<close>

definition eval_function_with_excluded :: "string \<Rightarrow> db_value res option option \<Rightarrow> db_value res" where
  "eval_function_with_excluded name args =
     (let n = to_uppercase name in
      case args of
        None \<Rightarrow> Inr Null
      | Some first \<Rightarrow>
          if n = ''COUNT'' then Inr (Int8 1)
          else if n = ''UPPER'' then
            (case first of Some arg \<Rightarrow> rbind arg (\<lambda>v. Inr (text_function to_uppercase v)) | None \<Rightarrow> Inr Null)
          else if n = ''LOWER'' then
            (case first of Some arg \<Rightarrow> rbind arg (\<lambda>v. Inr (text_function to_lowercase v)) | None \<Rightarrow> Inr Null)
          else Inr Null)"

fun eval_expr_with_excluded :: "expr \<Rightarrow> db_value list \<Rightarrow> string list \<Rightarrow> db_value list option \<Rightarrow> db_value res" where
  "eval_expr_with_excluded (ValueE v) r columns excluded = Inr (from_sql_literal v)"
| "eval_expr_with_excluded (Identifier v) r columns excluded = column_value v r columns"
| "eval_expr_with_excluded (CompoundIdentifier parts) r columns excluded =
     (if names_excluded parts then excluded_value (parts ! (length parts - 1)) excluded columns
      else column_value (compound_column parts) r columns)"
| "eval_expr_with_excluded (BinaryOp left op right) r columns excluded =
     rbind (eval_expr_with_excluded left r columns excluded) (\<lambda>x.
     rbind (eval_expr_with_excluded right r columns excluded) (\<lambda>y. Inr (eval_binary x op y)))"
| "eval_expr_with_excluded (UnaryOp op e) r columns excluded =
     rbind (eval_expr_with_excluded e r columns excluded) (\<lambda>v. Inr (eval_unary op v))"
| "eval_expr_with_excluded (IsNull e) r columns excluded =
     rbind (eval_expr_with_excluded e r columns excluded) (\<lambda>v. Inr (BoolV (is_null v)))"
| "eval_expr_with_excluded (IsNotNull e) r columns excluded =
     rbind (eval_expr_with_excluded e r columns excluded) (\<lambda>v. Inr (BoolV (\<not> is_null v)))"
| "eval_expr_with_excluded (Nested e) r columns excluded = eval_expr_with_excluded e r columns excluded"
| "eval_expr_with_excluded (Function name args) r columns excluded =
     eval_function_with_excluded name
       (case args of
          None \<Rightarrow> None
        | Some (ArgExpr e # _) \<Rightarrow> Some (Some (eval_expr_with_excluded e r columns excluded))
        | Some _ \<Rightarrow> Some None)"
| "eval_expr_with_excluded (OtherExpr _) r columns excluded = Inr Null"

definition eval_expr :: "expr \<Rightarrow> db_value list \<Rightarrow> string list \<Rightarrow> db_value res" where
  "eval_expr e r columns = eval_expr_with_excluded e r columns None"

definition eval_where_with_excluded :: "expr \<Rightarrow> db_value list \<Rightarrow> string list \<Rightarrow> db_value list option \<Rightarrow> bool res" where
  "eval_where_with_excluded e r columns excluded =
     rbind (eval_expr_with_excluded e r columns excluded) (\<lambda>v.
       Inr (case v of BoolV b \<Rightarrow> b | Null \<Rightarrow> False | _ \<Rightarrow> True))"

definition eval_where :: "expr \<Rightarrow> db_value list \<Rightarrow> string list \<Rightarrow> bool res" where
  "eval_where e r columns = eval_where_with_excluded e r columns None"

fun target_column :: "assignment_target \<Rightarrow> string" where
  "target_column (ColumnName name) = extract_table_name name"
| "target_column (TupleTarget names) = (case names of [] \<Rightarrow> [] | n # _ \<Rightarrow> extract_table_name n)"

definition assignment_value_with_excluded :: "assignment \<Rightarrow> db_value list \<Rightarrow> string list \<Rightarrow>
    db_value list option \<Rightarrow> (string \<times> db_value) res" where
  "assignment_value_with_excluded assign r columns excluded =
     rbind (eval_expr_with_excluded (as_value assign) r columns excluded) (\<lambda>v.
       Inr (target_column (as_target assign), v))"

definition assignment_value :: "assignment \<Rightarrow> db_value list \<Rightarrow> string list \<Rightarrow> (string \<times> db_value) res" where
  "assignment_value assign r columns = assignment_value_with_excluded assign r columns None"

subsection \<open>Statements\<close>

fun insert_literal :: "expr \<Rightarrow> db_value" where
  "insert_literal (ValueE v) = from_sql_literal v"
| "insert_literal _ = Null"

definition values_from_insert :: "query \<Rightarrow> db_value list list res" where
  "values_from_insert source =
     (case q_body source of
        Values rows \<Rightarrow> Inr (map (map insert_literal) rows)
      | _ \<Rightarrow> Inl (Parse ''only VALUES inserts supported''))"

fun expr_to_string :: "(expr \<Rightarrow> string) \<Rightarrow> expr \<Rightarrow> string" where
  "expr_to_string show_expr (Identifier v) = v"
| "expr_to_string show_expr (CompoundIdentifier parts) = last_or_default parts"
| "expr_to_string show_expr e = show_expr e"

fun item_column :: "(expr \<Rightarrow> string) \<Rightarrow> select_item \<Rightarrow> string list" where
  "item_column show_expr Wildcard = []"
| "item_column show_expr (UnnamedExpr e) = [expr_to_string show_expr e]"
| "item_column show_expr (ExprWithAlias e alias) = [alias]"
| "item_column show_expr (OtherItem _) = []"

definition select_items_to_columns :: "(expr \<Rightarrow> string) \<Rightarrow> select_item list \<Rightarrow> string list" where
  "select_items_to_columns show_expr items = concat (map (item_column show_expr) items)"

subsection \<open>Evaluation never fails on data\<close>

text \<open>Whether every name that evaluation looks up resolves: \<open>excl\<close> says if there is an excluded row. The
  arguments of functions other than \<open>UPPER\<close> and \<open>LOWER\<close> are not evaluated.\<close>

definition resolves :: "string \<Rightarrow> string list \<Rightarrow> bool" where
  "resolves col columns =
     list_ex (\<lambda>c. eq_ignore_ascii_case c col \<or> eq_ignore_ascii_case c (bare_name col)) columns"

fun names_resolve :: "expr \<Rightarrow> string list \<Rightarrow> bool \<Rightarrow> bool" where
  "names_resolve (Identifier v) columns excl = resolves v columns"
| "names_resolve (CompoundIdentifier parts) columns excl =
     (if names_excluded parts then excl \<and> resolves (parts ! (length parts - 1)) columns
      else resolves (compound_column parts) columns)"
| "names_resolve (BinaryOp l op r) columns excl =
     (names_resolve l columns excl \<and> names_resolve r columns excl)"
| "names_resolve (UnaryOp op e) columns excl = names_resolve e columns excl"
| "names_resolve (IsNull e) columns excl = names_resolve e columns excl"
| "names_resolve (IsNotNull e) columns excl = names_resolve e columns excl"
| "names_resolve (Nested e) columns excl = names_resolve e columns excl"
| "names_resolve (Function name args) columns excl =
     (case args of
        Some (ArgExpr e # _) \<Rightarrow>
          to_uppercase name \<in> {''UPPER'', ''LOWER''} \<longrightarrow> names_resolve e columns excl
      | _ \<Rightarrow> True)"
| "names_resolve e columns excl = True"

lemma column_value_total: "(\<exists>v. column_value col r columns = Inr v) \<longleftrightarrow> resolves col columns"
proof (cases "position (\<lambda>c. eq_ignore_ascii_case c col \<or> eq_ignore_ascii_case c (bare_name col)) columns")
  case None
  then have "column_value col r columns = Inl (ColumnNotFound col)" unfolding column_value_def by (simp only: option.case)
  then show ?thesis using None by (simp add: resolves_def list_ex_iff)
next
  case (Some i)
  have "\<exists>c \<in> set columns. eq_ignore_ascii_case c col \<or> eq_ignore_ascii_case c (bare_name col)"
    using position_SomeD [OF Some] nth_mem by blast
  moreover have "column_value col r columns = Inr (get_or Null r i)"
    unfolding column_value_def Some by simp
  ultimately show ?thesis by (auto simp: resolves_def list_ex_iff)
qed

lemma eval_function_total:
  "(\<exists>v. eval_function_with_excluded name args = Inr v) \<longleftrightarrow>
     (case args of Some (Some arg) \<Rightarrow> to_uppercase name \<in> {''UPPER'', ''LOWER''} \<longrightarrow> (\<exists>v. arg = Inr v) | _ \<Rightarrow> True)"
  by (auto simp: eval_function_with_excluded_def Let_def rbind_eq_Inr split: option.splits)

text \<open>An expression evaluates without an error on a row exactly when every column name it reads
  resolves, whatever the values in the row are: there are no run-time type errors.\<close>

theorem eval_expr_succeeds_iff:
  "(\<exists>v. eval_expr_with_excluded e r columns excluded = Inr v) \<longleftrightarrow>
     names_resolve e columns (excluded \<noteq> None)"
proof (induction e)
  case (CompoundIdentifier parts)
  then show ?case using column_value_total by (auto simp: excluded_value_def split: option.splits)
next
  case (Function name args)
  show ?case
  proof (cases "\<exists>e rest. args = Some (ArgExpr e # rest)")
    case True
    then obtain e rest where args: "args = Some (ArgExpr e # rest)" by blast
    have "(\<exists>v. eval_expr_with_excluded e r columns excluded = Inr v) \<longleftrightarrow>
        names_resolve e columns (excluded \<noteq> None)"
      by (rule Function [of "ArgExpr e # rest" "ArgExpr e"]) (simp_all add: args)
    then show ?thesis by (simp add: args eval_function_total)
  next
    case False
    then show ?thesis
      by (auto simp: eval_function_total split: option.splits list.splits function_arg.splits)
  qed
qed (auto simp: column_value_total rbind_eq_Inr)

subsection \<open>Comparisons\<close>

text \<open>Comparisons of integers agree with the order of the numbers across the two widths, and a
  comparison with null is never true.\<close>

theorem integer_comparisons:
  assumes "as_i64 a = Some x" and "as_i64 b = Some y"
  shows "eval_binary a Eq b = BoolV (sint x = sint y) \<and> eval_binary a NotEq b = BoolV (sint x \<noteq> sint y)
    \<and> eval_binary a Lt b = BoolV (sint x < sint y) \<and> eval_binary a LtEq b = BoolV (sint x \<le> sint y)
    \<and> eval_binary a Gt b = BoolV (sint y < sint x) \<and> eval_binary a GtEq b = BoolV (sint y \<le> sint x)
    \<and> (is_comparison op \<longrightarrow> eval_binary a op Null = BoolV False)"
proof -
  have nn: "a \<noteq> Null" "b \<noteq> Null" using assms by auto
  have eq: "x = y \<longleftrightarrow> sint x = sint y" by (auto intro: signed_word_eqI)
  note simps = eval_binary_def nn values_equal_def compare_ints_def assms cmp_of_def
  have "eval_binary a Eq b = BoolV (sint x = sint y)" "eval_binary a NotEq b = BoolV (sint x \<noteq> sint y)"
    by (simp_all add: simps eq)
  moreover have "eval_binary a Lt b = BoolV (sint x < sint y)" "eval_binary a LtEq b = BoolV (sint x \<le> sint y)"
    "eval_binary a Gt b = BoolV (sint y < sint x)" "eval_binary a GtEq b = BoolV (sint y \<le> sint x)"
    by (auto simp: simps)
  moreover have "is_comparison op \<Longrightarrow> eval_binary a op Null = BoolV False" by (simp add: eval_binary_def)
  ultimately show ?thesis by blast
qed

theorem integer_comparisons_witness:
  "eval_binary (Int4 (- 1)) Lt (Int8 2) = BoolV True"
proof -
  have "as_i64 (Int4 (- 1)) = Some (- 1)" "as_i64 (Int8 2) = Some 2" by simp_all
  from integer_comparisons [OF this, of Lt] show ?thesis by simp
qed

end
