(* ===== verification/Query_Util.thy ===== *)
theory Query_Util
  imports Sql "HOL-Library.Product_Lexorder"
begin

text \<open>
  \<open>moodeng-core/src/query_util.rs\<close>: ordering, limits, grouping with aggregates, and the substitution of
  parameters in a query text. The hash map of groups is an association list; its order stands for
  the iteration order of the map, so the groups are built by one definition and evaluated by another.
\<close>

subsection \<open>Ordering and limits\<close>

definition compare_values :: "db_value \<Rightarrow> db_value \<Rightarrow> ordering" where
  "compare_values a b =
     (case (a, b) of
        (Null, Null) \<Rightarrow> Equal
      | (Null, _) \<Rightarrow> Less
      | (_, Null) \<Rightarrow> Greater
      | (Int4 x, Int4 y) \<Rightarrow> cmp_of (sint x) (sint y)
      | (Int8 x, Int8 y) \<Rightarrow> cmp_of (sint x) (sint y)
      | (Text x, Text y) \<Rightarrow> cmp_of x y
      | (Float8 x, Float8 y) \<Rightarrow> (case f64_partial_cmp x y of Some c \<Rightarrow> c | None \<Rightarrow> Equal)
      | (BoolV x, BoolV y) \<Rightarrow> cmp_of x y
      | _ \<Rightarrow> cmp_of (to_display_string a) (to_display_string b))"

definition eval_or_null :: "expr \<Rightarrow> row \<Rightarrow> string list \<Rightarrow> db_value" where
  "eval_or_null e r col_names = (case eval_expr e (row_values r) col_names of Inl _ \<Rightarrow> Null | Inr v \<Rightarrow> v)"

fun compare_rows :: "order_by_expr list \<Rightarrow> string list \<Rightarrow> row \<Rightarrow> row \<Rightarrow> ordering" where
  "compare_rows [] col_names a b = Equal"
| "compare_rows (ob # order_by) col_names a b =
     (let asc = (case ob_asc ob of None \<Rightarrow> True | Some d \<Rightarrow> d);
          ord = compare_values (eval_or_null (ob_expr ob) a col_names) (eval_or_null (ob_expr ob) b col_names)
      in if ord \<noteq> Equal then (if asc then ord else ordering_reverse ord)
         else compare_rows order_by col_names a b)"

definition sort_rows :: "row list \<Rightarrow> order_by_expr list \<Rightarrow> string list \<Rightarrow> row list" where
  "sort_rows rows order_by col_names =
     (if order_by = [] then rows else sort_by (compare_rows order_by col_names) rows)"

definition expr_to_usize :: "expr \<Rightarrow> string list \<Rightarrow> nat res" where
  "expr_to_usize e col_names =
     rbind (eval_expr e [] col_names) (\<lambda>val.
       let bad = Inl (Execution (''invalid limit/offset: '' @ to_display_string val)) in
       case val of
         Int4 n \<Rightarrow> if 0 \<le> sint n then Inr (unat n) else bad
       | Int8 n \<Rightarrow> if 0 \<le> sint n then Inr (unat n) else bad
       | _ \<Rightarrow> bad)"

definition apply_limit_offset :: "row list \<Rightarrow> expr option \<Rightarrow> expr option \<Rightarrow> string list \<Rightarrow> row list res" where
  "apply_limit_offset rows limit offset col_names =
     rbind (case offset of None \<Rightarrow> Inr 0 | Some e \<Rightarrow> expr_to_usize e col_names) (\<lambda>off.
     rbind (case limit of None \<Rightarrow> Inr None | Some e \<Rightarrow> map_sum id Some (expr_to_usize e col_names)) (\<lambda>lim.
       let rows = drop off rows in
       Inr (case lim of Some n \<Rightarrow> take n rows | None \<Rightarrow> rows)))"

subsection \<open>Grouping\<close>

definition is_agg_function :: "string \<Rightarrow> bool" where
  "is_agg_function name \<longleftrightarrow> to_uppercase name \<in> {''COUNT'', ''SUM'', ''AVG'', ''MIN'', ''MAX''}"

fun is_agg_expr :: "expr \<Rightarrow> bool" where
  "is_agg_expr (Function name _) = is_agg_function name"
| "is_agg_expr _ = False"

fun item_expr :: "select_item \<Rightarrow> expr option" where
  "item_expr (UnnamedExpr e) = Some e"
| "item_expr (ExprWithAlias e _) = Some e"
| "item_expr _ = None"

definition is_aggregate_query :: "select_item list \<Rightarrow> bool" where
  "is_aggregate_query items =
     list_ex (\<lambda>item. case item_expr item of None \<Rightarrow> False | Some e \<Rightarrow> is_agg_expr e) items"

fun value_as_f64 :: "db_value \<Rightarrow> f64 option" where
  "value_as_f64 (Int4 n) = Some (f64_of_int (sint n))"
| "value_as_f64 (Int8 n) = Some (f64_of_int (sint n))"
| "value_as_f64 (Float4 n) = Some (f64_of_f32 n)"
| "value_as_f64 (Float8 n) = Some n"
| "value_as_f64 _ = None"

fun function_values :: "expr function_arg list \<Rightarrow> row list \<Rightarrow> string list \<Rightarrow> db_value list res" where
  "function_values (ArgExpr e # _) group_rows col_names =
     rmapM (\<lambda>r. eval_expr e (row_values r) col_names) group_rows"
| "function_values _ group_rows col_names = Inr []"

definition f64_sum :: "f64 list \<Rightarrow> f64" where
  "f64_sum xs = foldl f64_add 0 xs"

text \<open>\<open>Iterator::min_by\<close> keeps the first of equal elements, \<open>max_by\<close> the last.\<close>

definition min_by :: "('a \<Rightarrow> 'a \<Rightarrow> ordering) \<Rightarrow> 'a list \<Rightarrow> 'a option" where
  "min_by cmp xs = (case xs of [] \<Rightarrow> None
     | x # ys \<Rightarrow> Some (foldl (\<lambda>m y. if cmp m y = Greater then y else m) x ys))"

definition max_by :: "('a \<Rightarrow> 'a \<Rightarrow> ordering) \<Rightarrow> 'a list \<Rightarrow> 'a option" where
  "max_by cmp xs = (case xs of [] \<Rightarrow> None
     | x # ys \<Rightarrow> Some (foldl (\<lambda>m y. if cmp m y = Greater then m else y) x ys))"

text \<open>The last two cases index the first row of the group and would panic on an empty one; the caller
  never takes them.\<close>

definition eval_first_row :: "expr \<Rightarrow> row list \<Rightarrow> string list \<Rightarrow> db_value res" where
  "eval_first_row e group_rows col_names =
     (case group_rows of [] \<Rightarrow> Inl (OtherError ''panic: index out of bounds'')
      | r # _ \<Rightarrow> eval_expr e (row_values r) col_names)"

fun eval_agg_expr :: "expr \<Rightarrow> row list \<Rightarrow> string list \<Rightarrow> db_value list res" where
  "eval_agg_expr (Function name fargs) group_rows col_names =
     (let n = to_uppercase name;
          args = (case fargs of Some list \<Rightarrow> list | None \<Rightarrow> [])
      in if n = ''COUNT'' then Inr [Int8 (word_of_nat (length group_rows))]
         else if n = ''SUM'' then rbind (function_values args group_rows col_names) (\<lambda>col.
           Inr [Float8 (f64_sum (List.map_filter value_as_f64 col))])
         else if n = ''AVG'' then rbind (function_values args group_rows col_names) (\<lambda>col.
           let nums = List.map_filter value_as_f64 col in
           Inr [Float8 (if nums = [] then 0
                        else f64_div (f64_sum nums) (f64_of_int (int (length nums))))])
         else if n = ''MIN'' then rbind (function_values args group_rows col_names) (\<lambda>col.
           Inr [case min_by compare_values col of None \<Rightarrow> Null | Some v \<Rightarrow> v])
         else if n = ''MAX'' then rbind (function_values args group_rows col_names) (\<lambda>col.
           Inr [case max_by compare_values col of None \<Rightarrow> Null | Some v \<Rightarrow> v])
         else map_sum id (\<lambda>v. [v]) (eval_first_row (Function name fargs) group_rows col_names))"
| "eval_agg_expr e group_rows col_names = map_sum id (\<lambda>v. [v]) (eval_first_row e group_rows col_names)"

definition eval_grouped_expr :: "expr \<Rightarrow> row list \<Rightarrow> string list \<Rightarrow> db_value res" where
  "eval_grouped_expr e group_rows col_names =
     (if is_agg_expr e
      then rbind (eval_agg_expr e group_rows col_names) (\<lambda>vs. Inr (case vs of [] \<Rightarrow> Null | v # _ \<Rightarrow> v))
      else eval_expr e (case group_rows of [] \<Rightarrow> [] | r # _ \<Rightarrow> row_values r) col_names)"

text \<open>\<open>key.join("\x1f")\<close>.\<close>

fun join_with :: "string \<Rightarrow> string list \<Rightarrow> string" where
  "join_with sep [] = []"
| "join_with sep [x] = x"
| "join_with sep (x # y # ys) = x @ sep @ join_with sep (y # ys)"

definition group_key :: "expr list \<Rightarrow> row \<Rightarrow> string list \<Rightarrow> string res" where
  "group_key group_exprs r col_names =
     rbind (rmapM (\<lambda>e. map_sum id to_display_string (eval_expr e (row_values r) col_names)) group_exprs)
       (\<lambda>key. Inr (join_with [CHR 0x1F] key))"

definition add_to_group :: "string \<Rightarrow> row \<Rightarrow> (string \<times> row list) list \<Rightarrow> (string \<times> row list) list" where
  "add_to_group key r groups =
     AList.update key ((case map_of groups key of None \<Rightarrow> [] | Some rs \<Rightarrow> rs) @ [r]) groups"

fun group_rows_by :: "expr list \<Rightarrow> string list \<Rightarrow> row list \<Rightarrow> (string \<times> row list) list \<Rightarrow>
    (string \<times> row list) list res" where
  "group_rows_by group_exprs col_names [] groups = Inr groups"
| "group_rows_by group_exprs col_names (r # rows) groups =
     rbind (group_key group_exprs r col_names) (\<lambda>key.
       group_rows_by group_exprs col_names rows (add_to_group key r groups))"

fun is_wildcard :: "select_item \<Rightarrow> bool" where
  "is_wildcard Wildcard = True"
| "is_wildcard _ = False"

definition has_wildcard :: "select_item list \<Rightarrow> bool" where
  "has_wildcard items = list_ex is_wildcard items"

fun grouped_column :: "(expr \<Rightarrow> string) \<Rightarrow> select_item \<Rightarrow> string list" where
  "grouped_column show_expr (ExprWithAlias e alias) = [alias]"
| "grouped_column show_expr (UnnamedExpr e) = [show_expr e]"
| "grouped_column show_expr _ = []"

definition eval_group :: "select_item list \<Rightarrow> string list \<Rightarrow> row list \<Rightarrow> row res" where
  "eval_group items col_names group_rows =
     (case (has_wildcard items, group_rows) of
        (True, first # _) \<Rightarrow> Inr (row_new (row_values first))
      | _ \<Rightarrow> rbind (rmapM (\<lambda>e. eval_grouped_expr e group_rows col_names) (List.map_filter item_expr items))
               (\<lambda>vals. Inr (row_new vals)))"

definition apply_group_by :: "(expr \<Rightarrow> string) \<Rightarrow> select_item list \<Rightarrow> expr list \<Rightarrow> row list \<Rightarrow> string list \<Rightarrow>
    (string list \<times> row list) res" where
  "apply_group_by show_expr items group_exprs rows col_names =
     (if group_exprs = [] \<and> \<not> is_aggregate_query items then Inr ([], rows)
      else rbind (group_rows_by group_exprs col_names rows []) (\<lambda>groups.
           let output_cols = (if has_wildcard items then col_names
                              else concat (map (grouped_column show_expr) items))
           in rbind (rmapM (\<lambda>g. eval_group items col_names (snd g)) groups) (\<lambda>result.
              Inr (output_cols, result))))"

subsection \<open>Parameters\<close>

text \<open>\<open>str::replace\<close>: every non-overlapping occurrence from left to right.\<close>

function str_replace :: "string \<Rightarrow> string \<Rightarrow> string \<Rightarrow> string" where
  "str_replace pat rep s =
     (if pat = [] \<or> s = [] then s
      else if starts_with pat s then rep @ str_replace pat rep (drop (length pat) s)
      else hd s # str_replace pat rep (tl s))"
  by pat_completeness auto
termination
  by (relation "measure (\<lambda>(pat, rep, s). length s)") (auto simp: neq_Nil_conv)

declare str_replace.simps [simp del]

definition quote_param :: "string option \<Rightarrow> string" where
  "quote_param param =
     (case param of
        None \<Rightarrow> ''NULL''
      | Some v \<Rightarrow>
          if eq_ignore_ascii_case v ''null'' then ''NULL''
          else if v \<noteq> [] \<and> is_digit (hd v) then v
          else [CHR 0x27] @ v @ [CHR 0x27])"

definition substitute_params :: "string \<Rightarrow> string option list \<Rightarrow> string" where
  "substitute_params sql params =
     fold (\<lambda>(i, param) result. str_replace (''$'' @ show_nat (i + 1)) (quote_param param) result)
       (rev (enumerate 0 params)) sql"

subsection \<open>Sorting\<close>

text \<open>Values of one kind are ordered by a key, null first; across kinds, and for a float that is not a
  number, \<open>compare_values\<close> is no order.\<close>

definition same_kind :: "db_value \<Rightarrow> db_value \<Rightarrow> bool" where
  "same_kind a b \<longleftrightarrow> a = Null \<or> b = Null \<or> type_name a = type_name b"

fun not_nan :: "db_value \<Rightarrow> bool" where
  "not_nan (Float8 x) = (\<not> f64_is_nan x)"
| "not_nan _ = True"

fun sort_rank :: "db_value \<Rightarrow> nat \<times> int \<times> string" where
  "sort_rank Null = (0, 0, [])"
| "sort_rank (Int4 x) = (1, sint x, [])"
| "sort_rank (Int8 x) = (1, sint x, [])"
| "sort_rank (Float8 x) = (1, f64_int x, [])"
| "sort_rank (Text s) = (1, 0, s)"
| "sort_rank (BoolV b) = (1, of_bool b, [])"
| "sort_rank v = (1, 0, to_display_string v)"

lemma compare_values_rank:
  "same_kind a b \<Longrightarrow> not_nan a \<Longrightarrow> not_nan b \<Longrightarrow> compare_values a b = cmp_of (sort_rank a) (sort_rank b)"
  by (cases a; cases b) (auto simp: compare_values_def same_kind_def cmp_of_def f64_partial_cmp_def of_bool_def)

definition uniform_keys :: "order_by_expr list \<Rightarrow> string list \<Rightarrow> row set \<Rightarrow> bool" where
  "uniform_keys order_by col_names S \<longleftrightarrow> (\<forall>ob \<in> set order_by. \<forall>a \<in> S. \<forall>b \<in> S.
     same_kind (eval_or_null (ob_expr ob) a col_names) (eval_or_null (ob_expr ob) b col_names)
     \<and> not_nan (eval_or_null (ob_expr ob) a col_names))"

lemma compare_rows_comparator:
  "uniform_keys order_by col_names S \<Longrightarrow> comparator_on (compare_rows order_by col_names) S"
proof (induction order_by)
  case Nil
  show ?case by unfold_locales simp_all
next
  case (Cons ob order_by)
  let ?v = "\<lambda>r. eval_or_null (ob_expr ob) r col_names"
  let ?f = "\<lambda>a b. compare_values (?v a) (?v b)"
  have f: "comparator_on ?f S"
    by (rule comparator_cong [OF comparator_key [of "\<lambda>r. sort_rank (?v r)"]])
      (use Cons.prems in \<open>simp add: uniform_keys_def compare_values_rank\<close>)
  have rest: "comparator_on (compare_rows order_by col_names) S"
    using Cons by (simp add: uniform_keys_def)
  show ?case
  proof (cases "ob_asc ob = Some False")
    case True
    show ?thesis
      by (rule comparator_cong [OF comparator_then [OF comparator_reverse [OF f] rest]])
        (simp add: True Let_def)
  next
    case False
    then have "(case ob_asc ob of None \<Rightarrow> True | Some d \<Rightarrow> d)" by (auto split: option.splits)
    then show ?thesis
      by (intro comparator_cong [OF comparator_then [OF f rest]]) (simp add: Let_def)
  qed
qed

text \<open>The order the clause asks for, without the comparison of the code: the first sort expression on which
  two rows differ decides, by the smaller value, or by the larger one for DESC; null is the smallest value.\<close>

definition key_rank :: "order_by_expr \<Rightarrow> string list \<Rightarrow> row \<Rightarrow> nat \<times> int \<times> string" where
  "key_rank ob col_names r = sort_rank (eval_or_null (ob_expr ob) r col_names)"

definition row_before :: "order_by_expr list \<Rightarrow> string list \<Rightarrow> row \<Rightarrow> row \<Rightarrow> bool" where
  "row_before order_by col_names a b \<longleftrightarrow> (\<exists>k < length order_by.
     (\<forall>j < k. key_rank (order_by ! j) col_names a = key_rank (order_by ! j) col_names b)
     \<and> (if ob_asc (order_by ! k) = Some False then key_rank (order_by ! k) col_names b < key_rank (order_by ! k) col_names a
        else key_rank (order_by ! k) col_names a < key_rank (order_by ! k) col_names b))"

definition same_place :: "order_by_expr list \<Rightarrow> string list \<Rightarrow> row \<Rightarrow> row \<Rightarrow> bool" where
  "same_place order_by col_names a b \<longleftrightarrow> (\<forall>ob \<in> set order_by. key_rank ob col_names a = key_rank ob col_names b)"

lemma row_before_Nil [simp]: "\<not> row_before [] col_names a b"
  by (simp add: row_before_def)

lemma row_before_Cons:
  "row_before (ob # order_by) col_names a b \<longleftrightarrow>
     (if ob_asc ob = Some False then key_rank ob col_names b < key_rank ob col_names a
      else key_rank ob col_names a < key_rank ob col_names b)
     \<or> key_rank ob col_names a = key_rank ob col_names b \<and> row_before order_by col_names a b"
proof -
  have split: "(\<exists>k < Suc n. P k) \<longleftrightarrow> P 0 \<or> (\<exists>k < n. P (Suc k))" for n P by (auto simp: less_Suc_eq_0_disj)
  have all: "(\<forall>k < Suc n. P k) \<longleftrightarrow> P 0 \<and> (\<forall>k < n. P (Suc k))" for n P by (auto simp: less_Suc_eq_0_disj)
  show ?thesis by (simp add: row_before_def split all) blast
qed

lemma compare_rows_before:
  assumes "uniform_keys order_by col_names S" "a \<in> S" "b \<in> S"
  shows "compare_rows order_by col_names a b =
    (if row_before order_by col_names a b then Less else if row_before order_by col_names b a then Greater else Equal)
    \<and> (compare_rows order_by col_names a b = Equal \<longleftrightarrow> same_place order_by col_names a b)"
  using assms(1)
proof (induction order_by)
  case Nil
  then show ?case by (simp add: same_place_def)
next
  case (Cons ob order_by)
  have v: "compare_values (eval_or_null (ob_expr ob) a col_names) (eval_or_null (ob_expr ob) b col_names) =
      cmp_of (key_rank ob col_names a) (key_rank ob col_names b)"
    unfolding key_rank_def using Cons.prems assms(2,3) by (intro compare_values_rank) (auto simp: uniform_keys_def)
  have asc: "(case ob_asc ob of None \<Rightarrow> True | Some d \<Rightarrow> d) \<longleftrightarrow> ob_asc ob \<noteq> Some False" by (auto split: option.splits)
  have rest: "uniform_keys order_by col_names S" using Cons.prems by (simp add: uniform_keys_def)
  have IH: "compare_rows order_by col_names a b =
      (if row_before order_by col_names a b then Less else if row_before order_by col_names b a then Greater else Equal)"
    "compare_rows order_by col_names a b = Equal \<longleftrightarrow> same_place order_by col_names a b"
    using Cons.IH [OF rest] by blast+
  consider "key_rank ob col_names a < key_rank ob col_names b" | "key_rank ob col_names b < key_rank ob col_names a"
    | "key_rank ob col_names a = key_rank ob col_names b" by fastforce
  then show ?case
    by cases (use IH in \<open>auto simp: v asc row_before_Cons cmp_of_def same_place_def Let_def split: if_splits\<close>)
qed

text \<open>C32: ORDER BY sorts. When each sort expression gives values of one kind and no NaN on the rows, the
  result is a permutation of them in which no row comes after one the clause puts behind it, where the
  first sort expression on which two rows differ decides, smaller values first or larger ones for DESC, null
  being the smallest, and rows with the same sort values keep their order.\<close>

theorem sort_rows_correct:
  assumes "uniform_keys order_by col_names (set rows)"
  shows "mset (sort_rows rows order_by col_names) = mset rows
    \<and> sorted_wrt (\<lambda>a b. \<not> row_before order_by col_names b a) (sort_rows rows order_by col_names)
    \<and> (\<forall>r. filter (same_place order_by col_names r) (sort_rows rows order_by col_names)
        = filter (same_place order_by col_names r) rows)"
proof -
  note c = compare_rows_comparator [OF assms] and before = compare_rows_before [OF assms]
  let ?cmp = "compare_rows order_by col_names" and ?s = "sort_rows rows order_by col_names"
  have s: "set ?s = set rows" "sorted_wrt (\<lambda>a b. ?cmp a b \<noteq> Greater) ?s"
    "k \<in> set rows \<Longrightarrow> filter (\<lambda>r. ?cmp k r = Equal) ?s = filter (\<lambda>r. ?cmp k r = Equal) rows" for k
  proof -
    have "sorted_wrt (\<lambda>a b. True) rows" by (induction rows) simp_all
    then show "set ?s = set rows" "sorted_wrt (\<lambda>a b. ?cmp a b \<noteq> Greater) ?s"
      "k \<in> set rows \<Longrightarrow> filter (\<lambda>r. ?cmp k r = Equal) ?s = filter (\<lambda>r. ?cmp k r = Equal) rows"
      using comparator_on.sort_by_sorted [OF c] comparator_on.sort_by_stable [OF c] by (auto simp: sort_rows_def)
  qed
  have "\<not> row_before order_by col_names b a" if "a \<in> set rows" "b \<in> set rows" "?cmp a b \<noteq> Greater" for a b
  proof
    assume "row_before order_by col_names b a"
    then have "?cmp b a = Less" using before [OF that(2,1)] by simp
    then show False using comparator_on.cmp_reverse [OF c that(2,1)] that(3) by simp
  qed
  then have sorted: "sorted_wrt (\<lambda>a b. \<not> row_before order_by col_names b a) ?s"
    by (intro sorted_wrt_mono_rel [OF _ s(2)]) (simp add: s(1))
  have stable: "filter (same_place order_by col_names r) ?s = filter (same_place order_by col_names r) rows" for r
  proof (cases "\<exists>k \<in> set rows. same_place order_by col_names r k")
    case True
    then obtain k where k: "k \<in> set rows" "same_place order_by col_names r k" by blast
    have "same_place order_by col_names r x \<longleftrightarrow> ?cmp k x = Equal" if "x \<in> set rows" for x
      unfolding before [OF k(1) that, THEN conjunct2] using k(2) by (simp add: same_place_def)
    then have "filter (same_place order_by col_names r) xs = filter (\<lambda>x. ?cmp k x = Equal) xs" if "set xs = set rows" for xs
      using that by (intro filter_cong) auto
    then show ?thesis using s(1) s(3) [OF k(1)] by metis
  next
    case False
    then show ?thesis using s(1) by (metis filter_False)
  qed
  show ?thesis using sorted stable by (simp add: sort_rows_def)
qed

theorem sort_rows_correct_witness:
  "sort_rows [row_new [Int8 1, Int8 7], row_new [Int8 3, Int8 7], row_new [Int8 1, Int8 8]]
      [\<lparr>ob_expr = Identifier ''a'', ob_asc = Some False\<rparr>] [''a'', ''b''] =
    [row_new [Int8 3, Int8 7], row_new [Int8 1, Int8 7], row_new [Int8 1, Int8 8]]
   \<and> \<not> row_before [\<lparr>ob_expr = Identifier ''a'', ob_asc = Some False\<rparr>] [''a'', ''b''] (row_new [Int8 1, Int8 7]) (row_new [Int8 3, Int8 7])"
proof -
  let ?ob = "[\<lparr>ob_expr = Identifier ''a'', ob_asc = Some False\<rparr>]" and ?names = "[''a'', ''b'']"
  let ?rows = "[row_new [Int8 1, Int8 7], row_new [Int8 3, Int8 7], row_new [Int8 1, Int8 8]]"
  have run: "sort_rows ?rows ?ob ?names = [row_new [Int8 3, Int8 7], row_new [Int8 1, Int8 7], row_new [Int8 1, Int8 8]]"
    by code_simp
  have "uniform_keys ?ob ?names (set ?rows)"
    by (simp add: uniform_keys_def eval_or_null_def eval_expr_def column_value_def get_or_def row_new_def same_kind_def)
  from sort_rows_correct [OF this] run show ?thesis by simp
qed

subsection \<open>Groups\<close>

lemma map_of_add_to_group:
  "map_of (add_to_group k r groups) k' =
     (if k' = k then Some ((case map_of groups k of None \<Rightarrow> [] | Some rs \<Rightarrow> rs) @ [r]) else map_of groups k')"
  by (simp add: add_to_group_def update_conv')

definition rows_of_key :: "expr list \<Rightarrow> string list \<Rightarrow> string \<Rightarrow> row list \<Rightarrow> row list" where
  "rows_of_key group_exprs col_names k rows = filter (\<lambda>r. group_key group_exprs r col_names = Inr k) rows"

lemma group_rows_by_map:
  assumes "group_rows_by group_exprs col_names rows groups0 = Inr groups"
  shows "map_of groups k =
    (case rows_of_key group_exprs col_names k rows of
       [] \<Rightarrow> map_of groups0 k
     | g \<Rightarrow> Some ((case map_of groups0 k of None \<Rightarrow> [] | Some rs \<Rightarrow> rs) @ g))"
  using assms
proof (induction rows arbitrary: groups0)
  case Nil
  then show ?case by (simp add: rows_of_key_def)
next
  case (Cons r rows)
  then obtain key where key: "group_key group_exprs r col_names = Inr key"
    and rest: "group_rows_by group_exprs col_names rows (add_to_group key r groups0) = Inr groups"
    by (auto simp: rbind_eq_Inr)
  show ?case using Cons.IH [OF rest] key
    by (auto simp: map_of_add_to_group rows_of_key_def split: list.splits option.splits)
qed

lemma group_rows_by_distinct:
  "group_rows_by group_exprs col_names rows groups0 = Inr groups \<Longrightarrow> distinct (map fst groups0) \<Longrightarrow>
     distinct (map fst groups)"
  by (induction rows arbitrary: groups0) (auto simp: rbind_eq_Inr add_to_group_def distinct_update)

text \<open>GROUP BY partitions the rows. The groups have distinct keys, none is empty, and the group of a
  key consists of exactly the rows with this key, in their order; grouping fails only when a group
  expression cannot be evaluated on some row.\<close>

theorem group_rows_by_partitions:
  shows "case group_rows_by group_exprs col_names rows [] of
      Inr groups \<Rightarrow> distinct (map fst groups) \<and> (\<forall>k. map_of groups k =
        (if rows_of_key group_exprs col_names k rows = [] then None
         else Some (rows_of_key group_exprs col_names k rows)))
    | Inl e \<Rightarrow> (\<exists>r \<in> set rows. group_key group_exprs r col_names = Inl e)"
proof (cases "group_rows_by group_exprs col_names rows []")
  case (Inl e)
  have "group_rows_by group_exprs col_names rows groups0 = Inl e \<Longrightarrow>
      \<exists>r \<in> set rows. group_key group_exprs r col_names = Inl e" for groups0
    by (induction rows arbitrary: groups0) (auto simp: rbind_eq_Inl)
  with Inl show ?thesis by simp
next
  case (Inr groups)
  then show ?thesis using group_rows_by_map [OF Inr] group_rows_by_distinct [OF Inr]
    by (auto split: list.splits)
qed

end
