(* ===== verification/Wire.thy ===== *)
theory Wire
  imports Query_Util
begin

text \<open>
  The byte level of \<open>moodeng-server/src/protocol.rs\<close>: the stream of a connection, the frames of the
  PostgreSQL protocol, C strings and UTF-8. A stream is what the client sends until it closes and what
  has been written to it; writing succeeds. \<open>Panic\<close> is a Rust panic, which ends the task of the
  connection.
\<close>

named_theorems wire_simps \<open>reading back what was written\<close>

subsection \<open>Text\<close>

definition as_bytes :: "string \<Rightarrow> bytes" where
  "as_bytes s = map (\<lambda>c. word_of_nat (of_char c)) s"

definition text_of :: "bytes \<Rightarrow> string" where
  "text_of bs = map (\<lambda>b. char_of (unat b)) bs"

text \<open>One step of the decoder of the standard library: whether the bytes start with a character, and how
  many of them it, or the invalid sequence, takes.\<close>

definition byte_at :: "bytes \<Rightarrow> nat \<Rightarrow> u8" where
  "byte_at bs i = get_or 0 bs i"

definition is_continuation :: "u8 \<Rightarrow> bool" where
  "is_continuation b \<longleftrightarrow> 128 \<le> b \<and> b < 192"

definition second_of_three :: "u8 \<Rightarrow> u8 \<Rightarrow> bool" where
  "second_of_three a b \<longleftrightarrow>
     (if a = 0xE0 then 0xA0 \<le> b \<and> b \<le> 0xBF else if a = 0xED then 0x80 \<le> b \<and> b \<le> 0x9F else is_continuation b)"

definition second_of_four :: "u8 \<Rightarrow> u8 \<Rightarrow> bool" where
  "second_of_four a b \<longleftrightarrow>
     (if a = 0xF0 then 0x90 \<le> b \<and> b \<le> 0xBF else if a = 0xF4 then 0x80 \<le> b \<and> b \<le> 0x8F else is_continuation b)"

definition utf8_char :: "bytes \<Rightarrow> bool \<times> nat" where
  "utf8_char bs =
     (let a = byte_at bs 0; b = byte_at bs 1; c = byte_at bs 2; d = byte_at bs 3 in
      if a < 128 then (True, 1)
      else if 0xC2 \<le> a \<and> a \<le> 0xDF then (if is_continuation b then (True, 2) else (False, 1))
      else if 0xE0 \<le> a \<and> a \<le> 0xEF
      then (if \<not> second_of_three a b then (False, 1) else if is_continuation c then (True, 3) else (False, 2))
      else if 0xF0 \<le> a \<and> a \<le> 0xF4
      then (if \<not> second_of_four a b then (False, 1)
            else if \<not> is_continuation c then (False, 2)
            else if is_continuation d then (True, 4) else (False, 3))
      else (False, 1))"

lemma utf8_char_pos: "0 < snd (utf8_char bs)"
  by (simp add: utf8_char_def Let_def)

function utf8_valid :: "bytes \<Rightarrow> bool" where
  "utf8_valid bs = (if bs = [] then True else fst (utf8_char bs) \<and> utf8_valid (drop (snd (utf8_char bs)) bs))"
  by pat_completeness auto
termination
  by (relation "measure length") (use utf8_char_pos in auto)

text \<open>The replacement character stands for an invalid sequence.\<close>

definition REPLACEMENT :: bytes where "REPLACEMENT = [0xEF, 0xBF, 0xBD]"

function utf8_lossy :: "bytes \<Rightarrow> bytes" where
  "utf8_lossy bs =
     (if bs = [] then []
      else (if fst (utf8_char bs) then take (snd (utf8_char bs)) bs else REPLACEMENT)
             @ utf8_lossy (drop (snd (utf8_char bs)) bs))"
  by pat_completeness auto
termination
  by (relation "measure length") (use utf8_char_pos in auto)

declare utf8_valid.simps [simp del] utf8_lossy.simps [simp del]

definition from_utf8_lossy :: "bytes \<Rightarrow> string" where
  "from_utf8_lossy bs = text_of (utf8_lossy bs)"

definition from_utf8 :: "bytes \<Rightarrow> string option" where
  "from_utf8 bs = (if utf8_valid bs then Some (text_of bs) else None)"

subsection \<open>The stream\<close>

datatype net_error = UnexpectedEof | Bail string | Panic

record net =
  n_in :: bytes
  n_out :: bytes

definition read_bytes :: "nat \<Rightarrow> (net_error, 'x net_scheme, bytes) op" where
  "read_bytes n s =
     (case read_exact n (n_in s) of
        None \<Rightarrow> (Inl UnexpectedEof, s\<lparr>n_in := []\<rparr>)
      | Some (bs, rest) \<Rightarrow> (Inr bs, s\<lparr>n_in := rest\<rparr>))"

definition read_u8 :: "(net_error, 'x net_scheme, u8) op" where
  "read_u8 = sbind (read_bytes 1) (\<lambda>bs. sret (hd bs))"

definition read_i32 :: "(net_error, 'x net_scheme, u32) op" where
  "read_i32 = sbind (read_bytes 4) (\<lambda>bs. sret (from_be_bytes bs))"

definition write_all :: "bytes \<Rightarrow> (net_error, 'x net_scheme, unit) op" where
  "write_all bs = smodify (\<lambda>s. s\<lparr>n_out := n_out s @ bs\<rparr>)"

text \<open>\<open>vec![0u8; len.saturating_sub(4)]\<close> for a length read as \<open>i32\<close>: a negative length is a size no
  vector can have, and asking for it panics.\<close>

definition body_size :: "u32 \<Rightarrow> nat option" where
  "body_size len = (if sint len < 0 then None else Some (unat len - 4))"

definition read_body :: "(net_error, 'x net_scheme, bytes) op" where
  "read_body = sbind read_i32 (\<lambda>len. case body_size len of None \<Rightarrow> sfail Panic | Some n \<Rightarrow> read_bytes n)"

subsection \<open>Frames\<close>

definition frame :: "char \<Rightarrow> bytes \<Rightarrow> bytes" where
  "frame tag body = as_bytes [tag] @ be_bytes 4 (word_of_nat (length body + 4) :: u32) @ body"

definition send_message :: "char \<Rightarrow> bytes \<Rightarrow> (net_error, 'x net_scheme, unit) op" where
  "send_message tag body = write_all (frame tag body)"

definition cstring :: "string \<Rightarrow> bytes" where
  "cstring s = as_bytes s @ [0]"

definition read_cstring_buf :: "bytes \<Rightarrow> string \<times> bytes" where
  "read_cstring_buf cur =
     (case position (\<lambda>b. b = 0) cur of
        Some end_ \<Rightarrow> (from_utf8_lossy (take end_ cur), drop (end_ + 1) cur)
      | None \<Rightarrow> ([], cur))"

definition read_cstring :: "bytes \<Rightarrow> string" where
  "read_cstring payload = fst (read_cstring_buf payload)"

definition send_error :: "string \<Rightarrow> (net_error, 'x net_scheme, unit) op" where
  "send_error msg = send_message CHR ''E'' (as_bytes ''M'' @ as_bytes msg @ [0, 0])"

definition send_error_plain :: "string \<Rightarrow> (net_error, 'x net_scheme, unit) op" where
  "send_error_plain msg = send_message CHR ''E'' (as_bytes ''M'' @ as_bytes msg @ [0, 0])"

subsection \<open>Results\<close>

definition command_tag :: "query_result \<Rightarrow> string" where
  "command_tag result =
     (case qr_message result of Some m \<Rightarrow> m | None \<Rightarrow> show_nat (unat (qr_rows_affected result)) @ '' 0'')"

definition column_field :: "string \<Rightarrow> bytes" where
  "column_field col = cstring col @ be_bytes 4 (0 :: u32) @ be_bytes 2 (0 :: u16) @ be_bytes 4 (-1 :: u32) @ be_bytes 2 (0 :: u16)"

definition row_description :: "string list \<Rightarrow> bytes" where
  "row_description cols = be_bytes 2 (word_of_nat (length cols) :: u16) @ concat (map column_field cols)"

definition value_field :: "db_value \<Rightarrow> bytes" where
  "value_field val =
     (if is_null val then be_bytes 4 (-1 :: u32)
      else let s = to_display_string val in be_bytes 4 (word_of_nat (length s) :: u32) @ as_bytes s)"

definition data_row :: "row \<Rightarrow> bytes" where
  "data_row r = be_bytes 2 (word_of_nat (length (row_values r)) :: u16) @ concat (map value_field (row_values r))"

definition send_query_result :: "query_result \<Rightarrow> (net_error, 'x net_scheme, unit) op" where
  "send_query_result result =
     (if qr_rows result = [] then send_message CHR ''C'' (cstring (command_tag result))
      else sbind (send_message CHR ''T'' (row_description (qr_columns result))) (\<lambda>_.
           sbind (sfold (\<lambda>r _. send_message CHR ''D'' (data_row r)) (qr_rows result) ()) (\<lambda>_.
             send_message CHR ''C'' (cstring (''SELECT '' @ show_nat (length (qr_rows result)))))))"

subsection \<open>Text and bytes\<close>

lemma as_bytes_simps [simp, wire_simps]:
  "as_bytes [] = []" "as_bytes (c # s) = word_of_nat (of_char c) # as_bytes s" "as_bytes (s @ t) = as_bytes s @ as_bytes t"
  "length (as_bytes s) = length s" "as_bytes s = [] \<longleftrightarrow> s = []"
  by (simp_all add: as_bytes_def)

lemma text_of_simps [simp, wire_simps]:
  "text_of [] = []" "text_of (b # bs) = char_of (unat b) # text_of bs" "text_of (bs @ cs) = text_of bs @ text_of cs"
  "length (text_of bs) = length bs"
  by (simp_all add: text_of_def)

lemma text_of_as_bytes [simp, wire_simps]: "text_of (as_bytes s) = s"
  by (induction s) (simp_all add: unsigned_of_nat take_bit_eq_mod)

lemma as_bytes_text_of [simp]: "as_bytes (text_of bs) = bs"
proof (induction bs)
  case (Cons b bs)
  have "unat b < 2 ^ LENGTH(8)" by (rule unsigned_less)
  then have "unat b mod 256 = unat b" by simp
  then show ?case using Cons by simp
qed simp

lemma utf8_valid_lossy: "utf8_valid bs \<Longrightarrow> utf8_lossy bs = bs"
proof (induction bs rule: utf8_lossy.induct)
  case (1 bs)
  then show ?case
    by (subst utf8_lossy.simps, cases "bs = []") (simp_all add: utf8_valid.simps [of bs])
qed

lemma utf8_ascii: "(\<And>b. b \<in> set bs \<Longrightarrow> b < 128) \<Longrightarrow> utf8_valid bs"
proof (induction bs)
  case (Cons b bs)
  then have "utf8_char (b # bs) = (True, 1)" by (simp add: utf8_char_def byte_at_def get_or_def)
  then show ?case using Cons by (simp add: utf8_valid.simps [of "b # bs"])
qed (simp add: utf8_valid.simps)

text \<open>What Rust's \<open>String\<close> guarantees, and what a C string can carry besides.\<close>

definition is_text :: "string \<Rightarrow> bool" where
  "is_text s \<longleftrightarrow> utf8_valid (as_bytes s)"

definition no_nul :: "string \<Rightarrow> bool" where
  "no_nul s \<longleftrightarrow> CHR 0x00 \<notin> set s"

lemma is_text_ascii: "\<forall>c \<in> set s. of_char c < (128 :: nat) \<Longrightarrow> is_text s"
  unfolding is_text_def by (rule utf8_ascii) (auto simp: as_bytes_def word_less_nat_alt unsigned_of_nat take_bit_eq_mod)

lemma from_utf8_lossy_text [wire_simps]: "is_text s \<Longrightarrow> from_utf8_lossy (as_bytes s) = s"
  by (simp add: is_text_def from_utf8_lossy_def utf8_valid_lossy)

lemma from_utf8_text [wire_simps]: "is_text s \<Longrightarrow> from_utf8 (as_bytes s) = Some s"
  by (simp add: is_text_def from_utf8_def)

lemma nul_byte: "0 \<in> set (as_bytes s) \<longleftrightarrow> CHR 0x00 \<in> set s"
proof -
  have inverse: "char_of (unat (word_of_nat (of_char c) :: u8)) = c" for c
    using text_of_as_bytes [of "[c]"] by simp
  have zero: "(0 = (word_of_nat (of_char c) :: u8)) = (c = CHR 0x00)" for c
    using inverse [of c] by (auto simp: char_of_def)
  have "0 \<in> set (as_bytes s) \<longleftrightarrow> (\<exists>c \<in> set s. 0 = (word_of_nat (of_char c) :: u8))"
    unfolding as_bytes_def set_map image_iff ..
  then show ?thesis unfolding zero by blast
qed

lemma position_append_miss: "(\<And>x. x \<in> set xs \<Longrightarrow> \<not> P x) \<Longrightarrow> P y \<Longrightarrow> position P (xs @ y # ys) = Some (length xs)"
  by (induction xs) auto

lemma read_cstring_cstring [simp, wire_simps]:
  assumes "is_text s" "no_nul s"
  shows "read_cstring_buf (cstring s @ rest) = (s, rest)"
proof -
  have "position (\<lambda>b. b = 0) (as_bytes s @ 0 # rest) = Some (length (as_bytes s))"
    by (rule position_append_miss) (use assms(2) nul_byte [of s] in \<open>auto simp: no_nul_def\<close>)
  then show ?thesis using assms(1) by (simp add: read_cstring_buf_def cstring_def from_utf8_lossy_text)
qed

subsection \<open>Reading back\<close>

text \<open>The contract between the writer and the reader of a connection: what a sender puts in front of a
  stream, a receiver takes off it, leaving the rest of the stream and the rest of its state.\<close>

locale channel =
  fixes put :: "'m \<Rightarrow> bytes" and get :: "(net_error, 'x net_scheme, 'm) op" and fits :: "'m \<Rightarrow> bool"
  assumes get_put: "fits m \<Longrightarrow> n_in s = put m @ rest \<Longrightarrow> get s = (Inr m, s\<lparr>n_in := rest\<rparr>)"
begin

lemma get_then: "fits m \<Longrightarrow> n_in s = put m @ rest \<Longrightarrow> sbind get f s = f m (s\<lparr>n_in := rest\<rparr>)"
  by (simp add: sbind_Inr [OF get_put])

text \<open>So a sequence of messages is read in the order in which it was sent.\<close>

lemma get_all:
  assumes "\<forall>m \<in> set ms. fits m" "n_in s = concat (map put ms) @ rest"
  shows "sfold (\<lambda>_ acc. sbind get (\<lambda>m. sret (acc @ [m]))) ms acc s = (Inr (acc @ ms), s\<lparr>n_in := rest\<rparr>)"
  using assms
proof (induction ms arbitrary: acc s)
  case Nil
  then show ?case by (simp flip: Nil.prems(2))
next
  case (Cons m ms)
  have "sbind get (\<lambda>m. sret (acc @ [m])) s = (Inr (acc @ [m]), s\<lparr>n_in := concat (map put ms) @ rest\<rparr>)"
    using Cons.prems by (subst get_then [of m]) simp_all
  then have "sfold (\<lambda>_ acc. sbind get (\<lambda>m. sret (acc @ [m]))) (m # ms) acc s =
      sfold (\<lambda>_ acc. sbind get (\<lambda>m. sret (acc @ [m]))) ms (acc @ [m]) (s\<lparr>n_in := concat (map put ms) @ rest\<rparr>)"
    by (simp only: sfold.simps sbind_Inr)
  also have "\<dots> = (Inr (acc @ m # ms), s\<lparr>n_in := rest\<rparr>)"
    by (subst Cons.IH) (use Cons.prems in simp_all)
  finally show ?case .
qed

end

lemma read_bytes_append:
  "length bs = n \<Longrightarrow> n_in s = bs @ rest \<Longrightarrow> read_bytes n s = (Inr bs, s\<lparr>n_in := rest\<rparr>)"
  by (simp add: read_bytes_def)

definition small_body :: "bytes \<Rightarrow> bool" where
  "small_body body \<longleftrightarrow> length body + 4 < 2 ^ 31"

lemma small_i32: "n < 2 ^ 31 \<Longrightarrow> sint (word_of_nat n :: u32) = int n" "n < 2 ^ 31 \<Longrightarrow> unat (word_of_nat n :: u32) = n"
proof -
  assume n: "n < 2 ^ 31"
  have "sint (word_of_nat n :: u32) = signed_take_bit 31 (int n)" unfolding signed_of_nat by simp
  also have "\<dots> = int n" using n by (intro signed_take_bit_int_eq_self) simp_all
  finally show "sint (word_of_nat n :: u32) = int n" .
  show "unat (word_of_nat n :: u32) = n" unfolding unsigned_of_nat using n by (simp add: take_bit_eq_mod)
qed

lemma small_i16: "n < 2 ^ 15 \<Longrightarrow> sint (word_of_nat n :: u16) = int n"
proof -
  assume n: "n < 2 ^ 15"
  have "sint (word_of_nat n :: u16) = signed_take_bit 15 (int n)" unfolding signed_of_nat by simp
  also have "\<dots> = int n" using n by (intro signed_take_bit_int_eq_self) simp_all
  finally show ?thesis .
qed

lemma body_size_small: "small_body body \<Longrightarrow> body_size (word_of_nat (length body + 4)) = Some (length body)"
  using small_i32 [of "length body + 4"] by (simp add: small_body_def body_size_def del: of_nat_add)

interpretation i32_channel: channel "be_bytes 4 :: u32 \<Rightarrow> bytes" read_i32 "\<lambda>_. True"
  by unfold_locales (simp add: read_i32_def sbind_def read_bytes_def)

interpretation body_channel: channel "\<lambda>body. be_bytes 4 (word_of_nat (length body + 4) :: u32) @ body" read_body small_body
proof
  fix m rest and s :: "'x net_scheme"
  assume m: "small_body m" and s: "n_in s = (be_bytes 4 (word_of_nat (length m + 4) :: u32) @ m) @ rest"
  have "read_body s = (case body_size (word_of_nat (length m + 4)) of None \<Rightarrow> sfail Panic | Some n \<Rightarrow> read_bytes n)
      (s\<lparr>n_in := m @ rest\<rparr>)"
    unfolding read_body_def using s by (subst i32_channel.get_then) (simp_all del: of_nat_add)
  then show "read_body s = (Inr m, s\<lparr>n_in := rest\<rparr>)"
    by (simp add: body_size_small [OF m] read_bytes_append [of m] del: of_nat_add)
qed

lemma read_u8_Cons [wire_simps]: "n_in s = b # rest \<Longrightarrow> read_u8 s = (Inr b, s\<lparr>n_in := rest\<rparr>)"
  by (simp add: read_u8_def sbind_def read_bytes_def read_exact_def)

text \<open>A whole frame: the tag, and the body under its length.\<close>

definition read_frame :: "(net_error, 'x net_scheme, u8 \<times> bytes) op" where
  "read_frame = sbind read_u8 (\<lambda>t. sbind read_body (\<lambda>body. sret (t, body)))"

interpretation frame_channel: channel "\<lambda>(t, body). t # be_bytes 4 (word_of_nat (length body + 4) :: u32) @ body"
  read_frame "\<lambda>(_, body). small_body body"
proof (unfold_locales, clarify)
  fix t body rest and s :: "'x net_scheme"
  assume m: "small_body body" and s: "n_in s = (t # be_bytes 4 (word_of_nat (length body + 4) :: u32) @ body) @ rest"
  show "read_frame s = (Inr (t, body), s\<lparr>n_in := rest\<rparr>)"
    unfolding read_frame_def using s m
    by (subst sbind_Inr [OF read_u8_Cons]) (auto simp: sbind_Inr [OF body_channel.get_put])
qed

lemma frame_split: "frame tag body = word_of_nat (of_char tag) # be_bytes 4 (word_of_nat (length body + 4) :: u32) @ body"
  by (simp add: frame_def)

subsection \<open>What is sent\<close>

text \<open>Every sender appends to the output and does nothing else.\<close>

definition emit :: "bytes \<Rightarrow> 'x net_scheme \<Rightarrow> 'x net_scheme" where
  "emit bs s = s\<lparr>n_out := n_out s @ bs\<rparr>"

lemma emit_simps [simp]:
  "emit bs (emit as s) = emit (as @ bs) s" "n_in (emit bs s) = n_in s" "n_out (emit bs s) = n_out s @ bs"
  by (simp_all add: emit_def)

lemma send_message_eq [simp, wire_simps]: "send_message tag body s = (Inr (), emit (frame tag body) s)"
  by (simp add: send_message_def write_all_def emit_def)

definition error_frame :: "string \<Rightarrow> bytes" where
  "error_frame msg = frame CHR ''E'' (as_bytes ''M'' @ as_bytes msg @ [0, 0])"

lemma send_error_eq [simp, wire_simps]:
  "send_error msg s = (Inr (), emit (error_frame msg) s)" "send_error_plain msg s = (Inr (), emit (error_frame msg) s)"
  by (simp_all add: send_error_def send_error_plain_def error_frame_def)

definition result_frames :: "query_result \<Rightarrow> bytes" where
  "result_frames r =
     (if qr_rows r = [] then frame CHR ''C'' (cstring (command_tag r))
      else frame CHR ''T'' (row_description (qr_columns r)) @ concat (map (\<lambda>row. frame CHR ''D'' (data_row row)) (qr_rows r))
        @ frame CHR ''C'' (cstring (''SELECT '' @ show_nat (length (qr_rows r)))))"

lemma send_rows_eq:
  "sfold (\<lambda>r _. send_message t (f r)) rs () s = (Inr (), emit (concat (map (\<lambda>r. frame t (f r)) rs)) s)"
proof (induction rs arbitrary: s)
  case Nil
  then show ?case by (simp add: emit_def)
next
  case (Cons r rs)
  have "sfold (\<lambda>r _. send_message t (f r)) (r # rs) () s = sfold (\<lambda>r _. send_message t (f r)) rs () (emit (frame t (f r)) s)"
    by (simp only: sfold.simps sbind_def send_message_eq split_conv sum.case)
  then show ?case by (simp only: Cons.IH emit_simps list.map concat.simps)
qed

lemma send_query_result_eq [simp, wire_simps]: "send_query_result r s = (Inr (), emit (result_frames r) s)"
  unfolding send_query_result_def result_frames_def
  by (simp only: sbind_def send_message_eq send_rows_eq split_conv sum.case emit_simps append_assoc split: if_split) simp

text \<open>Computations that leave the unread input alone.\<close>

definition leaves_input :: "(net_error, 'x net_scheme, 'a) op \<Rightarrow> bool" where
  "leaves_input m \<longleftrightarrow> (\<forall>s. n_in (snd (m s)) = n_in s)"

lemma leaves_inputD: "leaves_input m \<Longrightarrow> m s = (r, t) \<Longrightarrow> n_in t = n_in s"
  by (metis leaves_input_def snd_conv)

lemma leaves_input_basic [simp]: "leaves_input (sret x)" "leaves_input (sfail e)"
  by (simp_all add: leaves_input_def)

lemma leaves_input_sbind: "leaves_input m \<Longrightarrow> (\<And>x. leaves_input (f x)) \<Longrightarrow> leaves_input (sbind m f)"
  by (simp add: leaves_input_def sbind_def split: prod.split sum.split) (metis snd_conv)

end
