(* ===== verification/Scram.thy ===== *)
theory Scram
  imports Wire
begin

text \<open>
  \<open>moodeng-server/src/scram.rs\<close>: SCRAM-SHA-256 credentials and the server's side of the exchange. The
  hash, the keyed hash and base64 are other crates: fields of \<open>crypto\<close>. What the system's random
  generator returned is an argument. An \<open>anyhow\<close> error is its text.
\<close>

record crypto =
  cr_hmac :: "bytes \<Rightarrow> bytes \<Rightarrow> bytes"
  cr_sha256 :: "bytes \<Rightarrow> bytes"
  cr_encode :: "bytes \<Rightarrow> string"
  cr_decode :: "string \<Rightarrow> string + bytes"

definition SCRAM_SHA256 :: string where "SCRAM_SHA256 = ''SCRAM-SHA-256''"
definition DEFAULT_ITERATIONS :: u32 where "DEFAULT_ITERATIONS = 4096"

record scram_credentials =
  sc_iterations :: u32
  sc_salt :: bytes
  sc_stored_key :: bytes
  sc_server_key :: bytes

record scram_session =
  ss_creds :: scram_credentials
  ss_client_first_bare :: string
  ss_server_first :: string
  ss_client_nonce :: string

subsection \<open>Strings\<close>

definition strip_prefix :: "string \<Rightarrow> string \<Rightarrow> string option" where
  "strip_prefix p s = (if starts_with p s then Some (drop (length p) s) else None)"

definition split_once :: "char \<Rightarrow> string \<Rightarrow> (string \<times> string) option" where
  "split_once c s =
     (case position (\<lambda>d. d = c) s of None \<Rightarrow> None | Some i \<Rightarrow> Some (take i s, drop (i + 1) s))"

fun split_char :: "char \<Rightarrow> string \<Rightarrow> string list" where
  "split_char c [] = [[]]"
| "split_char c (d # s) =
     (if d = c then [] # split_char c s
      else case split_char c s of [] \<Rightarrow> [[d]] | part # parts \<Rightarrow> (d # part) # parts)"

text \<open>The first part of \<open>str::split\<close> by a pattern.\<close>

fun split_first :: "string \<Rightarrow> string \<Rightarrow> string" where
  "split_first pat [] = []"
| "split_first pat (d # s) = (if starts_with pat (d # s) then [] else d # split_first pat s)"

definition parse_u32 :: "string \<Rightarrow> string + u32" where
  "parse_u32 s =
     (case parse_usize s of
        None \<Rightarrow> Inl ''invalid digit found in string''
      | Some n \<Rightarrow> if unat n < 2 ^ 32 then Inr (ucast n) else Inl ''number too large to fit in target type'')"

subsection \<open>Keys\<close>

definition xor_bytes :: "bytes \<Rightarrow> bytes \<Rightarrow> bytes" where
  "xor_bytes a b = map (\<lambda>(x, y). x XOR y) (zip a b)"

definition hmac_sha256_bytes :: "crypto \<Rightarrow> bytes \<Rightarrow> bytes \<Rightarrow> bytes" where
  "hmac_sha256_bytes K key data = cr_hmac K key data"

definition hmac_sha256 :: "crypto \<Rightarrow> bytes \<Rightarrow> string \<Rightarrow> bytes" where
  "hmac_sha256 K key data = hmac_sha256_bytes K key (as_bytes data)"

definition sha256 :: "crypto \<Rightarrow> bytes \<Rightarrow> bytes" where
  "sha256 K data = cr_sha256 K data"

fun hi_loop :: "crypto \<Rightarrow> string \<Rightarrow> nat \<Rightarrow> bytes \<Rightarrow> bytes \<Rightarrow> bytes" where
  "hi_loop K password 0 ui result = result"
| "hi_loop K password (Suc n) ui result =
     (let ui = hmac_sha256_bytes K ui (as_bytes password) in hi_loop K password n ui (xor_bytes result ui))"

definition hi :: "crypto \<Rightarrow> string \<Rightarrow> bytes \<Rightarrow> u32 \<Rightarrow> bytes" where
  "hi K password salt iterations =
     (let ui = hmac_sha256_bytes K salt (as_bytes password) in hi_loop K password (unat iterations - 1) ui ui)"

subsection \<open>Credentials\<close>

definition from_password_with_salt :: "crypto \<Rightarrow> string \<Rightarrow> bytes \<Rightarrow> u32 \<Rightarrow> scram_credentials" where
  "from_password_with_salt K password salt iterations =
     (let salted_password = hi K password salt iterations;
          client_key = hmac_sha256 K salted_password ''Client Key'';
          stored_key = sha256 K client_key;
          server_key = hmac_sha256 K salted_password ''Server Key''
      in \<lparr>sc_iterations = iterations, sc_salt = salt, sc_stored_key = stored_key, sc_server_key = server_key\<rparr>)"

definition from_password :: "crypto \<Rightarrow> bytes \<Rightarrow> string \<Rightarrow> scram_credentials" where
  "from_password K salt password = from_password_with_salt K password salt DEFAULT_ITERATIONS"

definition decode_32 :: "crypto \<Rightarrow> string \<Rightarrow> string + bytes" where
  "decode_32 K v = rbind (cr_decode K v) (\<lambda>bs. if length bs \<noteq> 32 then Inl ''expected 32-byte SCRAM key'' else Inr bs)"

definition ok_or :: "'e \<Rightarrow> 'a option \<Rightarrow> 'e + 'a" where
  "ok_or e x = (case x of None \<Rightarrow> Inl e | Some v \<Rightarrow> Inr v)"

definition scram_parse :: "crypto \<Rightarrow> string \<Rightarrow> string + scram_credentials" where
  "scram_parse K raw =
     rbind (ok_or ''invalid SCRAM credential prefix'' (strip_prefix ''SCRAM-SHA-256$'' raw)) (\<lambda>rest.
     rbind (ok_or ''invalid SCRAM credential format'' (split_once CHR ''$'' rest)) (\<lambda>(params, keys).
     rbind (ok_or ''invalid SCRAM params'' (split_once CHR '':'' params)) (\<lambda>(iterations, salt_b64).
     rbind (ok_or ''invalid SCRAM keys'' (split_once CHR '':'' keys)) (\<lambda>(stored_b64, server_b64).
     rbind (parse_u32 iterations) (\<lambda>iterations.
     rbind (cr_decode K salt_b64) (\<lambda>salt.
     rbind (decode_32 K stored_b64) (\<lambda>stored_key.
     rbind (decode_32 K server_b64) (\<lambda>server_key.
       Inr \<lparr>sc_iterations = iterations, sc_salt = salt, sc_stored_key = stored_key, sc_server_key = server_key\<rparr>))))))))"

definition to_secret_string :: "crypto \<Rightarrow> scram_credentials \<Rightarrow> string" where
  "to_secret_string K c =
     ''SCRAM-SHA-256$'' @ show_nat (unat (sc_iterations c)) @ '':'' @ cr_encode K (sc_salt c) @ ''$''
       @ cr_encode K (sc_stored_key c) @ '':'' @ cr_encode K (sc_server_key c)"

definition generate_scram_secret :: "crypto \<Rightarrow> bytes \<Rightarrow> string \<Rightarrow> string" where
  "generate_scram_secret K salt password = to_secret_string K (from_password K salt password)"

subsection \<open>The exchange\<close>

definition strip_gs2_header :: "string \<Rightarrow> string + string" where
  "strip_gs2_header client_first =
     (case strip_prefix ''n,,'' client_first of
        Some rest \<Rightarrow> Inr rest
      | None \<Rightarrow> (case strip_prefix ''y,,'' client_first of
                   Some rest \<Rightarrow> Inr rest
                 | None \<Rightarrow> Inl ''unsupported SCRAM gs2 header''))"

fun insert_attrs :: "string list \<Rightarrow> (string \<times> string) list \<Rightarrow> string + (string \<times> string) list" where
  "insert_attrs [] out = Inr out"
| "insert_attrs (part # parts) out =
     rbind (ok_or (''invalid SCRAM attribute: '' @ part) (split_once CHR ''='' part)) (\<lambda>(key, v).
       insert_attrs parts (AList.update key v out))"

definition parse_attrs :: "string \<Rightarrow> string + (string \<times> string) list" where
  "parse_attrs input = insert_attrs (split_char CHR '','' input) []"

definition scram_start :: "crypto \<Rightarrow> bytes \<Rightarrow> scram_credentials \<Rightarrow> string \<Rightarrow> string + (scram_session \<times> string)" where
  "scram_start K server_nonce_bytes creds client_first =
     rbind (strip_gs2_header client_first) (\<lambda>client_first_bare.
     rbind (parse_attrs client_first_bare) (\<lambda>attrs.
     rbind (ok_or ''SCRAM client-first missing nonce'' (map_of attrs ''r'')) (\<lambda>client_nonce.
     if client_nonce = [] then Inl ''SCRAM client nonce must not be empty''
     else let server_nonce = cr_encode K server_nonce_bytes;
              combined_nonce = client_nonce @ server_nonce;
              server_first = ''r='' @ combined_nonce @ '',s='' @ cr_encode K (sc_salt creds) @ '',i=''
                @ show_nat (unat (sc_iterations creds))
          in Inr (\<lparr>ss_creds = creds, ss_client_first_bare = client_first_bare, ss_server_first = server_first,
                   ss_client_nonce = client_nonce\<rparr>, server_first))))"

definition auth_message :: "scram_session \<Rightarrow> string \<Rightarrow> string" where
  "auth_message S client_final =
     ss_client_first_bare S @ '','' @ ss_server_first S @ '','' @ split_first '',p='' client_final"

definition scram_finish :: "crypto \<Rightarrow> scram_session \<Rightarrow> string \<Rightarrow> string + string" where
  "scram_finish K S client_final =
     rbind (parse_attrs client_final) (\<lambda>attrs.
     rbind (ok_or ''SCRAM client-final missing channel binding'' (map_of attrs ''c'')) (\<lambda>channel_binding.
     if channel_binding \<noteq> ''biws'' \<and> channel_binding \<noteq> ''eSws''
     then Inl (''unsupported SCRAM channel binding: '' @ channel_binding)
     else rbind (ok_or ''SCRAM client-final missing nonce'' (map_of attrs ''r'')) (\<lambda>combined_nonce.
     if \<not> starts_with (ss_client_nonce S) combined_nonce then Inl ''SCRAM nonce mismatch''
     else rbind (ok_or ''SCRAM client-final missing proof'' (map_of attrs ''p'')) (\<lambda>proof_b64.
     rbind (cr_decode K proof_b64) (\<lambda>client_proof.
     let stored_key = sc_stored_key (ss_creds S);
         client_signature = hmac_sha256 K stored_key (auth_message S client_final);
         client_key = xor_bytes client_proof client_signature
     in if sha256 K client_key \<noteq> stored_key then Inl ''SCRAM proof verification failed''
        else let server_signature = hmac_sha256 K (sc_server_key (ss_creds S)) (auth_message S client_final)
             in Inr (''v='' @ cr_encode K server_signature))))))"

text \<open>The client of the tests: its last message for a password.\<close>

definition client_key_of :: "crypto \<Rightarrow> string \<Rightarrow> bytes \<Rightarrow> u32 \<Rightarrow> bytes" where
  "client_key_of K password salt iterations = hmac_sha256 K (hi K password salt iterations) ''Client Key''"

definition build_client_final :: "crypto \<Rightarrow> string \<Rightarrow> string \<Rightarrow> string \<Rightarrow> string + string" where
  "build_client_final K password client_first server_first =
     rbind (strip_gs2_header client_first) (\<lambda>bare.
     rbind (parse_attrs server_first) (\<lambda>server_attrs.
     rbind (ok_or ''s'' (map_of server_attrs ''s'')) (\<lambda>s. rbind (cr_decode K s) (\<lambda>salt.
     rbind (ok_or ''i'' (map_of server_attrs ''i'')) (\<lambda>i. rbind (parse_u32 i) (\<lambda>iterations.
     rbind (ok_or ''r'' (map_of server_attrs ''r'')) (\<lambda>combined_nonce.
     let client_key = client_key_of K password salt iterations;
         stored_key = sha256 K client_key;
         without_proof = ''c=biws,r='' @ combined_nonce;
         message = bare @ '','' @ server_first @ '','' @ without_proof;
         client_signature = hmac_sha256 K stored_key message;
         proof = xor_bytes client_key client_signature
     in Inr (without_proof @ '',p='' @ cr_encode K proof))))))))"

subsection \<open>What the crates promise\<close>

definition base64_char :: "char \<Rightarrow> bool" where
  "base64_char c \<longleftrightarrow> is_digit c \<or> CHR ''A'' \<le> c \<and> c \<le> CHR ''Z'' \<or> CHR ''a'' \<le> c \<and> c \<le> CHR ''z''
     \<or> c = CHR ''+'' \<or> c = CHR ''/'' \<or> c = CHR ''=''"

definition crypto_ok :: "crypto \<Rightarrow> bool" where
  "crypto_ok K \<longleftrightarrow> (\<forall>key data. length (cr_hmac K key data) = 32) \<and> (\<forall>data. length (cr_sha256 K data) = 32)
     \<and> (\<forall>bs. cr_decode K (cr_encode K bs) = Inr bs) \<and> (\<forall>bs. list_all base64_char (cr_encode K bs))"

subsection \<open>Splitting\<close>

lemma starts_with_append [simp]: "starts_with p (p @ s)"
  by (simp add: starts_with_def)

lemma split_once_append [simp]: "c \<notin> set a \<Longrightarrow> split_once c (a @ c # b) = Some (a, b)"
proof -
  assume c: "c \<notin> set a"
  then have "position (\<lambda>d. d = c) (a @ c # b) = Some (length a)" by (intro position_append_miss) auto
  then show ?thesis by (simp add: split_once_def)
qed

lemma split_once_SomeD: "split_once c s = Some (a, b) \<Longrightarrow> s = a @ c # b"
  by (auto simp: split_once_def id_take_nth_drop dest!: position_SomeD split: option.splits)

lemma split_char_not_Nil [simp]: "split_char c s \<noteq> []"
  by (induction s) (auto split: list.splits)

lemma split_char_parts: "part \<in> set (split_char c s) \<Longrightarrow> c \<notin> set part"
  by (induction s arbitrary: part) (fastforce split: if_splits list.splits)+

lemma split_char_single [simp]: "c \<notin> set a \<Longrightarrow> split_char c a = [a]"
  by (induction a) auto

lemma split_char_append [simp]: "c \<notin> set a \<Longrightarrow> split_char c (a @ c # s) = a # split_char c s"
  by (induction a) auto

text \<open>So an attribute never holds a comma.\<close>

lemma insert_attrs_values:
  assumes "insert_attrs parts out = Inr attrs" "\<forall>part \<in> set parts. c \<notin> set part"
    "\<And>k w. map_of out k = Some w \<Longrightarrow> c \<notin> set w" "map_of attrs key = Some v"
  shows "c \<notin> set v"
  using assms
proof (induction parts arbitrary: out)
  case Nil
  then show ?case by simp
next
  case (Cons part parts)
  obtain k w where kw: "split_once CHR ''='' part = Some (k, w)" "insert_attrs parts (AList.update k w out) = Inr attrs"
    using Cons.prems(1) by (auto simp: rbind_eq_Inr ok_or_def split: option.splits)
  have "c \<notin> set w" using split_once_SomeD [OF kw(1)] Cons.prems(2) by simp
  then have "c \<notin> set w'" if "map_of (AList.update k w out) k' = Some w'" for k' w'
    using that Cons.prems(3) [of k' w'] by (simp add: update_conv' split: if_splits)
  then show ?case using Cons.IH [OF kw(2)] Cons.prems(2,4) by simp
qed

lemma parse_attrs_no_comma: "parse_attrs input = Inr attrs \<Longrightarrow> map_of attrs key = Some v \<Longrightarrow> CHR '','' \<notin> set v"
  unfolding parse_attrs_def by (erule insert_attrs_values) (use split_char_parts in auto)

lemma split_first_skip: "CHR '','' \<notin> set a \<Longrightarrow> split_first (CHR '','' # p) (a @ s) = a @ split_first (CHR '','' # p) s"
  by (induction a) (auto simp: starts_with_def)

lemma starts_with_Cons [simp]: "starts_with (c # p) (d # s) \<longleftrightarrow> c = d \<and> starts_with p s" "starts_with [] s"
  by (auto simp: starts_with_def)

lemma strip_prefix_append [simp]: "strip_prefix p (p @ s) = Some s"
  by (simp add: strip_prefix_def)

lemma xor_bytes_cancel: "length a = length b \<Longrightarrow> xor_bytes (xor_bytes a b) b = a"
proof (induction a b rule: list_induct2)
  case (Cons x xs y ys)
  then show ?case by (simp add: xor_bytes_def xor.assoc)
qed (simp add: xor_bytes_def)

lemma length_xor_bytes [simp]: "length (xor_bytes a b) = min (length a) (length b)"
  by (simp add: xor_bytes_def)

lemma parse_u32_show: "parse_u32 (show_nat (unat n)) = Inr (n :: u32)"
proof -
  have small: "unat n < 2 ^ LENGTH(32)" by (rule unsigned_less)
  then have n: "unat (ucast n :: u64) = unat n" by (simp add: unsigned_ucast_eq take_bit_eq_mod)
  then have "parse_usize (show_nat (unat n)) = Some (ucast n)"
    using parse_usize_show_nat [of "ucast n :: u64"] by simp
  moreover have "ucast (ucast n :: u64) = n" by (rule bit_word_eqI) (simp add: bit_simps)
  ultimately show ?thesis using small n by (simp add: parse_u32_def)
qed

lemma crypto_okD [simp]:
  assumes "crypto_ok K"
  shows "length (hmac_sha256 K key data) = 32" "length (sha256 K bs) = 32" "cr_decode K (cr_encode K bs) = Inr bs"
    "length (hmac_sha256_bytes K key bs) = 32"
  using assms by (simp_all add: crypto_ok_def hmac_sha256_def hmac_sha256_bytes_def sha256_def)

lemma encode_avoids [simp]:
  assumes "crypto_ok K"
  shows "CHR '','' \<notin> set (cr_encode K bs)" "CHR '':'' \<notin> set (cr_encode K bs)" "CHR ''$'' \<notin> set (cr_encode K bs)"
proof -
  have "\<forall>c \<in> set (cr_encode K bs). base64_char c" using assms by (simp add: crypto_ok_def list_all_iff)
  moreover have "\<not> base64_char CHR '',''" "\<not> base64_char CHR '':''" "\<not> base64_char CHR ''$''"
    by (simp_all add: base64_char_def is_digit_def less_eq_char_def)
  ultimately show "CHR '','' \<notin> set (cr_encode K bs)" "CHR '':'' \<notin> set (cr_encode K bs)" "CHR ''$'' \<notin> set (cr_encode K bs)"
    by blast+
qed

lemma show_nat_avoids [simp]: "CHR '','' \<notin> set (show_nat n)" "CHR '':'' \<notin> set (show_nat n)" "CHR ''$'' \<notin> set (show_nat n)"
  using show_nat_digits [of n] by (auto simp: list_all_iff is_digit_def less_eq_char_def)

subsection \<open>Secrets\<close>

text \<open>C23: A printed SCRAM secret is parsed back to the credentials it was printed from.\<close>

theorem scram_secret_roundtrip:
  assumes K: "crypto_ok K" and keys: "length (sc_stored_key c) = 32" "length (sc_server_key c) = 32"
  shows "scram_parse K (to_secret_string K c) = Inr c"
proof -
  define params where "params = show_nat (unat (sc_iterations c)) @ CHR '':'' # cr_encode K (sc_salt c)"
  define secrets where "secrets = cr_encode K (sc_stored_key c) @ CHR '':'' # cr_encode K (sc_server_key c)"
  have "to_secret_string K c = ''SCRAM-SHA-256$'' @ params @ CHR ''$'' # secrets"
    by (simp add: to_secret_string_def params_def secrets_def)
  then have prefix: "strip_prefix ''SCRAM-SHA-256$'' (to_secret_string K c) = Some (params @ CHR ''$'' # secrets)"
    by (simp only: strip_prefix_append)
  have parts: "split_once CHR ''$'' (params @ CHR ''$'' # secrets) = Some (params, secrets)"
    using K by (intro split_once_append) (simp add: params_def)
  have fields: "split_once CHR '':'' params = Some (show_nat (unat (sc_iterations c)), cr_encode K (sc_salt c))"
    "split_once CHR '':'' secrets = Some (cr_encode K (sc_stored_key c), cr_encode K (sc_server_key c))"
    using K by (simp_all add: params_def secrets_def)
  show ?thesis unfolding scram_parse_def prefix using K keys
    by (simp add: ok_or_def parts fields parse_u32_show decode_32_def)
qed

subsection \<open>The right password\<close>

lemma hi_length: "crypto_ok K \<Longrightarrow> length result = 32 \<Longrightarrow> length (hi_loop K password n ui result) = 32"
  by (induction n arbitrary: ui result) (simp_all add: Let_def)

text \<open>The attributes of the server's first message and of the client's last.\<close>

lemma server_first_attrs:
  assumes "crypto_ok K" "CHR '','' \<notin> set nonce"
  shows "parse_attrs (''r='' @ nonce @ '',s='' @ cr_encode K salt @ '',i='' @ show_nat n) =
    Inr [(''r'', nonce), (''s'', cr_encode K salt), (''i'', show_nat n)]"
proof -
  have "split_char CHR '','' (''r='' @ nonce @ '',s='' @ cr_encode K salt @ '',i='' @ show_nat n) =
      [''r='' @ nonce, ''s='' @ cr_encode K salt, ''i='' @ show_nat n]"
    using assms by (simp add: split_char_append [where a = "CHR ''r'' # CHR ''='' # nonce", simplified]
        split_char_append [where a = "CHR ''s'' # CHR ''='' # cr_encode K salt", simplified])
  then show ?thesis using split_once_append [of "CHR ''=''" "''r''"] split_once_append [of "CHR ''=''" "''s''"]
      split_once_append [of "CHR ''=''" "''i''"]
    by (simp add: parse_attrs_def ok_or_def)
qed

lemma client_final_attrs:
  assumes "crypto_ok K" "CHR '','' \<notin> set nonce"
  shows "parse_attrs (''c=biws,r='' @ nonce @ '',p='' @ cr_encode K proof) =
    Inr [(''c'', ''biws''), (''r'', nonce), (''p'', cr_encode K proof)]"
proof -
  have "split_char CHR '','' (''c=biws,r='' @ nonce @ '',p='' @ cr_encode K proof) =
      [''c=biws'', ''r='' @ nonce, ''p='' @ cr_encode K proof]"
    using assms by (simp add: split_char_append [where a = "CHR ''r'' # CHR ''='' # nonce", simplified])
  then show ?thesis using split_once_append [of "CHR ''=''" "''r''"] split_once_append [of "CHR ''=''" "''c''"]
      split_once_append [of "CHR ''=''" "''p''"]
    by (simp add: parse_attrs_def ok_or_def)
qed

lemma client_final_message:
  "CHR '','' \<notin> set nonce \<Longrightarrow> split_first '',p='' (''c=biws,r='' @ nonce @ '',p='' @ x) = ''c=biws,r='' @ nonce"
  using split_first_skip [of nonce "''p=''" "'',p='' @ x"] by simp

text \<open>C14: A client that knows the password is let in: for credentials made from a password, the exchange
  that the server has started accepts the last message of a client with that password, and the server
  answers with its own signature over the same exchange. The client derives its keys with the server's \<open>hi\<close>.\<close>

theorem scram_accepts_password:
  assumes K: "crypto_ok K"
    and start: "scram_start K nonce (from_password_with_salt K password salt iterations) client_first = Inr (S, server_first)"
  shows "\<exists>client_final. build_client_final K password client_first server_first = Inr client_final
    \<and> scram_finish K S client_final = Inr (''v='' @ cr_encode K
        (hmac_sha256 K (hmac_sha256 K (hi K password salt iterations) ''Server Key'') (auth_message S client_final)))"
proof -
  define creds where "creds = from_password_with_salt K password salt iterations"
  have creds: "sc_salt creds = salt" "sc_iterations creds = iterations"
    "sc_stored_key creds = sha256 K (client_key_of K password salt iterations)"
    "sc_server_key creds = hmac_sha256 K (hi K password salt iterations) ''Server Key''"
    by (simp_all add: creds_def from_password_with_salt_def client_key_of_def Let_def)
  obtain bare attrs cn where b: "strip_gs2_header client_first = Inr bare" "parse_attrs bare = Inr attrs"
      "map_of attrs ''r'' = Some cn"
    and S: "S = \<lparr>ss_creds = creds, ss_client_first_bare = bare, ss_server_first = server_first, ss_client_nonce = cn\<rparr>"
    and sf: "server_first = ''r='' @ (cn @ cr_encode K nonce) @ '',s='' @ cr_encode K salt @ '',i='' @ show_nat (unat iterations)"
    using start unfolding creds_def [symmetric] scram_start_def
    by (auto simp: rbind_eq_Inr ok_or_def Let_def creds split: option.splits if_splits)
  have comma: "CHR '','' \<notin> set (cn @ cr_encode K nonce)" using parse_attrs_no_comma [OF b(2,3)] K by simp
  define ck where "ck = client_key_of K password salt iterations"
  define wo where "wo = ''c=biws,r='' @ (cn @ cr_encode K nonce)"
  define sig where "sig = hmac_sha256 K (sha256 K ck) (bare @ '','' @ server_first @ '','' @ wo)"
  define cf where "cf = wo @ '',p='' @ cr_encode K (xor_bytes ck sig)"
  have built: "build_client_final K password client_first server_first = Inr cf"
    using server_first_attrs [OF K comma] K
    by (simp add: build_client_final_def b(1) sf ok_or_def parse_u32_show cf_def wo_def sig_def ck_def Let_def)
  have attrs: "parse_attrs cf = Inr [(''c'', ''biws''), (''r'', cn @ cr_encode K nonce), (''p'', cr_encode K (xor_bytes ck sig))]"
    using client_final_attrs [OF K comma] by (simp add: cf_def wo_def)
  have msg: "auth_message S cf = bare @ '','' @ server_first @ '','' @ wo"
    using client_final_message [OF comma] by (simp add: auth_message_def S cf_def wo_def)
  have fields: "ss_creds S = creds" "ss_client_nonce S = cn" by (simp_all add: S)
  have signed: "hmac_sha256 K (sha256 K ck) (auth_message S cf) = sig" by (simp add: msg sig_def)
  have "xor_bytes (xor_bytes ck sig) sig = ck"
    by (rule xor_bytes_cancel) (use K in \<open>simp add: ck_def sig_def client_key_of_def\<close>)
  then have "scram_finish K S cf = Inr (''v='' @ cr_encode K (hmac_sha256 K (sc_server_key creds) (auth_message S cf)))"
    using K by (simp add: scram_finish_def attrs ok_or_def signed fields creds ck_def [symmetric] Let_def)
  then show ?thesis using built by (simp add: creds)
qed

subsection \<open>Only the right proof\<close>

lemma xor_bytes_take: "xor_bytes a b = xor_bytes (take (length b) a) b"
  unfolding xor_bytes_def by (rule nth_equalityI) simp_all

text \<open>C15: Nobody else is let in: if the stored key has no second preimage, a last message is accepted only
  if its proof is the client key masked with the signature of this very exchange, both parties' first
  messages and nonces included.\<close>

theorem scram_accepts_only_the_proof:
  assumes K: "crypto_ok K" and stored: "sc_stored_key (ss_creds S) = sha256 K ck" and ck: "length ck = 32"
    and no_second_preimage: "\<And>k. length k \<le> 32 \<Longrightarrow> sha256 K k = sha256 K ck \<Longrightarrow> k = ck"
    and accepted: "scram_finish K S client_final = Inr answer"
  shows "\<exists>attrs p client_proof. parse_attrs client_final = Inr attrs \<and> map_of attrs ''p'' = Some p
    \<and> cr_decode K p = Inr client_proof
    \<and> take 32 client_proof = xor_bytes ck (hmac_sha256 K (sha256 K ck) (auth_message S client_final))"
proof -
  define sig where "sig = hmac_sha256 K (sha256 K ck) (auth_message S client_final)"
  note finish = accepted [unfolded scram_finish_def stored, folded sig_def]
  obtain attrs where a: "parse_attrs client_final = Inr attrs"
    using finish by (cases "parse_attrs client_final") simp_all
  obtain p pr where p: "map_of attrs ''p'' = Some p" "cr_decode K p = Inr pr" "sha256 K (xor_bytes pr sig) = sha256 K ck"
    using finish
    by (cases "map_of attrs ''c''"; cases "map_of attrs ''r''"; cases "map_of attrs ''p''"; cases "cr_decode K (the (map_of attrs ''p''))")
      (simp_all add: a ok_or_def Let_def sig_def split: if_split_asm)
  have sig: "length sig = 32" using K by (simp add: sig_def)
  have key: "xor_bytes pr sig = ck" by (rule no_second_preimage [OF _ p(3)]) (simp add: sig)
  have "length pr \<ge> 32" using arg_cong [OF key, of length] sig ck by simp
  then have "length (take 32 pr) = length sig" using sig by simp
  then have "take 32 pr = xor_bytes (xor_bytes (take 32 pr) sig) sig" by (rule xor_bytes_cancel [symmetric])
  also have "\<dots> = xor_bytes ck sig" using key xor_bytes_take [of pr sig] sig by simp
  finally show ?thesis using a p unfolding sig_def by blast
qed

subsection \<open>An example\<close>

text \<open>A hash that keeps the first bytes, and two letters for each byte.\<close>

definition example_digit :: "nat \<Rightarrow> char" where
  "example_digit n = char_of (65 + n)"

definition example_encode :: "bytes \<Rightarrow> string" where
  "example_encode bs = concat (map (\<lambda>b. [example_digit (unat b div 16), example_digit (unat b mod 16)]) bs)"

fun example_decode :: "string \<Rightarrow> string + bytes" where
  "example_decode [] = Inr []"
| "example_decode [c] = Inl ''Invalid padding''"
| "example_decode (c # d # s) =
     rbind (example_decode s) (\<lambda>bs. Inr (word_of_nat ((of_char c - 65) * 16 + (of_char d - 65)) # bs))"

definition example_crypto :: crypto where
  "example_crypto = \<lparr>cr_hmac = (\<lambda>key data. take 32 (key @ data @ replicate 32 1)),
     cr_sha256 = (\<lambda>data. take 32 (map (\<lambda>b. b + 1) data @ replicate 32 0)),
     cr_encode = example_encode, cr_decode = example_decode\<rparr>"

lemma example_crypto_ok: "crypto_ok example_crypto"
proof -
  have digit: "base64_char (example_digit n)" "of_char (example_digit n) = 65 + n" if "n < 16" for n
    using that by (auto simp: example_digit_def base64_char_def less_eq_char_def)
  have nibbles: "unat (b :: u8) div 16 < 16" "unat b mod 16 < 16" for b
  proof -
    have "unat b < 2 ^ LENGTH(8)" by (rule unsigned_less)
    then show "unat b div 16 < 16" "unat b mod 16 < 16" by simp_all
  qed
  have "example_decode (example_encode bs) = Inr bs" for bs
    by (induction bs) (simp_all add: example_encode_def digit nibbles)
  moreover have "list_all base64_char (example_encode bs)" for bs
    by (induction bs) (simp_all add: example_encode_def digit nibbles)
  ultimately show ?thesis by (auto simp: crypto_ok_def example_crypto_def)
qed

definition example_creds :: scram_credentials where
  "example_creds = from_password_with_salt example_crypto ''pencil'' [1, 2, 3] 2"

lemma example_keys:
  "length (sc_stored_key example_creds) = 32" "length (sc_server_key example_creds) = 32"
  using example_crypto_ok by (simp_all add: example_creds_def from_password_with_salt_def Let_def)

theorem scram_secret_roundtrip_witness:
  "crypto_ok example_crypto \<and> scram_parse example_crypto (to_secret_string example_crypto example_creds) = Inr example_creds"
  using scram_secret_roundtrip [OF example_crypto_ok example_keys] example_crypto_ok by simp

lemma example_start:
  "\<exists>S server_first. scram_start example_crypto [9] example_creds ''n,,n=user,r=abc'' = Inr (S, server_first)"
proof -
  have "parse_attrs ''n=user,r=abc'' = Inr [(''n'', ''user''), (''r'', ''abc'')]" by code_simp
  moreover have "strip_gs2_header ''n,,n=user,r=abc'' = Inr ''n=user,r=abc''" by code_simp
  ultimately show ?thesis by (simp add: scram_start_def ok_or_def Let_def)
qed

theorem scram_accepts_password_witness:
  "\<exists>S server_first client_final. scram_start example_crypto [9] example_creds ''n,,n=user,r=abc'' = Inr (S, server_first)
    \<and> build_client_final example_crypto ''pencil'' ''n,,n=user,r=abc'' server_first = Inr client_final
    \<and> isl (scram_finish example_crypto S client_final) = False"
proof -
  obtain S sf where S: "scram_start example_crypto [9] example_creds ''n,,n=user,r=abc'' = Inr (S, sf)"
    using example_start by blast
  from scram_accepts_password [OF example_crypto_ok S [unfolded example_creds_def]] S show ?thesis by force
qed

lemma example_client_key: "client_key_of example_crypto ''pencil'' [1, 2, 3] 2 = replicate 32 0"
  by code_simp

lemma example_preimage:
  assumes "length k \<le> 32" "sha256 example_crypto k = sha256 example_crypto (replicate 32 0)"
  shows "k = replicate 32 0"
proof -
  have eq: "map (\<lambda>b. b + 1) k @ replicate (32 - length k) 0 = replicate 32 1"
    using assms by (simp add: sha256_def example_crypto_def)
  have "length k = 32"
  proof (rule ccontr)
    assume "length k \<noteq> 32"
    then have "(0 :: u8) \<in> set (map (\<lambda>b. b + 1) k @ replicate (32 - length k) 0)" using assms(1) by simp
    then show False unfolding eq by simp
  qed
  then have "map (\<lambda>b. b - 1) (map (\<lambda>b. b + 1) k) = map (\<lambda>b. b - 1) (replicate 32 (1 :: u8))" using eq by simp
  then show ?thesis by (simp add: comp_def)
qed

theorem scram_accepts_only_the_proof_witness:
  "\<exists>S client_final p client_proof attrs. (\<exists>answer. scram_finish example_crypto S client_final = Inr answer)
    \<and> parse_attrs client_final = Inr attrs \<and> map_of attrs ''p'' = Some p \<and> example_decode p = Inr client_proof
    \<and> take 32 client_proof = xor_bytes (replicate 32 0) (hmac_sha256 example_crypto
        (sha256 example_crypto (replicate 32 0)) (auth_message S client_final))"
proof -
  define S where "S = \<lparr>ss_creds = example_creds, ss_client_first_bare = ''r=a'', ss_server_first = ''r=ab'', ss_client_nonce = ''a''\<rparr>"
  define cf where "cf = ''c=biws,r=ab,p='' @ example_encode (replicate 32 1)"
  have "sc_stored_key (ss_creds S) = sha256 example_crypto (replicate 32 0)"
    using example_client_key by (simp add: S_def example_creds_def from_password_with_salt_def client_key_of_def Let_def)
  moreover have "\<not> isl (scram_finish example_crypto S cf)" unfolding S_def cf_def by code_simp
  then obtain answer where "scram_finish example_crypto S cf = Inr answer" by (cases "scram_finish example_crypto S cf") auto
  ultimately show ?thesis
    using scram_accepts_only_the_proof [OF example_crypto_ok, of S "replicate 32 0" cf answer] example_preimage
    by (force simp: example_crypto_def)
qed

end
