(* ===== verification/Config.thy ===== *)
theory Config
  imports Scram
begin

text \<open>
  \<open>moodeng-server/src/config.rs\<close>, \<open>auth.rs\<close> and \<open>tls.rs\<close>, and the part of \<open>main.rs\<close> that turns a
  configuration into authentication and TLS settings. The TOML reader, Argon2 and the PEM and TLS
  libraries are parameters; a path is its text.
\<close>

subsection \<open>Configuration\<close>

record server_config =
  cfg_host :: string
  cfg_port :: u16
  cfg_max_connections :: u64
  cfg_shutdown_timeout_secs :: u64
  cfg_metrics_port :: u16
  cfg_metrics_host :: string
  cfg_tls_cert :: "string option"
  cfg_tls_key :: "string option"
  cfg_require_tls :: bool

record storage_config =
  cfg_data_dir :: string
  cfg_max_cached_pages :: u64
  cfg_rows_per_page :: u64

datatype log_format = TextFormat | JsonFormat

record log_config =
  cfg_level :: string
  cfg_slow_query_ms :: u64
  cfg_format :: log_format

record auth_section =
  cfg_password_hash :: "string option"
  cfg_password_scram :: "string option"

record config =
  cfg_server :: server_config
  cfg_storage :: storage_config
  cfg_log :: log_config
  cfg_auth :: auth_section

record query_log_config =
  ql_slow_query_ms :: u64

definition query_log_from :: "log_config \<Rightarrow> query_log_config" where
  "query_log_from log = \<lparr>ql_slow_query_ms = cfg_slow_query_ms log\<rparr>"

definition default_host :: string where "default_host = ''127.0.0.1''"
definition default_port :: u16 where "default_port = 5432"
definition default_max_connections :: u64 where "default_max_connections = 100"
definition default_shutdown_timeout_secs :: u64 where "default_shutdown_timeout_secs = 30"
definition default_metrics_host :: string where "default_metrics_host = ''127.0.0.1''"
definition default_slow_query_ms :: u64 where "default_slow_query_ms = 1000"
definition default_data_dir :: string where "default_data_dir = ''./moodeng_data''"
definition default_log_level :: string where "default_log_level = ''info''"
definition default_rows_per_page :: u64 where "default_rows_per_page = 16"

definition server_config_default :: server_config where
  "server_config_default = \<lparr>cfg_host = default_host, cfg_port = default_port,
     cfg_max_connections = default_max_connections, cfg_shutdown_timeout_secs = default_shutdown_timeout_secs,
     cfg_metrics_port = 0, cfg_metrics_host = default_metrics_host, cfg_tls_cert = None, cfg_tls_key = None,
     cfg_require_tls = False\<rparr>"

definition storage_config_default :: storage_config where
  "storage_config_default = \<lparr>cfg_data_dir = default_data_dir, cfg_max_cached_pages = 0, cfg_rows_per_page = default_rows_per_page\<rparr>"

definition log_config_default :: log_config where
  "log_config_default = \<lparr>cfg_level = default_log_level, cfg_slow_query_ms = default_slow_query_ms, cfg_format = TextFormat\<rparr>"

definition config_default :: config where
  "config_default = \<lparr>cfg_server = server_config_default, cfg_storage = storage_config_default, cfg_log = log_config_default,
     cfg_auth = \<lparr>cfg_password_hash = None, cfg_password_scram = None\<rparr>\<rparr>"

text \<open>The files the process can read, and the TOML reader (with the defaults above for missing keys).\<close>

record host_env =
  he_files :: "(string \<times> string) list"
  he_toml :: "string \<Rightarrow> string + config"
  he_password_var :: "string option"
  he_argon_parses :: "string \<Rightarrow> bool"
  he_argon_verifies :: "string \<Rightarrow> string \<Rightarrow> bool"
  he_argon_hash :: "bytes \<Rightarrow> string \<Rightarrow> string"
  he_certs :: "string \<Rightarrow> string + bytes list"
  he_private_keys :: "string \<Rightarrow> string + bytes list"
  he_tls_config :: "bytes list \<Rightarrow> bytes \<Rightarrow> string + unit"

definition config_load :: "host_env \<Rightarrow> string \<Rightarrow> string + config" where
  "config_load H path =
     (case map_of (he_files H) path of
        None \<Rightarrow> Inl ''No such file or directory (os error 2)''
      | Some content \<Rightarrow> he_toml H content)"

definition CONFIG_CANDIDATES :: "string list" where
  "CONFIG_CANDIDATES = [''moodeng.toml'', ''./moodeng.toml'', ''/etc/moodengsql/moodeng.toml'']"

definition result_ok :: "'e + 'a \<Rightarrow> 'a option" where
  "result_ok r = (case r of Inl _ \<Rightarrow> None | Inr x \<Rightarrow> Some x)"

fun find_config :: "host_env \<Rightarrow> string list \<Rightarrow> config option" where
  "find_config H [] = None"
| "find_config H (path # paths) =
     (if map_of (he_files H) path \<noteq> None then result_ok (config_load H path) else find_config H paths)"

definition find_and_load :: "host_env \<Rightarrow> config option" where
  "find_and_load H = find_config H CONFIG_CANDIDATES"

definition load_config :: "host_env \<Rightarrow> string option \<Rightarrow> string + config" where
  "load_config H path =
     (case path of
        Some p \<Rightarrow> config_load H p
      | None \<Rightarrow> Inr (case find_and_load H of None \<Rightarrow> config_default | Some c \<Rightarrow> c))"

definition data_dir :: "config \<Rightarrow> string option \<Rightarrow> string" where
  "data_dir cfg override_dir = (case override_dir of Some d \<Rightarrow> d | None \<Rightarrow> cfg_data_dir (cfg_storage cfg))"

subsection \<open>Authentication settings\<close>

record auth_config =
  ac_password_hash :: "string option"
  ac_scram_credentials :: "scram_credentials option"
  ac_require_tls_for_password :: bool

definition auth_config_default :: auth_config where
  "auth_config_default = \<lparr>ac_password_hash = None, ac_scram_credentials = None, ac_require_tls_for_password = False\<rparr>"

definition option_filter :: "('a \<Rightarrow> bool) \<Rightarrow> 'a option \<Rightarrow> 'a option" where
  "option_filter P x = (case x of None \<Rightarrow> None | Some v \<Rightarrow> if P v then Some v else None)"

definition hash_password :: "host_env \<Rightarrow> bytes \<Rightarrow> string \<Rightarrow> string" where
  "hash_password H salt password = he_argon_hash H salt password"

definition verify_password :: "host_env \<Rightarrow> string \<Rightarrow> string \<Rightarrow> bool" where
  "verify_password H password hash = (if he_argon_parses H hash then he_argon_verifies H password hash else False)"

definition hash_scram :: "crypto \<Rightarrow> bytes \<Rightarrow> string \<Rightarrow> string" where
  "hash_scram K salt password = generate_scram_secret K salt password"

text \<open>The salts are what the random generator returned.\<close>

definition from_config_and_env :: "host_env \<Rightarrow> crypto \<Rightarrow> bytes \<Rightarrow> bytes \<Rightarrow> string option \<Rightarrow> string option \<Rightarrow> auth_config" where
  "from_config_and_env H K argon_salt scram_salt hash_from_file scram_from_file =
     (let password_hash = option_filter (\<lambda>h. h \<noteq> []) hash_from_file;
          scram_credentials = Option.bind (option_filter (\<lambda>s. s \<noteq> []) scram_from_file) (\<lambda>s. result_ok (scram_parse K s))
      in if password_hash \<noteq> None \<or> scram_credentials \<noteq> None
         then \<lparr>ac_password_hash = password_hash, ac_scram_credentials = scram_credentials, ac_require_tls_for_password = False\<rparr>
         else case option_filter (\<lambda>p. p \<noteq> []) (he_password_var H) of
                Some password \<Rightarrow>
                  \<lparr>ac_password_hash = Some (hash_password H argon_salt password),
                   ac_scram_credentials = Some (from_password K scram_salt password), ac_require_tls_for_password = False\<rparr>
              | None \<Rightarrow> auth_config_default)"

definition auth_required :: "auth_config \<Rightarrow> bool" where
  "auth_required auth \<longleftrightarrow> ac_password_hash auth \<noteq> None \<or> ac_scram_credentials auth \<noteq> None"

definition scram_available :: "auth_config \<Rightarrow> bool" where
  "scram_available auth \<longleftrightarrow> ac_scram_credentials auth \<noteq> None"

definition auth_verify :: "host_env \<Rightarrow> auth_config \<Rightarrow> string \<Rightarrow> bool" where
  "auth_verify H auth password = (case ac_password_hash auth of Some hash \<Rightarrow> verify_password H password hash | None \<Rightarrow> True)"

subsection \<open>TLS settings\<close>

record tls_settings =
  tls_cert_path :: "string option"
  tls_key_path :: "string option"
  tls_require :: bool

definition tls_from_server_config :: "server_config \<Rightarrow> tls_settings" where
  "tls_from_server_config cfg = \<lparr>tls_cert_path = cfg_tls_cert cfg, tls_key_path = cfg_tls_key cfg, tls_require = cfg_require_tls cfg\<rparr>"

definition tls_available :: "tls_settings \<Rightarrow> bool" where
  "tls_available t \<longleftrightarrow> tls_cert_path t \<noteq> None \<and> tls_key_path t \<noteq> None"

definition debug_path :: "string \<Rightarrow> string" where
  "debug_path path = [CHR 0x22] @ path @ [CHR 0x22]"

definition load_certs :: "host_env \<Rightarrow> string \<Rightarrow> string + bytes list" where
  "load_certs H path =
     (if map_of (he_files H) path = None then Inl ''No such file or directory (os error 2)''
      else case he_certs H path of Inl e \<Rightarrow> Inl (''read cert '' @ debug_path path @ '': '' @ e) | Inr cs \<Rightarrow> Inr cs)"

definition load_private_key :: "host_env \<Rightarrow> string \<Rightarrow> string + bytes" where
  "load_private_key H path =
     (if map_of (he_files H) path = None then Inl ''No such file or directory (os error 2)''
      else case he_private_keys H path of
             Inl e \<Rightarrow> Inl (''read key '' @ debug_path path @ '': '' @ e)
           | Inr [] \<Rightarrow> Inl (''no private key found in '' @ debug_path path)
           | Inr (k # _) \<Rightarrow> Inr k)"

text \<open>The certificates and the key of the acceptor, if TLS is configured.\<close>

definition load_server_config :: "host_env \<Rightarrow> tls_settings \<Rightarrow> string + (bytes list \<times> bytes) option" where
  "load_server_config H t =
     (case (tls_cert_path t, tls_key_path t) of
        (Some cert_path, Some key_path) \<Rightarrow>
          rbind (load_certs H cert_path) (\<lambda>certs.
          rbind (load_private_key H key_path) (\<lambda>key.
          rbind (he_tls_config H certs key) (\<lambda>_. Inr (Some (certs, key)))))
      | _ \<Rightarrow> if tls_require t then Inl ''require_tls is enabled but tls_cert / tls_key are not configured'' else Inr None)"

definition auth_config_of :: "host_env \<Rightarrow> crypto \<Rightarrow> bytes \<Rightarrow> bytes \<Rightarrow> config \<Rightarrow> tls_settings \<Rightarrow> auth_config" where
  "auth_config_of H K argon_salt scram_salt cfg tls =
     (let auth = from_config_and_env H K argon_salt scram_salt (cfg_password_hash (cfg_auth cfg)) (cfg_password_scram (cfg_auth cfg))
      in if ac_password_hash auth \<noteq> None \<and> tls_available tls \<and> \<not> scram_available auth
         then auth\<lparr>ac_require_tls_for_password := True\<rparr> else auth)"

datatype log_level = TRACE | DEBUG | INFO | WARN | ERROR

definition log_level_of :: "config \<Rightarrow> log_level" where
  "log_level_of cfg =
     (let level = to_lowercase (cfg_level (cfg_log cfg))
      in if level = ''trace'' then TRACE else if level = ''debug'' then DEBUG else if level = ''warn'' then WARN
         else if level = ''error'' then ERROR else INFO)"

end
