(* ===== verification/Wal.thy ===== *)
theory Wal
  imports Types
begin

text \<open>
  \<open>moodeng-core/src/wal.rs\<close>: the write-ahead log. A record on disk is the LSN, the body length, a
  CRC-32 of the payload and the payload, all integers big-endian. The log file is its bytes with
  the length of the prefix that \<open>sync_all\<close> has made durable; a crash keeps the durable prefix and
  any part of the rest. File operations succeed. The payload codec (\<open>bincode\<close>) is a parameter.
\<close>

subsection \<open>Records\<close>

datatype wal_op =
    WBegin u64
  | WCommit u64
  | WAbort u64
  | WInsert u64 string u64 row
  | WUpdate u64 string u64 row
  | WDelete u64 string u64

fun data_txn_id :: "wal_op \<Rightarrow> u64 option" where
  "data_txn_id (WInsert t _ _ _) = Some t"
| "data_txn_id (WUpdate t _ _ _) = Some t"
| "data_txn_id (WDelete t _ _) = Some t"
| "data_txn_id (WBegin _) = None"
| "data_txn_id (WCommit _) = None"
| "data_txn_id (WAbort _) = None"

fun control_txn_id :: "wal_op \<Rightarrow> u64 option" where
  "control_txn_id (WBegin t) = Some t"
| "control_txn_id (WCommit t) = Some t"
| "control_txn_id (WAbort t) = Some t"
| "control_txn_id _ = None"

fun is_data_op :: "wal_op \<Rightarrow> bool" where
  "is_data_op (WInsert _ _ _ _) = True"
| "is_data_op (WUpdate _ _ _ _) = True"
| "is_data_op (WDelete _ _ _) = True"
| "is_data_op _ = False"

definition CHECKPOINT_INTERVAL :: u64 where "CHECKPOINT_INTERVAL = 50"
definition WAL_SYNC_BATCH :: u64 where "WAL_SYNC_BATCH = 10"

subsection \<open>Checksum\<close>

definition crc_bit :: "u32 \<Rightarrow> u32" where
  "crc_bit c = (if c AND 1 \<noteq> 0 then 0xEDB88320 XOR drop_bit 1 c else drop_bit 1 c)"

fun crc_shift :: "nat \<Rightarrow> u32 \<Rightarrow> u32" where
  "crc_shift 0 c = c"
| "crc_shift (Suc k) c = crc_shift k (crc_bit c)"

text \<open>Entry \<open>i\<close> of the table the code computes at compile time.\<close>

definition crc_table :: "u32 \<Rightarrow> u32" where
  "crc_table i = crc_shift 8 i"

fun crc_loop :: "u32 \<Rightarrow> bytes \<Rightarrow> u32" where
  "crc_loop crc [] = crc"
| "crc_loop crc (b # bs) =
     crc_loop (crc_table ((crc XOR ucast b) AND 0xFF) XOR drop_bit 8 crc) bs"

definition crc32 :: "bytes \<Rightarrow> u32" where
  "crc32 bs = NOT (crc_loop 0xFFFFFFFF bs)"

subsection \<open>Encoding and replay\<close>

definition encode_wal_entry :: "wal_op codec \<Rightarrow> u64 \<Rightarrow> wal_op \<Rightarrow> bytes" where
  "encode_wal_entry C lsn op =
     (let payload = ser C op
      in be_bytes 8 lsn @ be_bytes 4 (word_of_nat (4 + length payload) :: u32)
           @ be_bytes 4 (crc32 payload) @ payload)"

text \<open>One turn of the replay loop: the record at the front of the bytes and the bytes after it, or
  \<open>None\<close> where the loop breaks (a short read, a body shorter than its checksum, a wrong checksum,
  a payload that does not decode).\<close>

definition read_entry :: "wal_op codec \<Rightarrow> bytes \<Rightarrow> (u64 \<times> wal_op \<times> bytes) option" where
  "read_entry C bs =
     (case read_exact 8 bs of None \<Rightarrow> None | Some (lsn_buf, r1) \<Rightarrow>
      case read_exact 4 r1 of None \<Rightarrow> None | Some (len_buf, r2) \<Rightarrow>
      let body_len = unat (from_be_bytes len_buf :: u32) in
      if body_len < 4 then None else
      case read_exact 4 r2 of None \<Rightarrow> None | Some (crc_buf, r3) \<Rightarrow>
      case read_exact (body_len - 4) r3 of None \<Rightarrow> None | Some (payload, r4) \<Rightarrow>
      if crc32 payload \<noteq> from_be_bytes crc_buf then None else
      case deser C payload of Inl _ \<Rightarrow> None
      | Inr op \<Rightarrow> Some (from_be_bytes lsn_buf, op, r4))"

lemma read_entry_shorter: "read_entry C bs = Some (lsn, op, rest) \<Longrightarrow> length rest < length bs"
  by (auto simp: read_entry_def Let_def split: option.splits if_splits sum.splits
      dest!: read_exact_SomeD)

function replay_from_bytes :: "wal_op codec \<Rightarrow> bytes \<Rightarrow> u64 \<Rightarrow> (u64 \<times> wal_op) list" where
  "replay_from_bytes C data from_lsn =
     (case read_entry C data of
        None \<Rightarrow> []
      | Some (lsn, op, rest) \<Rightarrow>
          (if from_lsn < lsn then [(lsn, op)] else []) @ replay_from_bytes C rest from_lsn)"
  by pat_completeness auto
termination
  by (relation "measure (\<lambda>(C, data, from_lsn). length data)") (auto dest: read_entry_shorter)

declare replay_from_bytes.simps [simp del]

function read_max_lsn :: "bytes \<Rightarrow> u64 \<Rightarrow> u64" where
  "read_max_lsn bs max_lsn =
     (case read_exact 8 bs of None \<Rightarrow> max_lsn | Some (lsn_buf, r1) \<Rightarrow>
      case read_exact 4 r1 of None \<Rightarrow> max_lsn | Some (len_buf, r2) \<Rightarrow>
      let body_len = unat (from_be_bytes len_buf :: u32) in
      if body_len < 4 then max_lsn
      else read_max_lsn (drop body_len r2) (max max_lsn (from_be_bytes lsn_buf)))"
  by pat_completeness auto
termination
  by (relation "measure (\<lambda>(bs, m). length bs)") (auto simp: read_exact_def split: if_splits)

declare read_max_lsn.simps [simp del]

subsection \<open>The log\<close>

record log_file =
  f_content :: bytes
  f_synced :: nat

definition file_append :: "log_file \<Rightarrow> bytes \<Rightarrow> log_file" where
  "file_append f bs = f\<lparr>f_content := f_content f @ bs\<rparr>"

definition sync_all :: "log_file \<Rightarrow> log_file" where
  "sync_all f = f\<lparr>f_synced := length (f_content f)\<rparr>"

record wal =
  wal_file :: log_file
  wal_checkpoint_file :: "bytes option"
  wal_lsn :: u64
  wal_next_txn_id :: u64
  wal_ops_since_checkpoint :: u64
  wal_unsynced_writes :: u64
  wal_checkpoint_lsn :: u64

text \<open>\<open>open\<close> on the bytes of \<open>wal.log\<close> (none when it was just created) and of \<open>checkpoint.bin\<close>.\<close>

definition wal_open :: "u64 codec \<Rightarrow> bytes \<Rightarrow> bytes option \<Rightarrow> wal res" where
  "wal_open K content ckpt =
     rbind (case ckpt of
              None \<Rightarrow> Inr 0
            | Some buf \<Rightarrow> if buf = [] then Inr 0
                        else (case deser K buf of Inl e \<Rightarrow> Inl (StorageError e) | Inr l \<Rightarrow> Inr l))
       (\<lambda>checkpoint_lsn. Inr
         \<lparr>wal_file = \<lparr>f_content = content, f_synced = length content\<rparr>,
          wal_checkpoint_file = ckpt, wal_lsn = read_max_lsn content 0, wal_next_txn_id = 1,
          wal_ops_since_checkpoint = 0, wal_unsynced_writes = 0,
          wal_checkpoint_lsn = checkpoint_lsn\<rparr>)"

definition alloc_txn_id :: "wal \<Rightarrow> u64 \<times> wal" where
  "alloc_txn_id w = (wal_next_txn_id w, w\<lparr>wal_next_txn_id := wal_next_txn_id w + 1\<rparr>)"

definition wal_append :: "wal_op codec \<Rightarrow> wal_op \<Rightarrow> wal \<Rightarrow> u64 \<times> wal" where
  "wal_append C op w =
     (let payload = ser C op;
          checksum = crc32 payload;
          lsn = wal_lsn w + 1;
          body_len = 4 + length payload;
          f = file_append (file_append (file_append (file_append (wal_file w)
                (be_bytes 8 lsn)) (be_bytes 4 (word_of_nat body_len :: u32)))
                (be_bytes 4 checksum)) payload;
          unsynced = wal_unsynced_writes w + 1;
          w1 = w\<lparr>wal_lsn := lsn, wal_file := f,
                 wal_ops_since_checkpoint := wal_ops_since_checkpoint w + 1,
                 wal_unsynced_writes := unsynced\<rparr>
      in (lsn, if WAL_SYNC_BATCH \<le> unsynced
               then w1\<lparr>wal_file := sync_all f, wal_unsynced_writes := 0\<rparr> else w1))"

definition wal_flush :: "wal \<Rightarrow> wal" where
  "wal_flush w = w\<lparr>wal_file := sync_all (wal_file w), wal_unsynced_writes := 0\<rparr>"

definition should_checkpoint :: "wal \<Rightarrow> bool" where
  "should_checkpoint w \<longleftrightarrow> CHECKPOINT_INTERVAL \<le> wal_ops_since_checkpoint w"

definition mark_checkpoint :: "u64 codec \<Rightarrow> u64 \<Rightarrow> wal \<Rightarrow> wal" where
  "mark_checkpoint K lsn w =
     (wal_flush w)\<lparr>wal_checkpoint_file := Some (ser K lsn), wal_ops_since_checkpoint := 0\<rparr>"

definition replay_since :: "wal_op codec \<Rightarrow> wal \<Rightarrow> u64 \<Rightarrow> (u64 \<times> wal_op) list" where
  "replay_since C w from_lsn = replay_from_bytes C (f_content (wal_file w)) from_lsn"

definition wal_truncate :: "wal \<Rightarrow> wal" where
  "wal_truncate w =
     (wal_flush w)\<lparr>wal_file := sync_all \<lparr>f_content = [], f_synced = 0\<rparr>, wal_lsn := 0\<rparr>"

subsection \<open>The checksum is the bitwise CRC-32\<close>

text \<open>The reference: every byte is folded in and shifted out bit by bit, without a table.\<close>

fun crc_bitwise :: "u32 \<Rightarrow> bytes \<Rightarrow> u32" where
  "crc_bitwise crc [] = crc"
| "crc_bitwise crc (b # bs) = crc_bitwise (crc_shift 8 (crc XOR ucast b)) bs"

lemma crc_shift_numeral [eval_simps]:
  "crc_shift (numeral v) c = crc_shift (pred_numeral v) (crc_bit c)"
  by (simp add: numeral_eq_Suc)

lemma crc_bit_alt: "crc_bit c = (if bit c 0 then 0xEDB88320 XOR drop_bit 1 c else drop_bit 1 c)"
  by (simp add: crc_bit_def and_one_eq bit_0 odd_iff_mod_2_eq_one)

lemma crc_bit_xor: "crc_bit (x XOR y) = crc_bit x XOR crc_bit y"
  unfolding crc_bit_alt bit_xor_iff drop_bit_xor by (simp add: ac_simps)

lemma crc_shift_xor: "crc_shift k (x XOR y) = crc_shift k x XOR crc_shift k y"
  by (induction k arbitrary: x y) (simp_all add: crc_bit_xor)

lemma crc_shift_zeros: "(\<forall>i < k. \<not> bit x i) \<Longrightarrow> crc_shift k x = drop_bit k x"
proof (induction k arbitrary: x)
  case 0
  then show ?case by simp
next
  case (Suc k)
  have "crc_bit x = drop_bit 1 x"
    using Suc.prems by (simp add: crc_bit_alt)
  moreover have "\<forall>i < k. \<not> bit (drop_bit 1 x) i"
    using Suc.prems by (simp add: bit_drop_bit_eq)
  ultimately show ?case using Suc.IH [of "drop_bit 1 x"] by simp
qed

lemma crc_byte_step:
  "crc_table ((crc XOR ucast b) AND 0xFF) XOR drop_bit 8 crc = crc_shift 8 (crc XOR ucast (b :: u8))"
proof -
  define x where "x = crc XOR ucast b"
  have ff: "(0xFF :: u32) = mask 8" by (simp add: mask_eq_exp_minus_1)
  have split: "x = (x AND 0xFF) XOR (x AND NOT 0xFF)"
    by (rule bit_eqI) (auto simp: bit_simps)
  have "crc_shift 8 (x AND NOT 0xFF) = drop_bit 8 (x AND NOT 0xFF)"
    unfolding ff by (rule crc_shift_zeros) (simp add: bit_simps)
  also have "\<dots> = drop_bit 8 crc"
    unfolding ff x_def by (rule bit_eqI) (auto simp: bit_simps dest: bit_imp_le_length)
  finally have "crc_shift 8 x = crc_shift 8 (x AND 0xFF) XOR drop_bit 8 crc"
    by (subst split) (simp only: crc_shift_xor)
  then show ?thesis by (simp only: crc_table_def x_def)
qed

lemma crc_loop_bitwise: "crc_loop crc bs = crc_bitwise crc bs"
  by (induction bs arbitrary: crc) (simp_all only: crc_loop.simps crc_bitwise.simps crc_byte_step)

text \<open>C38: the table-driven checksum computes the bit-by-bit CRC-32 of every byte string.\<close>

theorem crc32_is_bitwise_crc: "crc32 bs = NOT (crc_bitwise 0xFFFFFFFF bs)"
  by (simp only: crc32_def crc_loop_bitwise)

subsection \<open>Replay reads back what was written\<close>

text \<open>A log record the format can hold: the codec gives the operation back and the body length fits
  its 32-bit field.\<close>

definition entry_ok :: "wal_op codec \<Rightarrow> u64 \<times> wal_op \<Rightarrow> bool" where
  "entry_ok C e \<longleftrightarrow> codec_ok C (snd e) \<and> length (ser C (snd e)) + 4 < 2 ^ 32"

definition encode_entries :: "wal_op codec \<Rightarrow> (u64 \<times> wal_op) list \<Rightarrow> bytes" where
  "encode_entries C es = concat (map (\<lambda>(lsn, op). encode_wal_entry C lsn op) es)"

lemma encode_entries_simps [simp]:
  "encode_entries C [] = []"
  "encode_entries C (e # es) = encode_wal_entry C (fst e) (snd e) @ encode_entries C es"
  by (simp_all add: encode_entries_def case_prod_beta)

lemma encode_entries_append:
  "encode_entries C (es @ fs) = encode_entries C es @ encode_entries C fs"
  by (simp add: encode_entries_def)

lemma length_encode_wal_entry: "length (encode_wal_entry C lsn op) = 16 + length (ser C op)"
  by (simp add: encode_wal_entry_def Let_def)

lemma body_length:
  "n + 4 < 2 ^ 32 \<Longrightarrow> unat (word_of_nat (4 + n) :: u32) = 4 + n"
  by (simp add: unsigned_of_nat take_bit_nat_eq_self del: of_nat_add)

lemma read_entry_encode:
  assumes "entry_ok C (lsn, op)"
  shows "read_entry C (encode_wal_entry C lsn op @ rest) = Some (lsn, op, rest)"
  using assms body_length [of "length (ser C op)"]
  by (simp add: entry_ok_def codec_ok_def read_entry_def encode_wal_entry_def Let_def del: of_nat_add)

lemma read_entry_torn:
  assumes "entry_ok C (lsn, op)" and "n < length (encode_wal_entry C lsn op)"
  shows "read_entry C (take n (encode_wal_entry C lsn op)) = None"
proof -
  let ?len = "be_bytes 4 (word_of_nat (4 + length (ser C op)) :: u32)"
  have len: "unat (from_be_bytes ?len :: u32) = 4 + length (ser C op)"
    using assms(1) body_length [of "length (ser C op)"] by (simp add: entry_ok_def del: of_nat_add)
  consider "n < 8" | "8 \<le> n" "n < 12" | "12 \<le> n" "n < 16" | "16 \<le> n" by linarith
  then show ?thesis
  proof cases
    case 4
    then show ?thesis
      using assms(2) len
      by (simp add: read_entry_def encode_wal_entry_def Let_def length_encode_wal_entry
          del: of_nat_add)
  qed (use len in \<open>simp_all add: read_entry_def encode_wal_entry_def Let_def del: of_nat_add\<close>)
qed

lemma replay_Cons:
  assumes "entry_ok C e"
  shows "replay_from_bytes C (encode_wal_entry C (fst e) (snd e) @ rest) l =
    (if l < fst e then [e] else []) @ replay_from_bytes C rest l"
  using assms read_entry_encode [of C "fst e" "snd e" rest]
  by (subst replay_from_bytes.simps) simp

lemma replay_Nil [simp]: "replay_from_bytes C [] l = []"
  by (subst replay_from_bytes.simps) (simp add: read_entry_def)

lemma replay_entries:
  assumes "\<forall>e \<in> set es. entry_ok C e"
  shows "replay_from_bytes C (encode_entries C es @ rest) l =
    filter (\<lambda>e. l < fst e) es @ replay_from_bytes C rest l"
  using assms by (induction es) (simp_all add: replay_Cons)

lemma replay_torn_entry:
  assumes "entry_ok C e" and "n < length (encode_wal_entry C (fst e) (snd e))"
  shows "replay_from_bytes C (take n (encode_wal_entry C (fst e) (snd e))) l = []"
  using assms read_entry_torn [of C "fst e" "snd e" n]
  by (subst replay_from_bytes.simps) simp

text \<open>How many whole records fit in the first \<open>n\<close> bytes.\<close>

fun whole_entries :: "wal_op codec \<Rightarrow> nat \<Rightarrow> (u64 \<times> wal_op) list \<Rightarrow> nat" where
  "whole_entries C n [] = 0"
| "whole_entries C n (e # es) =
     (let m = length (encode_wal_entry C (fst e) (snd e))
      in if m \<le> n then Suc (whole_entries C (n - m) es) else 0)"

lemma whole_entries_le: "whole_entries C n es \<le> length es"
  by (induction C n es rule: whole_entries.induct) (auto simp: Let_def)

lemma whole_entries_fit: "length (encode_entries C (take (whole_entries C n es) es)) \<le> n"
  by (induction C n es rule: whole_entries.induct) (auto simp: Let_def)

lemma whole_entries_maximal:
  "k \<le> length es \<Longrightarrow> length (encode_entries C (take k es)) \<le> n \<Longrightarrow> k \<le> whole_entries C n es"
proof (induction C n es arbitrary: k rule: whole_entries.induct)
  case (1 C n)
  then show ?case by simp
next
  case (2 C n e es)
  then show ?case by (cases k) (auto simp: Let_def)
qed

lemma replay_prefix:
  assumes "\<forall>e \<in> set es. entry_ok C e"
  shows "replay_from_bytes C (take n (encode_entries C es)) l =
    filter (\<lambda>e. l < fst e) (take (whole_entries C n es) es)"
  using assms
  by (induction C n es rule: whole_entries.induct)
    (simp_all add: replay_Cons replay_torn_entry Let_def)

text \<open>Replaying a log cut at any byte, as a torn last write leaves it, returns exactly the
  records that lie whole before the cut, in order: none is lost, none is invented and the torn one
  is dropped. With the cut at the end of the log this is the round trip of writing and replaying.\<close>

theorem replay_returns_whole_records:
  assumes "\<forall>e \<in> set es. entry_ok C e"
  shows "\<exists>k \<le> length es.
      replay_from_bytes C (take n (encode_entries C es)) from_lsn =
        filter (\<lambda>e. from_lsn < fst e) (take k es)
    \<and> (\<forall>j \<le> length es. length (encode_entries C (take j es)) \<le> n \<longleftrightarrow> j \<le> k)"
proof (intro exI conjI allI impI)
  let ?k = "whole_entries C n es"
  show "?k \<le> length es" by (rule whole_entries_le)
  show "replay_from_bytes C (take n (encode_entries C es)) from_lsn =
        filter (\<lambda>e. from_lsn < fst e) (take ?k es)"
    by (rule replay_prefix [OF assms])
  fix j assume j: "j \<le> length es"
  show "length (encode_entries C (take j es)) \<le> n \<longleftrightarrow> j \<le> ?k"
  proof
    assume "length (encode_entries C (take j es)) \<le> n"
    with j show "j \<le> ?k" by (rule whole_entries_maximal)
  next
    assume "j \<le> ?k"
    then have "take ?k es = take j es @ drop j (take ?k es)"
      by (metis append_take_drop_id min.absorb1 take_take)
    then have "length (encode_entries C (take j es)) \<le> length (encode_entries C (take ?k es))"
      by (metis encode_entries_append le_add1 length_append)
    then show "length (encode_entries C (take j es)) \<le> n"
      using whole_entries_fit [of C n es] by simp
  qed
qed

subsection \<open>Appending\<close>

text \<open>A run of appends, and the records it writes: LSNs count up from the one the log had.\<close>

fun wal_append_all :: "wal_op codec \<Rightarrow> wal_op list \<Rightarrow> wal \<Rightarrow> wal" where
  "wal_append_all C [] w = w"
| "wal_append_all C (op # ops) w = wal_append_all C ops (snd (wal_append C op w))"

fun number_from :: "u64 \<Rightarrow> wal_op list \<Rightarrow> (u64 \<times> wal_op) list" where
  "number_from l [] = []"
| "number_from l (op # ops) = (l + 1, op) # number_from (l + 1) ops"

lemma wal_append_fields [simp]:
  "wal_lsn (snd (wal_append C op w)) = wal_lsn w + 1"
  "fst (wal_append C op w) = wal_lsn w + 1"
  "wal_checkpoint_file (snd (wal_append C op w)) = wal_checkpoint_file w"
  "wal_checkpoint_lsn (snd (wal_append C op w)) = wal_checkpoint_lsn w"
  "wal_next_txn_id (snd (wal_append C op w)) = wal_next_txn_id w"
  "f_content (wal_file (snd (wal_append C op w))) =
     f_content (wal_file w) @ encode_wal_entry C (wal_lsn w + 1) op"
  by (simp_all add: wal_append_def Let_def file_append_def sync_all_def encode_wal_entry_def)

lemma wal_append_all_content:
  "f_content (wal_file (wal_append_all C ops w)) =
     f_content (wal_file w) @ encode_entries C (number_from (wal_lsn w) ops)"
  by (induction ops arbitrary: w) simp_all

lemma wal_append_all_fields [simp]:
  "wal_lsn (wal_append_all C ops w) = wal_lsn w + word_of_nat (length ops)"
  "wal_checkpoint_file (wal_append_all C ops w) = wal_checkpoint_file w"
  "wal_checkpoint_lsn (wal_append_all C ops w) = wal_checkpoint_lsn w"
  by (induction ops arbitrary: w) (simp_all add: algebra_simps)

lemma length_number_from [simp]: "length (number_from l ops) = length ops"
  by (induction ops arbitrary: l) simp_all

lemma snd_number_from: "map snd (number_from l ops) = ops"
  by (induction ops arbitrary: l) simp_all

lemma number_from_lsns:
  assumes "unat l + length ops < 2 ^ 64" "e \<in> set (number_from l ops)"
  shows "l < fst e \<and> unat (fst e) \<le> unat l + length ops"
  using assms
proof (induction ops arbitrary: l)
  case Nil
  then show ?case by simp
next
  case (Cons op ops)
  have suc: "unat (l + 1) = Suc (unat l)"
    using Cons.prems(1) by (simp add: unat_word_ariths)
  then have less: "l < l + 1" by (simp add: word_less_nat_alt)
  from Cons.prems(2) consider "e = (l + 1, op)" | "e \<in> set (number_from (l + 1) ops)" by auto
  then show ?case
  proof cases
    case 1
    with suc less show ?thesis by simp
  next
    case 2
    with Cons.IH [of "l + 1"] Cons.prems(1) suc less show ?thesis by auto
  qed
qed

text \<open>The abstract log: the file holds the records \<open>es\<close>, of which all but the last
  \<open>unsynced_writes\<close> are durable, and fewer than a batch are not.\<close>

definition wal_repr :: "wal_op codec \<Rightarrow> wal \<Rightarrow> (u64 \<times> wal_op) list \<Rightarrow> bool" where
  "wal_repr C w es \<longleftrightarrow>
     f_content (wal_file w) = encode_entries C es
   \<and> wal_unsynced_writes w < WAL_SYNC_BATCH
   \<and> unat (wal_unsynced_writes w) \<le> length es
   \<and> f_synced (wal_file w) =
       length (encode_entries C (take (length es - unat (wal_unsynced_writes w)) es))"

definition wal_fresh :: wal where
  "wal_fresh = \<lparr>wal_file = \<lparr>f_content = [], f_synced = 0\<rparr>, wal_checkpoint_file = None,
     wal_lsn = 0, wal_next_txn_id = 1, wal_ops_since_checkpoint = 0, wal_unsynced_writes = 0,
     wal_checkpoint_lsn = 0\<rparr>"

lemma wal_fresh_opens: "wal_open K [] None = Inr wal_fresh"
  by (simp add: wal_open_def wal_fresh_def read_max_lsn.simps)

lemma wal_repr_fresh: "wal_repr C wal_fresh []"
  by (simp add: wal_repr_def wal_fresh_def WAL_SYNC_BATCH_def)

lemma wal_repr_append:
  assumes "wal_repr C w es"
  shows "wal_repr C (snd (wal_append C op w)) (es @ [(wal_lsn w + 1, op)])"
proof -
  let ?u = "wal_unsynced_writes w" and ?e = "(wal_lsn w + 1, op)"
  have content: "f_content (wal_file (snd (wal_append C op w))) = encode_entries C (es @ [?e])"
    using assms by (simp add: wal_repr_def encode_entries_append)
  have u: "unat (?u + 1) = Suc (unat ?u)"
    using assms by (auto simp: wal_repr_def WAL_SYNC_BATCH_def word_less_nat_alt unat_word_ariths)
  show ?thesis
  proof (cases "WAL_SYNC_BATCH \<le> ?u + 1")
    case True
    then have "f_synced (wal_file (snd (wal_append C op w))) =
        length (f_content (wal_file (snd (wal_append C op w))))"
      and "wal_unsynced_writes (snd (wal_append C op w)) = 0"
      by (simp_all add: wal_append_def Let_def sync_all_def)
    then show ?thesis using content assms
      by (simp add: wal_repr_def WAL_SYNC_BATCH_def encode_entries_append)
  next
    case False
    then have "f_synced (wal_file (snd (wal_append C op w))) = f_synced (wal_file w)"
      and "wal_unsynced_writes (snd (wal_append C op w)) = ?u + 1"
      by (simp_all add: wal_append_def Let_def file_append_def)
    then show ?thesis using content False assms u by (auto simp: wal_repr_def not_le)
  qed
qed

lemma wal_repr_append_all:
  "wal_repr C w es \<Longrightarrow>
     wal_repr C (wal_append_all C ops w) (es @ number_from (wal_lsn w) ops)"
proof (induction ops arbitrary: w es)
  case Nil
  then show ?case by simp
next
  case (Cons op ops)
  from Cons.IH [OF wal_repr_append [OF Cons.prems, of op]] show ?case by simp
qed

lemma wal_repr_flush: "wal_repr C w es \<Longrightarrow> wal_repr C (wal_flush w) es"
  by (simp add: wal_repr_def wal_flush_def sync_all_def WAL_SYNC_BATCH_def)

lemma wal_repr_truncate: "wal_repr C (wal_truncate w) []"
  by (simp add: wal_repr_def wal_truncate_def wal_flush_def sync_all_def WAL_SYNC_BATCH_def)

lemma number_from_sorted:
  assumes "unat l + length ops < 2 ^ 64"
  shows "sorted_wrt (<) (map fst (number_from l ops))"
  using assms
proof (induction ops arbitrary: l)
  case (Cons op ops)
  have suc: "unat (l + 1) = Suc (unat l)" using Cons.prems by (simp add: unat_word_ariths)
  with Cons have "sorted_wrt (<) (map fst (number_from (l + 1) ops))" by simp
  moreover have "l + 1 < fst e" if "e \<in> set (number_from (l + 1) ops)" for e
    using number_from_lsns [OF _ that] Cons.prems suc by simp
  ultimately show ?case by simp
qed simp

lemma wal_repr_crash:
  assumes "wal_repr C w es" "\<forall>e \<in> set es. entry_ok C e" "f_synced (wal_file w) \<le> n"
  shows "\<exists>k \<le> length es. length es - k < 10 \<and>
    replay_from_bytes C (take n (f_content (wal_file w))) l = filter (\<lambda>e. l < fst e) (take k es)"
proof (intro exI conjI)
  let ?k = "whole_entries C n es" and ?u = "unat (wal_unsynced_writes w)"
  show "?k \<le> length es" by (rule whole_entries_le)
  have "length es - ?u \<le> ?k"
    using assms(1,3) by (intro whole_entries_maximal) (simp_all add: wal_repr_def)
  moreover have "?u < 10"
    using assms(1) by (simp add: wal_repr_def WAL_SYNC_BATCH_def word_less_nat_alt)
  ultimately show "length es - ?k < 10" by linarith
  show "replay_from_bytes C (take n (f_content (wal_file w))) l =
      filter (\<lambda>e. l < fst e) (take ?k es)"
    using assms(1) replay_prefix [OF assms(2)] by (simp add: wal_repr_def)
qed

lemma wal_crash_replay:
  assumes "w = wal_append_all C ops wal_fresh"
    and "length ops < 2 ^ 64"
    and "\<forall>op \<in> set ops. codec_ok C op \<and> length (ser C op) + 4 < 2 ^ 32"
    and "f_synced (wal_file w) \<le> n"
  shows "\<exists>k \<le> length ops. length ops - k < 10 \<and>
    replay_from_bytes C (take n (f_content (wal_file w))) 0 = take k (number_from 0 ops)"
proof -
  let ?es = "number_from 0 ops"
  have repr: "wal_repr C w ?es"
    using wal_repr_append_all [OF wal_repr_fresh, of C ops] assms(1) by (simp add: wal_fresh_def)
  have "\<forall>e \<in> set ?es. snd e \<in> set ops"
    using snd_number_from [of 0 ops] by (metis image_eqI list.set_map)
  then have ok: "\<forall>e \<in> set ?es. entry_ok C e"
    using assms(3) by (auto simp: entry_ok_def)
  have pos: "filter (\<lambda>e. 0 < fst e) (take k ?es) = take k ?es" for k
    using number_from_lsns [of 0 ops] assms(2)
    by (intro filter_True) (auto dest!: in_set_takeD)
  from wal_repr_crash [OF repr ok assms(4), of 0] show ?thesis
    unfolding pos length_number_from .
qed

text \<open>C34: durability of the batched log. Whatever operations were appended to a new log, a crash
  that keeps at least the synced bytes loses at most the nine last operations: replay returns all
  the others, in order and with the LSNs they were given.\<close>

theorem wal_crash_loses_less_than_a_batch:
  assumes "w = wal_append_all C ops wal_fresh"
    and "length ops < 2 ^ 64"
    and "\<forall>op \<in> set ops. codec_ok C op \<and> length (ser C op) + 4 < 2 ^ 32"
    and "f_synced (wal_file w) \<le> n"
  shows "\<exists>k \<le> length ops. length ops - k < 10 \<and>
    replay_from_bytes C (take n (f_content (wal_file w))) 0 = take k (number_from 0 ops)"
  by (rule wal_crash_replay [OF assms])

subsection \<open>Reopening\<close>

lemma read_max_lsn_entries:
  assumes "\<forall>e \<in> set es. length (ser C (snd e)) + 4 < 2 ^ 32"
  shows "read_max_lsn (encode_entries C es) m = fold max (map fst es) m"
  using assms
proof (induction es arbitrary: m)
  case Nil
  then show ?case by (simp add: read_max_lsn.simps)
next
  case (Cons e es)
  let ?n = "length (ser C (snd e))"
  have len: "unat (word_of_nat (4 + ?n) :: u32) = 4 + ?n"
    using Cons.prems by (intro body_length) simp
  have "read_max_lsn (encode_entries C (e # es)) m =
      read_max_lsn (encode_entries C es) (max m (fst e))"
    using len
    by (subst read_max_lsn.simps) (simp add: encode_wal_entry_def Let_def del: of_nat_add)
  also have "\<dots> = fold max (map fst (e # es)) m"
    using Cons by (simp add: max.commute)
  finally show ?case .
qed

lemma unat_u64_less: "unat (x :: u64) < 2 ^ 64"
  using unsigned_less [of x] by simp

lemma fold_max_number_from:
  assumes "unat l + length ops < 2 ^ 64"
  shows "fold max (map fst (number_from l ops)) l = l + word_of_nat (length ops)"
  using assms
proof (induction ops arbitrary: l)
  case Nil
  then show ?case by simp
next
  case (Cons op ops)
  have suc: "unat (l + 1) = Suc (unat l)"
    using Cons.prems by (simp add: unat_word_ariths)
  then have "max (l + 1) l = l + 1" by (simp add: max_def word_le_nat_alt)
  with Cons.IH [of "l + 1"] Cons.prems suc show ?case by (simp add: algebra_simps)
qed

text \<open>Reopening a cleanly closed log continues it: the LSN counter is the one the log had, and
  replay from the start returns every operation.\<close>

theorem wal_reopen_continues:
  assumes "w = wal_append_all C ops wal_fresh"
    and "length ops < 2 ^ 64"
    and "\<forall>op \<in> set ops. codec_ok C op \<and> length (ser C op) + 4 < 2 ^ 32"
    and "wal_open K (f_content (wal_file w)) (wal_checkpoint_file w) = Inr w'"
  shows "wal_lsn w' = wal_lsn w \<and> replay_since C w' (wal_checkpoint_lsn w') = number_from 0 ops"
proof -
  let ?es = "number_from 0 ops"
  have content: "f_content (wal_file w) = encode_entries C ?es"
    and ck: "wal_checkpoint_file w = None" and lsn: "wal_lsn w = word_of_nat (length ops)"
    using assms(1) wal_append_all_content [of C ops wal_fresh] by (simp_all add: wal_fresh_def)
  have in_ops: "\<forall>e \<in> set ?es. snd e \<in> set ops"
    using snd_number_from [of 0 ops] by (metis image_eqI list.set_map)
  have w': "wal_lsn w' = read_max_lsn (encode_entries C ?es) 0"
    "wal_checkpoint_lsn w' = 0" "f_content (wal_file w') = encode_entries C ?es"
    using assms(4) content ck by (auto simp: wal_open_def)
  have "read_max_lsn (encode_entries C ?es) 0 = fold max (map fst ?es) 0"
    using in_ops assms(3) by (intro read_max_lsn_entries) auto
  also have "\<dots> = word_of_nat (length ops)"
    using fold_max_number_from [of 0 ops] assms(2) by simp
  finally have "wal_lsn w' = wal_lsn w" using w'(1) lsn by simp
  moreover have "replay_since C w' (wal_checkpoint_lsn w') = filter (\<lambda>e. 0 < fst e) ?es"
    using replay_entries [of ?es C "[]" 0] in_ops assms(3) w'
    by (simp add: replay_since_def entry_ok_def)
  moreover have "filter (\<lambda>e. 0 < fst e) ?es = ?es"
    using number_from_lsns [of 0 ops] assms(2) by (intro filter_True) auto
  ultimately show ?thesis by simp
qed

text \<open>C39: what a checkpoint does to recovery. \<open>checkpoint\<close> stores the current LSN in
  \<open>checkpoint.bin\<close> and \<open>truncate\<close> restarts LSNs at zero, so the next records get LSNs at or below
  the stored one. When the log is opened again, replay from the stored LSN skips them: none of the
  operations logged after the checkpoint is returned, as long as there are no more of them than
  the LSN that was stored.\<close>

theorem checkpoint_hides_later_records:
  assumes "w1 = wal_truncate (mark_checkpoint K (wal_lsn w) w)"
    and "w2 = wal_append_all C ops w1"
    and "length ops \<le> unat (wal_lsn w)"
    and "\<forall>op \<in> set ops. codec_ok C op \<and> length (ser C op) + 4 < 2 ^ 32"
    and "codec_ok K (wal_lsn w)" and "ser K (wal_lsn w) \<noteq> []"
    and "wal_open K (f_content (wal_file w2)) (wal_checkpoint_file w2) = Inr w3"
  shows "replay_since C w3 (wal_checkpoint_lsn w3) = []"
proof -
  let ?es = "number_from 0 ops"
  have w1: "f_content (wal_file w1) = []" "wal_lsn w1 = 0"
    "wal_checkpoint_file w1 = Some (ser K (wal_lsn w))"
    using assms(1) by (simp_all add: wal_truncate_def mark_checkpoint_def wal_flush_def sync_all_def)
  have w2: "f_content (wal_file w2) = encode_entries C ?es"
    "wal_checkpoint_file w2 = Some (ser K (wal_lsn w))"
    using assms(2) w1 wal_append_all_content [of C ops w1] by simp_all
  have w3: "f_content (wal_file w3) = encode_entries C ?es" "wal_checkpoint_lsn w3 = wal_lsn w"
    using assms(5-7) w2 by (auto simp: wal_open_def codec_ok_def)
  have bound: "length ops < 2 ^ 64"
    using assms(3) unat_u64_less [of "wal_lsn w"] by simp
  have in_ops: "\<forall>e \<in> set ?es. snd e \<in> set ops"
    using snd_number_from [of 0 ops] by (metis image_eqI list.set_map)
  have "replay_since C w3 (wal_checkpoint_lsn w3) = filter (\<lambda>e. wal_lsn w < fst e) ?es"
    using replay_entries [of ?es C "[]" "wal_lsn w"] in_ops assms(4) w3
    by (simp add: replay_since_def entry_ok_def)
  also have "\<dots> = []"
    using number_from_lsns [of 0 ops] bound assms(3)
    by (auto simp: filter_empty_conv word_less_nat_alt not_less intro: order_trans)
  finally show ?thesis .
qed

subsection \<open>Concrete logs\<close>

text \<open>A codec for the control record \<open>Begin\<close> alone, enough to run the log on concrete input.\<close>

definition begin_codec :: "wal_op codec" where
  "begin_codec = \<lparr>ser = (\<lambda>op. case op of WBegin t \<Rightarrow> be_bytes 8 t | _ \<Rightarrow> []),
     deser = (\<lambda>bs. if length bs = 8 then Inr (WBegin (from_be_bytes bs)) else Inl ''eof'')\<rparr>"

definition lsn_codec :: "u64 codec" where
  "lsn_codec = \<lparr>ser = be_bytes 8,
     deser = (\<lambda>bs. if length bs = 8 then Inr (from_be_bytes bs) else Inl ''eof'')\<rparr>"

lemma begin_codec_ok: "codec_ok begin_codec (WBegin t) \<and> length (ser begin_codec (WBegin t)) = 8"
  by (simp add: codec_ok_def begin_codec_def)

lemma lsn_codec_ok: "codec_ok lsn_codec l \<and> length (ser lsn_codec l) = 8"
  by (simp add: codec_ok_def lsn_codec_def)

lemma two_begins_synced:
  "f_synced (wal_file (wal_append_all begin_codec [WBegin 7, WBegin 8] wal_fresh)) = 0"
  by (simp add: wal_append_def Let_def wal_fresh_def WAL_SYNC_BATCH_def file_append_def
      word_le_nat_alt)

theorem replay_returns_whole_records_witness:
  "\<exists>k \<le> length [(1 :: u64, WBegin 7), (2, WBegin 8)]. replay_from_bytes begin_codec
       (take 30 (encode_entries begin_codec [(1, WBegin 7), (2, WBegin 8)])) 0 =
     filter (\<lambda>e. 0 < fst e) (take k [(1, WBegin 7), (2, WBegin 8)])
   \<and> (\<forall>j \<le> length [(1 :: u64, WBegin 7), (2, WBegin 8)].
        length (encode_entries begin_codec (take j [(1, WBegin 7), (2, WBegin 8)])) \<le> 30
        \<longleftrightarrow> j \<le> k)"
  by (rule replay_returns_whole_records) (simp add: entry_ok_def begin_codec_ok)

theorem wal_crash_loses_less_than_a_batch_witness:
  "\<exists>k \<le> length [WBegin 7, WBegin 8]. length [WBegin 7, WBegin 8] - k < 10 \<and>
     replay_from_bytes begin_codec
       (take 30 (f_content (wal_file (wal_append_all begin_codec [WBegin 7, WBegin 8] wal_fresh)))) 0
     = take k (number_from 0 [WBegin 7, WBegin 8])"
  by (rule wal_crash_loses_less_than_a_batch [OF refl])
    (simp_all add: begin_codec_ok two_begins_synced del: wal_append_all.simps)

theorem wal_reopen_continues_witness:
  "\<exists>w'. wal_open lsn_codec (f_content (wal_file (wal_append_all begin_codec [WBegin 7] wal_fresh)))
      None = Inr w' \<and> wal_lsn w' = 1 \<and>
    replay_since begin_codec w' (wal_checkpoint_lsn w') = [(1, WBegin 7)]"
proof -
  let ?w = "wal_append_all begin_codec [WBegin 7] wal_fresh"
  have lsn: "wal_lsn ?w = 1" "wal_checkpoint_file ?w = None" by (simp_all add: wal_fresh_def)
  obtain w' where w': "wal_open lsn_codec (f_content (wal_file ?w)) None = Inr w'"
    by (simp add: wal_open_def)
  with wal_reopen_continues [of ?w begin_codec "[WBegin 7]" lsn_codec w'] lsn show ?thesis
    by (simp add: begin_codec_ok)
qed

theorem checkpoint_hides_later_records_witness:
  "\<exists>w3. wal_open lsn_codec
      (f_content (wal_file (wal_append_all begin_codec [WBegin 9]
        (wal_truncate (mark_checkpoint lsn_codec 5 (wal_fresh\<lparr>wal_lsn := 5\<rparr>))))))
      (Some (ser lsn_codec 5)) = Inr w3
    \<and> replay_since begin_codec w3 (wal_checkpoint_lsn w3) = []"
proof -
  let ?w = "wal_fresh\<lparr>wal_lsn := 5\<rparr>"
  let ?w1 = "wal_truncate (mark_checkpoint lsn_codec (wal_lsn ?w) ?w)"
  let ?w2 = "wal_append_all begin_codec [WBegin 9] ?w1"
  have ck: "wal_checkpoint_file ?w2 = Some (ser lsn_codec 5)"
    by (simp add: wal_truncate_def mark_checkpoint_def wal_flush_def)
  have ne: "ser lsn_codec 5 \<noteq> []"
    using lsn_codec_ok [of 5] by auto
  obtain w3 where w3: "wal_open lsn_codec (f_content (wal_file ?w2)) (wal_checkpoint_file ?w2) = Inr w3"
    unfolding ck using lsn_codec_ok [of 5] ne by (auto simp: wal_open_def codec_ok_def)
  have "replay_since begin_codec w3 (wal_checkpoint_lsn w3) = []"
    by (rule checkpoint_hides_later_records [OF refl refl _ _ _ _ w3])
      (use lsn_codec_ok ne begin_codec_ok in simp_all)
  then show ?thesis using w3 unfolding ck by simp
qed

end
