(* ===== verification/Pages.thy ===== *)
theory Pages
  imports Types
begin

text \<open>
  \<open>moodeng-core/src/page_table.rs\<close>: a table kept in a memory-mapped file of fixed-size page slots
  behind an LRU cache of decoded pages. The file is its length and a byte at every offset (zero past
  the end), so that slots of 64 KiB stay cheap to evaluate. The file and the mapping always have the
  same bytes, so they are one field. \<open>usize\<close> sizes and offsets are natural numbers, page ids and row
  ids keep their widths. Encoding of page bodies and of the header (\<open>bincode\<close>) are parameters.
\<close>

subsection \<open>The page cache\<close>

type_synonym page_body = "(u64 \<times> row) list"

record lru_cache =
  lru_max_pages :: nat
  lru_pages :: "(u32 \<times> page_body) list"
  lru_order :: "u32 list"

definition lru_new :: "nat \<Rightarrow> lru_cache" where
  "lru_new max_pages = \<lparr>lru_max_pages = max_pages, lru_pages = [], lru_order = []\<rparr>"

definition lru_len :: "lru_cache \<Rightarrow> nat" where
  "lru_len c = length (lru_pages c)"

definition lru_touch :: "u32 \<Rightarrow> lru_cache \<Rightarrow> lru_cache" where
  "lru_touch page_id c = c\<lparr>lru_order :=
     (case position (\<lambda>p. p = page_id) (lru_order c) of
        None \<Rightarrow> lru_order c
      | Some pos \<Rightarrow> take pos (lru_order c) @ drop (Suc pos) (lru_order c)) @ [page_id]\<rparr>"

definition lru_get :: "u32 \<Rightarrow> lru_cache \<Rightarrow> page_body option \<times> lru_cache" where
  "lru_get page_id c =
     (if map_of (lru_pages c) page_id = None then (None, c)
      else let c' = lru_touch page_id c in (map_of (lru_pages c') page_id, c'))"

fun lru_evict :: "nat \<Rightarrow> u32 list \<Rightarrow> (u32 \<times> page_body) list \<Rightarrow>
    u32 list \<times> (u32 \<times> page_body) list" where
  "lru_evict max_pages [] pages = ([], pages)"
| "lru_evict max_pages (p # ps) pages =
     (if max_pages \<le> length pages then lru_evict max_pages ps (AList.delete p pages)
      else (p # ps, pages))"

definition lru_insert :: "u32 \<Rightarrow> page_body \<Rightarrow> lru_cache \<Rightarrow> lru_cache" where
  "lru_insert page_id body c =
     (if map_of (lru_pages c) page_id \<noteq> None
      then lru_touch page_id (c\<lparr>lru_pages := AList.update page_id body (lru_pages c)\<rparr>)
      else let (order, pages) = lru_evict (lru_max_pages c) (lru_order c) (lru_pages c)
           in lru_touch page_id
                (c\<lparr>lru_order := order, lru_pages := AList.update page_id body pages\<rparr>))"

subsection \<open>The file\<close>

record page_file =
  pf_len :: nat
  pf_at :: "nat \<Rightarrow> u8"

definition pf_empty :: page_file where
  "pf_empty = \<lparr>pf_len = 0, pf_at = (\<lambda>_. 0)\<rparr>"

definition pf_set_len :: "nat \<Rightarrow> page_file \<Rightarrow> page_file" where
  "pf_set_len n f = \<lparr>pf_len = n, pf_at = (\<lambda>i. if i < min n (pf_len f) then pf_at f i else 0)\<rparr>"

definition pf_read :: "nat \<Rightarrow> nat \<Rightarrow> page_file \<Rightarrow> bytes" where
  "pf_read off n f = map (\<lambda>i. pf_at f (off + i)) [0..<n]"

definition pf_write :: "nat \<Rightarrow> bytes \<Rightarrow> page_file \<Rightarrow> page_file" where
  "pf_write off bs f =
     f\<lparr>pf_at := (\<lambda>i. if off \<le> i \<and> i < off + length bs then bs ! (i - off) else pf_at f i)\<rparr>"

definition pf_fill0 :: "nat \<Rightarrow> nat \<Rightarrow> page_file \<Rightarrow> page_file" where
  "pf_fill0 off n f = f\<lparr>pf_at := (\<lambda>i. if off \<le> i \<and> i < off + n then 0 else pf_at f i)\<rparr>"

subsection \<open>The table\<close>

definition DEFAULT_ROWS_PER_PAGE :: u64 where "DEFAULT_ROWS_PER_PAGE = 16"
definition PAGE_SLOT_BYTES :: nat where "PAGE_SLOT_BYTES = 65536"

text \<open>\<open>size_of::<PageFileHeader>()\<close>: a \<open>u64\<close> and a \<open>u32\<close>, padded to the alignment.\<close>

definition HEADER_SIZE :: nat where "HEADER_SIZE = 16"

record page_header =
  ph_next_id :: u64
  ph_page_count :: u32

record page_codecs =
  body_codec :: "page_body codec"
  header_codec :: "page_header codec"

record page_table =
  pt_rows_per_page :: u64
  pt_max_pages :: nat
  pt_next_id :: u64
  pt_page_count :: u32
  pt_cache :: lru_cache
  pt_mmap :: bool
  pt_file :: page_file

definition pt_page_id :: "u64 \<Rightarrow> u64 \<Rightarrow> u32" where
  "pt_page_id row_id rows_per_page = ucast ((row_id - 1) div rows_per_page)"

definition file_size_for_pages :: "u32 \<Rightarrow> nat" where
  "file_size_for_pages page_count = HEADER_SIZE + PAGE_SLOT_BYTES * unat (max page_count 1)"

definition slot_offset :: "u32 \<Rightarrow> nat" where
  "slot_offset page_id = HEADER_SIZE + PAGE_SLOT_BYTES * unat page_id"

definition ensure_mmap :: "page_table \<Rightarrow> page_table" where
  "ensure_mmap t =
     (if pt_mmap t then t
      else let min_size = file_size_for_pages (max (pt_page_count t) 1);
               f = pt_file t
           in t\<lparr>pt_file := (if pf_len f < min_size then pf_set_len min_size f else f),
                pt_mmap := True\<rparr>)"

definition read_header :: "page_codecs \<Rightarrow> page_file \<Rightarrow> page_header res" where
  "read_header C f =
     (if pf_len f < HEADER_SIZE then Inr \<lparr>ph_next_id = 1, ph_page_count = 0\<rparr>
      else (case deser (header_codec C) (pf_read 0 HEADER_SIZE f) of
              Inl e \<Rightarrow> Inl (StorageError e) | Inr h \<Rightarrow> Inr h))"

definition pt_open :: "page_codecs \<Rightarrow> page_file option \<Rightarrow> nat \<Rightarrow> u64 \<Rightarrow> page_table res" where
  "pt_open C file max_pages rows_per_page =
     rbind (case file of
              Some f \<Rightarrow> rbind (read_header C f) (\<lambda>h. Inr (ph_next_id h, ph_page_count h))
            | None \<Rightarrow> Inr (1, 0))
       (\<lambda>(next_id, page_count). Inr (ensure_mmap
          \<lparr>pt_rows_per_page = rows_per_page, pt_max_pages = max_pages, pt_next_id = next_id,
           pt_page_count = page_count, pt_cache = lru_new max_pages, pt_mmap = False,
           pt_file = (case file of Some f \<Rightarrow> f | None \<Rightarrow> pf_empty)\<rparr>))"

definition write_header :: "page_codecs \<Rightarrow> page_table \<Rightarrow> page_table" where
  "write_header C t =
     (let t' = ensure_mmap t
      in t'\<lparr>pt_file := pf_write 0
              (ser (header_codec C) \<lparr>ph_next_id = pt_next_id t, ph_page_count = pt_page_count t\<rparr>)
              (pt_file t')\<rparr>)"

text \<open>The read of a slot behind a cache miss; \<open>None\<close> is an empty page, which is not cached.\<close>

definition read_slot :: "page_codecs \<Rightarrow> page_file \<Rightarrow> u32 \<Rightarrow> page_body option res" where
  "read_slot C f page_id =
     (let offset = slot_offset page_id in
      if pf_len f < offset + 4 then Inr None
      else let len = unat (from_le_bytes (pf_read offset 4 f) :: u32)
           in if len = 0 \<or> pf_len f < offset + 4 + len then Inr None
              else (case deser (body_codec C) (pf_read (offset + 4) len f) of
                      Inl e \<Rightarrow> Inl (StorageError e) | Inr b \<Rightarrow> Inr (Some b)))"

definition load_page :: "page_codecs \<Rightarrow> u32 \<Rightarrow> (moodeng_error, page_table, page_body) op" where
  "load_page C page_id t =
     (case lru_get page_id (pt_cache t) of
        (Some body, c) \<Rightarrow> (Inr body, t\<lparr>pt_cache := c\<rparr>)
      | (None, c) \<Rightarrow>
          let t1 = ensure_mmap (t\<lparr>pt_cache := c\<rparr>)
          in (case read_slot C (pt_file t1) page_id of
                Inl e \<Rightarrow> (Inl e, t1)
              | Inr None \<Rightarrow> (Inr [], t1)
              | Inr (Some body) \<Rightarrow>
                  (Inr body, t1\<lparr>pt_cache := lru_insert page_id body (pt_cache t1)\<rparr>)))"

definition store_page :: "page_codecs \<Rightarrow> u32 \<Rightarrow> page_body \<Rightarrow> (moodeng_error, page_table, unit) op" where
  "store_page C page_id body t =
     (if pt_page_count t \<le> page_id
      then (Inl (StorageError (''page '' @ show_nat (unat page_id) @ '' out of range'')), t)
      else let t1 = ensure_mmap t; encoded = ser (body_codec C) body
           in if PAGE_SLOT_BYTES < length encoded + 4 then (Inl (StorageError ''page overflow''), t1)
              else let offset = slot_offset page_id;
                       f1 = pf_fill0 offset PAGE_SLOT_BYTES (pt_file t1);
                       f2 = pf_write offset (le_bytes 4 (word_of_nat (length encoded) :: u32)) f1;
                       f3 = pf_write (offset + 4) encoded f2
                   in (Inr (), t1\<lparr>pt_file := f3,
                                 pt_cache := lru_insert page_id body (pt_cache t1)\<rparr>))"

definition grow_if_needed :: "page_codecs \<Rightarrow> u32 \<Rightarrow> page_table \<Rightarrow> page_table" where
  "grow_if_needed C page_id t =
     (if page_id < pt_page_count t then t
      else let new_count = page_id + 1
           in write_header C (ensure_mmap
                (t\<lparr>pt_mmap := False, pt_file := pf_set_len (file_size_for_pages new_count) (pt_file t),
                   pt_page_count := new_count\<rparr>)))"

definition put_row :: "page_codecs \<Rightarrow> u64 \<Rightarrow> row \<Rightarrow> (moodeng_error, page_table, unit) op" where
  "put_row C row_id r t =
     (let page_id = pt_page_id row_id (pt_rows_per_page t)
      in sbind (load_page C page_id) (\<lambda>body.
           store_page C page_id (AList.update row_id r body)) (grow_if_needed C page_id t))"

definition pt_insert :: "page_codecs \<Rightarrow> row \<Rightarrow> (moodeng_error, page_table, u64) op" where
  "pt_insert C r t =
     (let i = pt_next_id t
      in sbind (put_row C i r) (\<lambda>_ t'. (Inr i, write_header C t')) (t\<lparr>pt_next_id := i + 1\<rparr>))"

definition pt_apply_insert :: "page_codecs \<Rightarrow> u64 \<Rightarrow> row \<Rightarrow> (moodeng_error, page_table, unit) op" where
  "pt_apply_insert C row_id r t =
     sbind (put_row C row_id r) (\<lambda>_ t'. (Inr (), write_header C t'))
       (if pt_next_id t \<le> row_id then t\<lparr>pt_next_id := row_id + 1\<rparr> else t)"

definition pt_import_rows :: "page_codecs \<Rightarrow> u64 \<Rightarrow> page_body \<Rightarrow> (moodeng_error, page_table, unit) op" where
  "pt_import_rows C next_id rows t =
     sbind (sfold (\<lambda>(i, r) _. put_row C i r) rows ()) (\<lambda>_ t'. (Inr (), write_header C t'))
       (t\<lparr>pt_next_id := next_id\<rparr>)"

definition pt_get :: "page_codecs \<Rightarrow> u64 \<Rightarrow> (moodeng_error, page_table, row option) op" where
  "pt_get C row_id t =
     (let page_id = pt_page_id row_id (pt_rows_per_page t)
      in if pt_page_count t \<le> page_id then (Inr None, t)
         else sbind (load_page C page_id) (\<lambda>body. sret (map_of body row_id)) t)"

text \<open>The page ids of the loop \<open>0..page_count\<close>.\<close>

definition page_ids :: "page_table \<Rightarrow> u32 list" where
  "page_ids t = map word_of_nat [0..<unat (pt_page_count t)]"

definition pt_scan :: "page_codecs \<Rightarrow> (moodeng_error, page_table, (u64 \<times> row) list) op" where
  "pt_scan C t =
     sbind (sfold (\<lambda>p acc. sbind (load_page C p) (\<lambda>body. sret (acc @ body))) (page_ids t) [])
       (\<lambda>rows. sret (sort_key fst rows)) t"

definition pt_row_count :: "page_codecs \<Rightarrow> page_table \<Rightarrow> u64 \<times> page_table" where
  "pt_row_count C t =
     fold (\<lambda>p (n, t). case load_page C p t of
              (Inr body, t') \<Rightarrow> (n + word_of_nat (length body), t')
            | (Inl _, t') \<Rightarrow> (n, t')) (page_ids t) (0, t)"

definition pt_update :: "page_codecs \<Rightarrow> u64 \<Rightarrow> row \<Rightarrow> (moodeng_error, page_table, bool) op" where
  "pt_update C row_id r t =
     (let page_id = pt_page_id row_id (pt_rows_per_page t)
      in if pt_page_count t \<le> page_id then (Inr False, t)
         else sbind (load_page C page_id) (\<lambda>body.
                if map_of body row_id \<noteq> None
                then sbind (store_page C page_id (AList.update row_id r body)) (\<lambda>_. sret True)
                else sret False) t)"

definition pt_delete :: "page_codecs \<Rightarrow> u64 \<Rightarrow> (moodeng_error, page_table, bool) op" where
  "pt_delete C row_id t =
     (let page_id = pt_page_id row_id (pt_rows_per_page t)
      in if pt_page_count t \<le> page_id then (Inr False, t)
         else sbind (load_page C page_id) (\<lambda>body.
                if map_of body row_id \<noteq> None
                then sbind (store_page C page_id (AList.delete row_id body)) (\<lambda>_. sret True)
                else sret False) t)"

definition pt_flush_all :: "page_codecs \<Rightarrow> page_table \<Rightarrow> page_table" where
  "pt_flush_all C t = write_header C t"

definition pt_cache_len :: "page_table \<Rightarrow> nat" where
  "pt_cache_len t = lru_len (pt_cache t)"

subsection \<open>The cache keeps the most recently used pages\<close>

definition lru_wf :: "lru_cache \<Rightarrow> bool" where
  "lru_wf c \<longleftrightarrow> distinct (lru_order c) \<and> distinct (map fst (lru_pages c))
     \<and> set (lru_order c) = fst ` set (lru_pages c)
     \<and> length (lru_pages c) \<le> max 1 (lru_max_pages c)"

lemma position_remove1:
  "(case position (\<lambda>p. p = x) xs of None \<Rightarrow> xs | Some i \<Rightarrow> take i xs @ drop (Suc i) xs) = remove1 x xs"
proof (induction xs)
  case (Cons a xs)
  then show ?case by (cases "a = x"; cases "position (\<lambda>p. p = x) xs")
    (auto simp del: position_None_iff)
qed simp

lemma lru_touch_eq: "lru_touch p c = c\<lparr>lru_order := remove1 p (lru_order c) @ [p]\<rparr>"
  by (simp add: lru_touch_def position_remove1)

lemma length_keys:
  "distinct (map fst m) \<Longrightarrow> distinct ks \<Longrightarrow> set ks = fst ` set m \<Longrightarrow> length m = length ks"
  using distinct_card [of ks] distinct_card [of "map fst m"] by simp

lemma lru_wf_length: "lru_wf c \<Longrightarrow> length (lru_order c) = length (lru_pages c)"
  using length_keys [of "lru_pages c" "lru_order c"] by (simp add: lru_wf_def)

lemma lru_wf_mem: "lru_wf c \<Longrightarrow> p \<in> set (lru_order c) \<longleftrightarrow> map_of (lru_pages c) p \<noteq> None"
  by (simp add: lru_wf_def map_of_eq_None_iff)

lemma lru_wf_new [simp]: "lru_wf (lru_new n)"
  by (simp add: lru_wf_def lru_new_def)

lemma lru_wf_touch:
  assumes "distinct (lru_order c)" "distinct (map fst (lru_pages c))"
    and "insert p (set (lru_order c)) = fst ` set (lru_pages c)"
    and "length (lru_pages c) \<le> max 1 (lru_max_pages c)"
  shows "lru_wf (lru_touch p c)"
  using assms by (auto simp: lru_touch_eq lru_wf_def)

lemma lru_get_wf:
  assumes "lru_wf c"
  shows "lru_wf (snd (lru_get p c))" "fst (lru_get p c) = map_of (lru_pages c) p"
    "lru_pages (snd (lru_get p c)) = lru_pages c"
proof -
  have "lru_wf (lru_touch p c)" if "map_of (lru_pages c) p \<noteq> None"
    using assms that lru_wf_mem [of c p] by (intro lru_wf_touch) (auto simp: lru_wf_def)
  then show "lru_wf (snd (lru_get p c))" "fst (lru_get p c) = map_of (lru_pages c) p"
    "lru_pages (snd (lru_get p c)) = lru_pages c"
    using assms by (auto simp: lru_get_def Let_def lru_touch_eq)
qed

text \<open>Eviction drops pages from the front of the order, one when the cache is full.\<close>

lemma lru_evict_drop:
  assumes "distinct order" "distinct (map fst pages)" "set order = fst ` set pages"
  shows "\<exists>k. fst (lru_evict n order pages) = drop k order
    \<and> k = Suc (length order) - max 1 n
    \<and> snd (lru_evict n order pages) = filter (\<lambda>e. fst e \<in> set (drop k order)) pages"
  using assms
proof (induction n order pages rule: lru_evict.induct)
  case (1 n pages)
  then show ?case by auto
next
  case (2 n p ps pages)
  have len: "length pages = Suc (length ps)"
    using length_keys [OF 2(3,2,4)] by simp
  have keys: "set ps = fst ` set (AList.delete p pages)"
    using 2(2,4) arg_cong [OF delete_keys [of p pages], of set] by auto
  show ?case
  proof (cases "n \<le> length pages")
    case True
    from 2(1) [OF True _ distinct_delete keys] 2(2,3) obtain k where
      k: "fst (lru_evict n ps (AList.delete p pages)) = drop k ps" "k = Suc (length ps) - max 1 n"
        "snd (lru_evict n ps (AList.delete p pages)) =
           filter (\<lambda>e. fst e \<in> set (drop k ps)) (AList.delete p pages)"
      by auto
    have "p \<notin> set (drop k ps)" using 2(2) by (auto dest: in_set_dropD)
    then have "filter (\<lambda>e. fst e \<in> set (drop k ps)) (AList.delete p pages) =
        filter (\<lambda>e. fst e \<in> set (drop k ps)) pages"
      by (auto simp: AList.delete_eq intro!: filter_cong)
    then show ?thesis using True k len by (intro exI [of _ "Suc k"]) auto
  next
    case False
    have "filter (\<lambda>e. fst e \<in> set (p # ps)) pages = pages"
      using 2(4) by (intro filter_True) auto
    then show ?thesis using False len by (intro exI [of _ 0]) auto
  qed
qed

lemma lru_insert_new:
  assumes "lru_wf c" "map_of (lru_pages c) p = None" "k = Suc (length (lru_order c)) - max 1 (lru_max_pages c)"
  shows "lru_wf (lru_insert p b c)"
    and "lru_order (lru_insert p b c) = drop k (lru_order c) @ [p]"
    and "map_of (lru_pages (lru_insert p b c)) q =
      (if q = p then Some b else if q \<in> set (drop k (lru_order c)) then map_of (lru_pages c) q else None)"
proof -
  let ?keep = "filter (\<lambda>e. fst e \<in> set (drop k (lru_order c))) (lru_pages c)"
  have ev: "lru_evict (lru_max_pages c) (lru_order c) (lru_pages c) = (drop k (lru_order c), ?keep)"
    using lru_evict_drop [of "lru_order c" "lru_pages c" "lru_max_pages c"] assms(1,3)
    by (auto simp: lru_wf_def prod_eq_iff)
  have notin: "p \<notin> set (lru_order c)" using lru_wf_mem [OF assms(1)] assms(2) by simp
  then have notin': "p \<notin> set (drop k (lru_order c))" by (auto dest: in_set_dropD)
  have keys: "fst ` set ?keep = set (drop k (lru_order c))"
    using assms(1) set_drop_subset [of k "lru_order c"] by (force simp: lru_wf_def)
  have dist: "distinct (map fst ?keep)" "distinct (drop k (lru_order c))"
    using assms(1) by (auto simp: lru_wf_def distinct_map_filter)
  have len: "length ?keep = length (drop k (lru_order c))"
    using dist keys by (intro length_keys) simp_all
  have bound: "Suc (length (drop k (lru_order c))) \<le> max 1 (lru_max_pages c)"
    using assms(3) by (simp add: max_def split: if_splits)
  have upd: "AList.update p b ?keep = ?keep @ [(p, b)]"
    using keys notin' by (intro length_update_None) (auto simp: map_of_eq_None_iff)
  have ins: "lru_insert p b c =
      lru_touch p (c\<lparr>lru_order := drop k (lru_order c), lru_pages := ?keep @ [(p, b)]\<rparr>)"
    using assms(2) ev upd by (simp add: lru_insert_def)
  show "lru_order (lru_insert p b c) = drop k (lru_order c) @ [p]"
    using notin' by (simp add: ins lru_touch_eq remove1_idem)
  show "lru_wf (lru_insert p b c)"
    unfolding ins using dist keys len notin' bound by (intro lru_wf_touch) auto
  show "map_of (lru_pages (lru_insert p b c)) q =
      (if q = p then Some b else if q \<in> set (drop k (lru_order c)) then map_of (lru_pages c) q else None)"
    using notin' unfolding ins lru_touch_eq
    by (simp add: map_add_Some_iff map_of_filter_key [where P = "\<lambda>q. q \<in> set (drop k (lru_order c))"]
        map_add_def split: option.splits)
qed

lemma lru_insert_hit:
  assumes "lru_wf c" "map_of (lru_pages c) p \<noteq> None"
  shows "lru_wf (lru_insert p b c)"
    and "lru_order (lru_insert p b c) = remove1 p (lru_order c) @ [p]"
    and "map_of (lru_pages (lru_insert p b c)) = (map_of (lru_pages c))(p \<mapsto> b)"
proof -
  have ins: "lru_insert p b c = lru_touch p (c\<lparr>lru_pages := AList.update p b (lru_pages c)\<rparr>)"
    using assms(2) by (simp add: lru_insert_def)
  have keys: "fst ` set (AList.update p b (lru_pages c)) = fst ` set (lru_pages c)"
    using assms(2) by (simp add: dom_update map_of_eq_None_iff insert_absorb)
  have dist: "distinct (map fst (AList.update p b (lru_pages c)))"
    using assms(1) by (simp add: lru_wf_def distinct_update)
  have len: "length (AList.update p b (lru_pages c)) = length (lru_pages c)"
    using length_keys [OF dist, of "map fst (lru_pages c)"] keys assms(1) by (simp add: lru_wf_def)
  have "p \<in> fst ` set (lru_pages c)" using assms(2) by (simp add: map_of_eq_None_iff)
  then show "lru_wf (lru_insert p b c)"
    unfolding ins using assms keys dist len by (intro lru_wf_touch) (auto simp: lru_wf_def)
  show "lru_order (lru_insert p b c) = remove1 p (lru_order c) @ [p]"
    "map_of (lru_pages (lru_insert p b c)) = (map_of (lru_pages c))(p \<mapsto> b)"
    by (simp_all add: ins lru_touch_eq update_conv')
qed

lemma lru_insert_wf: "lru_wf c \<Longrightarrow> lru_wf (lru_insert p b c)"
  using lru_insert_hit(1) lru_insert_new(1) by blast

lemma lru_insert_lookup:
  assumes "lru_wf c" "map_of (lru_pages (lru_insert p b c)) q = Some b'"
  shows "if q = p then b' = b else map_of (lru_pages c) q = Some b'"
proof (cases "map_of (lru_pages c) p")
  case None
  then show ?thesis using assms lru_insert_new(3) [OF assms(1) None refl, of b q] by (auto split: if_splits)
next
  case (Some b0)
  then show ?thesis using assms lru_insert_hit(3) [OF assms(1), of p b] by (auto split: if_splits)
qed

subsection \<open>Runs of the cache\<close>

datatype lru_op = LGet u32 | LPut u32 page_body

fun lru_step :: "lru_op \<Rightarrow> lru_cache \<Rightarrow> lru_cache" where
  "lru_step (LGet p) c = snd (lru_get p c)"
| "lru_step (LPut p b) c = lru_insert p b c"

text \<open>The specification, which knows no cache: \<open>uses cap ops\<close> lists all pages ever used, the one used last
  first. Storing a page uses it, and so does reading one that is among the \<open>cap\<close> pages used last;
  \<open>stored ops p\<close> is what was stored last under \<open>p\<close>.\<close>

definition use_page :: "u32 \<Rightarrow> u32 list \<Rightarrow> u32 list" where
  "use_page p R = p # removeAll p R"

fun use_step :: "nat \<Rightarrow> lru_op \<Rightarrow> u32 list \<Rightarrow> u32 list" where
  "use_step cap (LGet p) R = (if p \<in> set (take cap R) then use_page p R else R)"
| "use_step cap (LPut p b) R = use_page p R"

definition uses :: "nat \<Rightarrow> lru_op list \<Rightarrow> u32 list" where
  "uses cap ops = fold (use_step cap) ops []"

definition stored :: "lru_op list \<Rightarrow> u32 \<rightharpoonup> page_body" where
  "stored ops = fold (\<lambda>e B. case e of LGet _ \<Rightarrow> B | LPut p b \<Rightarrow> B(p \<mapsto> b)) ops Map.empty"

lemma uses_simps [simp]: "uses cap [] = []" "uses cap (ops @ [e]) = use_step cap e (uses cap ops)"
  by (simp_all add: uses_def)

lemma stored_simps [simp]: "stored [] = Map.empty" "stored (ops @ [LGet p]) = stored ops"
  "stored (ops @ [LPut p b]) = (stored ops)(p \<mapsto> b)"
  by (simp_all add: stored_def)

lemma use_step_distinct: "distinct R \<Longrightarrow> distinct (use_step cap e R)"
  by (cases e) (auto simp: use_page_def distinct_removeAll)

lemma uses_distinct: "distinct (uses cap ops)"
  by (induction ops rule: rev_induct) (simp_all add: use_step_distinct)

lemma take_removeAll:
  "distinct R \<Longrightarrow> take n (removeAll p R) = (if p \<in> set (take (Suc n) R) then removeAll p (take (Suc n) R) else take n R)"
proof (induction R arbitrary: n)
  case (Cons q R)
  have "removeAll q (take n R) = take n R" for n using Cons.prems by (intro removeAll_id) (auto dest: in_set_takeD)
  then show ?case using Cons by (cases n) (auto dest: in_set_takeD)
qed simp

lemma take_use_page:
  assumes "distinct R" "0 < cap"
  shows "take cap (use_page p R) =
    p # (if p \<in> set (take cap R) then removeAll p (take cap R) else take (cap - 1) R)"
  using assms take_removeAll [OF assms(1), of "cap - 1" p] by (cases cap) (auto simp: use_page_def)

lemma lru_max_pages_step: "lru_max_pages (lru_step e c) = lru_max_pages c"
  by (cases e) (auto simp: lru_get_def lru_insert_def lru_touch_eq Let_def split: prod.splits)

lemma lru_step_wf: "lru_wf c \<Longrightarrow> lru_wf (lru_step e c)"
  by (cases e) (simp_all add: lru_get_wf(1) lru_insert_wf)

lemma lru_step_order:
  assumes "lru_wf c" "distinct R" "rev (lru_order c) = take (max 1 (lru_max_pages c)) R"
  shows "rev (lru_order (lru_step e c)) = take (max 1 (lru_max_pages c)) (use_step (max 1 (lru_max_pages c)) e R)"
proof -
  let ?cap = "max 1 (lru_max_pages c)"
  have mem: "map_of (lru_pages c) p \<noteq> None \<longleftrightarrow> p \<in> set (take ?cap R)" for p
    using lru_wf_mem [OF assms(1), of p] assms(3) by (metis set_rev)
  have dist: "distinct (lru_order c)" using assms(1) by (simp add: lru_wf_def)
  have hit: "rev (remove1 p (lru_order c) @ [p]) = take ?cap (use_page p R)" if "p \<in> set (take ?cap R)" for p
    using that take_use_page [OF assms(2), of ?cap p] assms(3) dist
    by (simp add: distinct_remove1_removeAll flip: rev_filter removeAll_filter_not_eq) (simp add: removeAll_filter_not_eq rev_filter)
  show ?thesis
  proof (cases e)
    case (LGet p)
    then show ?thesis using mem [of p] hit [of p] assms(3) by (auto simp: lru_get_def Let_def lru_touch_eq)
  next
    case (LPut p b)
    show ?thesis
    proof (cases "map_of (lru_pages c) p")
      case None
      let ?k = "Suc (length (lru_order c)) - ?cap"
      have len: "length (lru_order c) = min ?cap (length R)" using arg_cong [OF assms(3), of length] by simp
      have "rev (drop ?k (lru_order c)) = take (?cap - 1) R"
        using assms(3) len by (auto simp: rev_drop min_def)
      then show ?thesis
        using LPut None mem [of p] lru_insert_new(2) [OF assms(1) None refl, of b] take_use_page [OF assms(2), of ?cap p] by auto
    next
      case (Some b0)
      then show ?thesis using LPut mem [of p] hit [of p] lru_insert_hit(2) [OF assms(1), of p b] by auto
    qed
  qed
qed

lemma lru_step_lookup:
  assumes "lru_wf c" "map_of (lru_pages (lru_step e c)) q = Some b"
  shows "case e of LGet p \<Rightarrow> map_of (lru_pages c) q = Some b | LPut p b' \<Rightarrow> if q = p then b = b' else map_of (lru_pages c) q = Some b"
  using assms lru_insert_lookup lru_get_wf(3) by (cases e) fastforce+

text \<open>C37: The page cache is a least-recently-used cache. After any run of reads and stores on a new cache of
  \<open>n\<close> pages, it holds exactly the \<open>max 1 n\<close> pages used last (reading a cached page and storing a page are
  uses), in the order of their last use, reading one gives the body stored last under its number, and
  reading any other page finds nothing.\<close>

theorem lru_holds_most_recent:
  "rev (lru_order (fold lru_step ops (lru_new n))) = take (max 1 n) (uses (max 1 n) ops)
   \<and> fst (lru_get p (fold lru_step ops (lru_new n))) = (if p \<in> set (take (max 1 n) (uses (max 1 n) ops)) then stored ops p else None)
   \<and> lru_len (fold lru_step ops (lru_new n)) = min (max 1 n) (length (uses (max 1 n) ops))"
proof -
  let ?c = "\<lambda>ops. fold lru_step ops (lru_new n)" and ?cap = "max 1 n"
  have wf: "lru_wf (?c ops)" for ops by (induction ops rule: rev_induct) (simp_all add: lru_step_wf)
  have max: "lru_max_pages (?c ops) = n" for ops
    by (induction ops rule: rev_induct) (simp_all add: lru_max_pages_step lru_new_def)
  have order: "rev (lru_order (?c ops)) = take ?cap (uses ?cap ops)" for ops
  proof (induction ops rule: rev_induct)
    case (snoc e ops)
    then show ?case using lru_step_order [OF wf uses_distinct [of ?cap ops], of ops e] max [of ops] by simp
  qed (simp add: lru_new_def)
  have body: "map_of (lru_pages (?c ops)) p = Some b \<Longrightarrow> stored ops p = Some b" for ops b
  proof (induction ops arbitrary: b rule: rev_induct)
    case (snoc e ops)
    then show ?case using lru_step_lookup [OF wf, of e ops p b] by (cases e) (auto split: if_splits)
  qed (simp add: lru_new_def)
  have "map_of (lru_pages (?c ops)) p \<noteq> None \<longleftrightarrow> p \<in> set (take ?cap (uses ?cap ops))"
    using lru_wf_mem [OF wf, of p ops] order [of ops] by (metis set_rev)
  then have "map_of (lru_pages (?c ops)) p = (if p \<in> set (take ?cap (uses ?cap ops)) then stored ops p else None)"
    using body [of ops] by (cases "map_of (lru_pages (?c ops)) p") auto
  moreover have "lru_len (?c ops) = min ?cap (length (uses ?cap ops))"
    using lru_wf_length [OF wf, of ops] arg_cong [OF order [of ops], of length] by (simp add: lru_len_def min.commute)
  ultimately show ?thesis using order [of ops] lru_get_wf(2) [OF wf, of p ops] by simp
qed

end
