(* ===== verification/Row_Store.thy ===== *)
theory Row_Store
  imports Types
begin

text \<open>
  The contract between the storage engine and the table backends of \<open>storage.rs\<close>: a store of rows by
  id, seen as a map. The in-memory table (theory \<open>Storage\<close>), the page table (theory \<open>Page_Store\<close>) and
  the backend enum that holds either (theory \<open>Storage\<close>) are interpretations. Operations may fail and
  may change caches, so each law speaks about the state it leaves; a failed operation keeps the rows.
\<close>

text \<open>The loop of \<open>fetch_by_ids\<close>: the rows that exist, in the order of the ids.\<close>

definition fetch_rows :: "(u64 \<Rightarrow> (moodeng_error, 's, row option) op) \<Rightarrow> u64 list \<Rightarrow>
    (moodeng_error, 's, (u64 \<times> row) list) op" where
  "fetch_rows get_op ids =
     sfold (\<lambda>i acc. sbind (get_op i) (\<lambda>r. sret (case r of None \<Rightarrow> acc | Some v \<Rightarrow> acc @ [(i, v)])))
       ids []"

definition rows_at :: "(u64 \<rightharpoonup> row) \<Rightarrow> u64 list \<Rightarrow> (u64 \<times> row) list" where
  "rows_at R ids = List.map_filter (\<lambda>i. map_option (Pair i) (R i)) ids"

text \<open>The ascending list of the rows of a finite map.\<close>

definition lists_rows :: "(u64 \<times> row) list \<Rightarrow> (u64 \<rightharpoonup> row) \<Rightarrow> bool" where
  "lists_rows xs R \<longleftrightarrow> sorted_wrt (<) (map fst xs) \<and> map_of xs = R"

lemma lists_rows_sort:
  assumes "distinct (map fst xs)"
  shows "lists_rows (sort_key fst xs) (map_of xs)"
proof -
  have "distinct (map fst (sort_key fst xs))"
    using assms by (simp add: mset_eq_imp_distinct_iff [of "map fst (sort_key fst xs)" "map fst xs"])
  moreover from this have "map_of (sort_key fst xs) = map_of xs"
    using assms map_of_inject_set [of "sort_key fst xs" xs] by simp
  ultimately show ?thesis
    by (simp add: lists_rows_def strict_sorted_iff sorted_sort_key)
qed

text \<open>Runs of a store: the calls on a backend, and what each must return and do on a counter and a map.\<close>

datatype store_cmd = SInsert row | SUpdate u64 row | SDelete u64 | SGet u64 | SScan

datatype store_out = OId u64 | OBool bool | ORow "row option" | ORows "(u64 \<times> row) list"

fun store_step :: "(row \<Rightarrow> (moodeng_error, 's, u64) op) \<Rightarrow> (u64 \<Rightarrow> (moodeng_error, 's, row option) op) \<Rightarrow>
    (moodeng_error, 's, (u64 \<times> row) list) op \<Rightarrow> (u64 \<Rightarrow> row \<Rightarrow> (moodeng_error, 's, bool) op) \<Rightarrow>
    (u64 \<Rightarrow> (moodeng_error, 's, bool) op) \<Rightarrow> store_cmd \<Rightarrow> (moodeng_error, 's, store_out) op" where
  "store_step ins get scan upd del (SInsert r) = sbind (ins r) (\<lambda>i. sret (OId i))"
| "store_step ins get scan upd del (SUpdate i r) = sbind (upd i r) (\<lambda>b. sret (OBool b))"
| "store_step ins get scan upd del (SDelete i) = sbind (del i) (\<lambda>b. sret (OBool b))"
| "store_step ins get scan upd del (SGet i) = sbind (get i) (\<lambda>r. sret (ORow r))"
| "store_step ins get scan upd del SScan = sbind scan (\<lambda>xs. sret (ORows xs))"

fun store_run :: "(store_cmd \<Rightarrow> (moodeng_error, 's, store_out) op) \<Rightarrow> store_cmd list \<Rightarrow>
    (moodeng_error, 's, store_out list) op" where
  "store_run step [] = sret []"
| "store_run step (c # cs) = sbind (step c) (\<lambda>out. sbind (store_run step cs) (\<lambda>outs. sret (out # outs)))"

fun store_spec :: "store_cmd \<Rightarrow> u64 \<times> (u64 \<rightharpoonup> row) \<Rightarrow> store_out \<Rightarrow> u64 \<times> (u64 \<rightharpoonup> row) \<Rightarrow> bool" where
  "store_spec (SInsert r) (n, R) out S' \<longleftrightarrow> out = OId n \<and> S' = (n + 1, R(n \<mapsto> r))"
| "store_spec (SUpdate i r) (n, R) out S' \<longleftrightarrow> out = OBool (R i \<noteq> None)
     \<and> S' = (n, if R i = None then R else R(i \<mapsto> r))"
| "store_spec (SDelete i) (n, R) out S' \<longleftrightarrow> out = OBool (R i \<noteq> None) \<and> S' = (n, R(i := None))"
| "store_spec (SGet i) (n, R) out S' \<longleftrightarrow> out = ORow (R i) \<and> S' = (n, R)"
| "store_spec SScan (n, R) out S' \<longleftrightarrow> (\<exists>xs. out = ORows xs \<and> lists_rows xs R) \<and> S' = (n, R)"

fun store_spec_run :: "store_cmd list \<Rightarrow> u64 \<times> (u64 \<rightharpoonup> row) \<Rightarrow> store_out list \<Rightarrow>
    u64 \<times> (u64 \<rightharpoonup> row) \<Rightarrow> bool" where
  "store_spec_run [] S outs S' \<longleftrightarrow> outs = [] \<and> S' = S"
| "store_spec_run (c # cs) S outs S' \<longleftrightarrow>
     (\<exists>out outs' S1. outs = out # outs' \<and> store_spec c S out S1 \<and> store_spec_run cs S1 outs' S')"

text \<open>The state a call leaves, and runs in which each call satisfies a condition on the rows it meets. The
  storage engine calls \<open>update\<close> only for a row it has just read (\<open>update\<close> and \<open>apply_update\<close> of
  \<open>storage.rs\<close>): in its runs \<open>row_present\<close> holds.\<close>

fun store_next :: "store_cmd \<Rightarrow> u64 \<times> (u64 \<rightharpoonup> row) \<Rightarrow> u64 \<times> (u64 \<rightharpoonup> row)" where
  "store_next (SInsert r) (n, R) = (n + 1, R(n \<mapsto> r))"
| "store_next (SUpdate i r) (n, R) = (n, if R i = None then R else R(i \<mapsto> r))"
| "store_next (SDelete i) (n, R) = (n, R(i := None))"
| "store_next _ S = S"

fun along_run :: "(store_cmd \<Rightarrow> (u64 \<rightharpoonup> row) \<Rightarrow> bool) \<Rightarrow> store_cmd list \<Rightarrow> u64 \<times> (u64 \<rightharpoonup> row) \<Rightarrow> bool" where
  "along_run Q [] S = True"
| "along_run Q (c # cs) S \<longleftrightarrow> Q c (snd S) \<and> along_run Q cs (store_next c S)"

fun row_present :: "store_cmd \<Rightarrow> (u64 \<rightharpoonup> row) \<Rightarrow> bool" where
  "row_present (SUpdate i r) R = (R i \<noteq> None)"
| "row_present _ R = True"

lemma store_spec_next: "store_spec c S out S' \<Longrightarrow> S' = store_next c S"
  by (cases S; cases c) auto

lemma along_run_True: "along_run (\<lambda>_ _. True) cs S"
  by (induction cs arbitrary: S) auto

lemma lists_rows_unique: "lists_rows xs R \<Longrightarrow> lists_rows ys R \<Longrightarrow> xs = ys"
proof -
  assume a: "lists_rows xs R" "lists_rows ys R"
  then have d: "distinct (map fst xs)" "distinct (map fst ys)" "map_of xs = map_of ys"
    by (simp_all add: lists_rows_def strict_sorted_iff)
  then have "set xs = set ys" using map_of_inject_set [of xs ys] by simp
  moreover from this d have "inj_on fst (set xs \<union> set ys)" by (simp add: distinct_map)
  ultimately show "xs = ys"
    using a d by (intro map_sorted_distinct_set_unique [of fst])
      (simp_all add: lists_rows_def strict_sorted_iff)
qed

lemma store_spec_fun: "store_spec c S out S1 \<Longrightarrow> store_spec c S out' S2 \<Longrightarrow> out = out' \<and> S1 = S2"
  by (cases S; cases c) (auto dest: lists_rows_unique)

lemma store_spec_run_fun:
  "store_spec_run cs S outs S1 \<Longrightarrow> store_spec_run cs S outs' S2 \<Longrightarrow> outs = outs' \<and> S1 = S2"
  by (induction cs arbitrary: S outs outs') (auto dest: store_spec_fun)

locale row_store =
  fixes inv :: "'s \<Rightarrow> bool"
    and abs :: "'s \<Rightarrow> u64 \<rightharpoonup> row"
    and nxt :: "'s \<Rightarrow> u64"
    and fits :: "'s \<Rightarrow> u64 \<Rightarrow> bool"
    and ins :: "row \<Rightarrow> (moodeng_error, 's, u64) op"
    and apply_ins :: "u64 \<Rightarrow> row \<Rightarrow> (moodeng_error, 's, unit) op"
    and get :: "u64 \<Rightarrow> (moodeng_error, 's, row option) op"
    and scan :: "(moodeng_error, 's, (u64 \<times> row) list) op"
    and upd :: "u64 \<Rightarrow> row \<Rightarrow> (moodeng_error, 's, bool) op"
    and del :: "u64 \<Rightarrow> (moodeng_error, 's, bool) op"
  assumes fresh: "inv s \<Longrightarrow> abs s i \<noteq> None \<Longrightarrow> i < nxt s"
    and ins_law: "inv s \<Longrightarrow> fits s (nxt s) \<Longrightarrow> ins r s = (res, s') \<Longrightarrow> inv s' \<and>
      nxt s' = nxt s + 1 \<and> fits s' = fits s \<and> (case res of Inr i \<Rightarrow> i = nxt s \<and> abs s' = (abs s)(i \<mapsto> r) | Inl _ \<Rightarrow> abs s' = abs s)"
    and apply_ins_law: "inv s \<Longrightarrow> fits s i \<Longrightarrow> apply_ins i r s = (ares, s') \<Longrightarrow> inv s' \<and>
      nxt s' = (if nxt s \<le> i then i + 1 else nxt s) \<and> fits s' = fits s \<and> (case ares of Inr _ \<Rightarrow> abs s' = (abs s)(i \<mapsto> r) | Inl _ \<Rightarrow> abs s' = abs s)"
    and get_law: "inv s \<Longrightarrow> \<exists>s'. get i s = (Inr (abs s i), s') \<and> inv s' \<and> abs s' = abs s \<and> nxt s' = nxt s \<and> fits s' = fits s"
    and scan_law: "inv s \<Longrightarrow> \<exists>xs s'. scan s = (Inr xs, s') \<and> lists_rows xs (abs s)
      \<and> inv s' \<and> abs s' = abs s \<and> nxt s' = nxt s \<and> fits s' = fits s"
    and upd_law: "inv s \<Longrightarrow> abs s i \<noteq> None \<Longrightarrow> upd i r s = (bres, s') \<Longrightarrow> inv s' \<and> nxt s' = nxt s \<and> fits s' = fits s \<and>
      (case bres of Inr b \<Rightarrow> b \<and> abs s' = (abs s)(i \<mapsto> r) | Inl _ \<Rightarrow> abs s' = abs s)"
    and del_law: "inv s \<Longrightarrow> del i s = (bres, s') \<Longrightarrow> inv s' \<and> nxt s' = nxt s \<and> fits s' = fits s \<and>
      (case bres of Inr b \<Rightarrow> b = (abs s i \<noteq> None) \<and> abs s' = (abs s)(i := None)
       | Inl _ \<Rightarrow> abs s' = abs s)"
begin

lemma ins_fresh: "inv s \<Longrightarrow> abs s (nxt s) = None"
  using fresh [of s "nxt s"] by (cases "abs s (nxt s)") auto

text \<open>Fetching a list of ids reads the rows that exist and changes none.\<close>

lemma fetch_rows_acc:
  assumes "inv s"
  shows "\<exists>s'. sfold (\<lambda>i acc. sbind (get i) (\<lambda>r. sret (case r of None \<Rightarrow> acc | Some v \<Rightarrow> acc @ [(i, v)])))
      ids acc s = (Inr (acc @ rows_at (abs s) ids), s') \<and> inv s' \<and> abs s' = abs s \<and> nxt s' = nxt s \<and> fits s' = fits s"
  using assms
proof (induction ids arbitrary: acc s)
  case Nil
  then show ?case by (simp add: rows_at_def map_filter_simps)
next
  case (Cons i ids)
  from get_law [OF Cons.prems, of i] obtain t where
    t: "get i s = (Inr (abs s i), t)" "inv t" "abs t = abs s" "nxt t = nxt s" "fits t = fits s"
    by blast
  let ?acc = "case abs s i of None \<Rightarrow> acc | Some v \<Rightarrow> acc @ [(i, v)]"
  from Cons.IH [OF t(2), of ?acc] t(1,3-5) show ?case
    by (cases "abs s i") (simp_all add: sbind_def rows_at_def map_filter_simps)
qed

lemma fetch_rows_law:
  "inv s \<Longrightarrow> \<exists>s'. fetch_rows get ids s = (Inr (rows_at (abs s) ids), s') \<and> inv s' \<and> abs s' = abs s
     \<and> nxt s' = nxt s \<and> fits s' = fits s"
  using fetch_rows_acc [of s ids "[]"] by (simp add: fetch_rows_def)

abbreviation step :: "store_cmd \<Rightarrow> (moodeng_error, 's, store_out) op" where
  "step \<equiv> store_step ins get scan upd del"

lemma step_refines:
  assumes "row_present c (abs s)" "inv s" "fits s (nxt s)" "step c s = (Inr out, s')"
  shows "inv s' \<and> fits s' = fits s \<and> nxt s' \<in> {nxt s, nxt s + 1}
    \<and> store_spec c (nxt s, abs s) out (nxt s', abs s')"
proof (cases c)
  case (SInsert r)
  with assms(4) obtain i where "ins r s = (Inr i, s')" "out = OId i" by (auto simp: sbind_split)
  with ins_law [OF assms(2,3)] SInsert show ?thesis by fastforce
next
  case (SUpdate i r)
  with assms(4) obtain b where "upd i r s = (Inr b, s')" "out = OBool b" by (auto simp: sbind_split)
  with upd_law [OF assms(2), of i r "Inr b" s'] SUpdate assms(1) show ?thesis by auto
next
  case (SDelete i)
  with assms(4) obtain b where "del i s = (Inr b, s')" "out = OBool b" by (auto simp: sbind_split)
  with del_law [OF assms(2), of i "Inr b" s'] SDelete show ?thesis by simp
next
  case (SGet i)
  with assms(4) get_law [OF assms(2), of i] show ?thesis by (auto simp: sbind_def)
next
  case SScan
  with assms(4) scan_law [OF assms(2)] show ?thesis by (auto simp: sbind_def)
qed

lemma run_refines_if:
  assumes step: "\<And>c s out s'. Q c (abs s) \<Longrightarrow> inv s \<Longrightarrow> fits s (nxt s) \<Longrightarrow> step c s = (Inr out, s') \<Longrightarrow>
      inv s' \<and> fits s' = fits s \<and> nxt s' \<in> {nxt s, nxt s + 1} \<and> store_spec c (nxt s, abs s) out (nxt s', abs s')"
    and "along_run Q cs (nxt s, abs s)" "inv s" "\<And>k. k \<le> length cs \<Longrightarrow> fits s (nxt s + word_of_nat k)"
    and "store_run step cs s = (Inr outs, s')"
  shows "inv s' \<and> store_spec_run cs (nxt s, abs s) outs (nxt s', abs s')"
  using assms(2-)
proof (induction cs arbitrary: s outs)
  case Nil
  then show ?case by simp
next
  case (Cons c cs)
  from Cons.prems(4) obtain out t outs' where
    st: "step c s = (Inr out, t)" "store_run step cs t = (Inr outs', s')" "outs = out # outs'"
    by (auto simp: sbind_split)
  have "fits s (nxt s)" using Cons.prems(3) [of 0] by simp
  note r = step [OF _ Cons.prems(2) this st(1)]
  have q: "Q c (abs s)" "along_run Q cs (nxt t, abs t)" using Cons.prems(1) r store_spec_next by fastforce+
  have "fits t (nxt t + word_of_nat k)" if "k \<le> length cs" for k
    using r [OF q(1)] Cons.prems(3) [of k] Cons.prems(3) [of "Suc k"] that by (auto simp: algebra_simps)
  from Cons.IH [OF q(2) _ this st(2)] r [OF q(1)] st(3) show ?case by auto
qed

lemma run_refines:
  assumes "along_run row_present cs (nxt s, abs s)" "inv s" "\<And>k. k \<le> length cs \<Longrightarrow> fits s (nxt s + word_of_nat k)"
    and "store_run step cs s = (Inr outs, s')"
  shows "inv s' \<and> store_spec_run cs (nxt s, abs s) outs (nxt s', abs s')"
  by (rule run_refines_if [OF step_refines assms])

text \<open>A row that was stored is found again, and a scan lists it.\<close>

lemma ins_then_get:
  assumes "inv s" "fits s (nxt s)" "ins r s = (Inr i, s')"
  shows "\<exists>s''. get j s' = (Inr (if j = i then Some r else abs s j), s'')"
  using ins_law [OF assms] get_law [of s' j] by auto

end

text \<open>A store whose update ignores an absent row refines the map in every run.\<close>

locale strict_store = row_store inv abs nxt fits ins apply_ins get scan upd del
  for inv :: "'s \<Rightarrow> bool" and abs nxt fits ins apply_ins get scan upd del +
  assumes upd_absent: "inv s \<Longrightarrow> abs s i = None \<Longrightarrow> upd i r s = (bres, s') \<Longrightarrow>
      inv s' \<and> nxt s' = nxt s \<and> fits s' = fits s \<and> abs s' = abs s \<and> (case bres of Inr b \<Rightarrow> \<not> b | Inl _ \<Rightarrow> True)"
begin

lemma strict_step_refines:
  assumes "inv s" "fits s (nxt s)" "step c s = (Inr out, s')"
  shows "inv s' \<and> fits s' = fits s \<and> nxt s' \<in> {nxt s, nxt s + 1}
    \<and> store_spec c (nxt s, abs s) out (nxt s', abs s')"
proof (cases "row_present c (abs s)")
  case True
  then show ?thesis using step_refines assms by blast
next
  case False
  then obtain i r where c: "c = SUpdate i r" "abs s i = None" by (cases c) auto
  with assms(3) obtain b where "upd i r s = (Inr b, s')" "out = OBool b" by (auto simp: sbind_split)
  with upd_absent [OF assms(1) c(2), of r "Inr b" s'] c show ?thesis by auto
qed

lemma strict_run_refines:
  assumes "inv s" "\<And>k. k \<le> length cs \<Longrightarrow> fits s (nxt s + word_of_nat k)" "store_run step cs s = (Inr outs, s')"
  shows "inv s' \<and> store_spec_run cs (nxt s, abs s) outs (nxt s', abs s')"
  by (rule run_refines_if [OF strict_step_refines along_run_True assms])

end

end
