(* ===== verification/Example_Codec.thy ===== *)
theory Example_Codec
  imports Pages Wal
begin

text \<open>
  A self-delimiting encoding of rows, pages and page headers. The program serialises with
  \<open>bincode\<close>, which the model leaves open; this instance shows that the hypotheses on it can hold and
  lets concrete tables run in the kernel.
\<close>

definition stream_ok :: "('a \<Rightarrow> bytes) \<Rightarrow> (bytes \<Rightarrow> ('a \<times> bytes) option) \<Rightarrow> bool" where
  "stream_ok enc dec \<longleftrightarrow> (\<forall>x rest. dec (enc x @ rest) = Some (x, rest))"

subsection \<open>Combinators\<close>

definition dec_word :: "nat \<Rightarrow> bytes \<Rightarrow> ('a::len word \<times> bytes) option" where
  "dec_word n bs = map_option (apfst from_be_bytes) (read_exact n bs)"

definition enc_pair :: "('a \<Rightarrow> bytes) \<Rightarrow> ('b \<Rightarrow> bytes) \<Rightarrow> 'a \<times> 'b \<Rightarrow> bytes" where
  "enc_pair ea eb p = ea (fst p) @ eb (snd p)"

definition dec_pair :: "(bytes \<Rightarrow> ('a \<times> bytes) option) \<Rightarrow> (bytes \<Rightarrow> ('b \<times> bytes) option) \<Rightarrow>
    bytes \<Rightarrow> (('a \<times> 'b) \<times> bytes) option" where
  "dec_pair da db bs = (case da bs of None \<Rightarrow> None | Some (a, r) \<Rightarrow>
     (case db r of None \<Rightarrow> None | Some (b, r') \<Rightarrow> Some ((a, b), r')))"

fun enc_list :: "('a \<Rightarrow> bytes) \<Rightarrow> 'a list \<Rightarrow> bytes" where
  "enc_list e [] = [0]"
| "enc_list e (x # xs) = 1 # e x @ enc_list e xs"

fun dec_list :: "nat \<Rightarrow> (bytes \<Rightarrow> ('a \<times> bytes) option) \<Rightarrow> bytes \<Rightarrow> ('a list \<times> bytes) option" where
  "dec_list 0 d bs = None"
| "dec_list (Suc n) d [] = None"
| "dec_list (Suc n) d (b # bs) =
     (if b = 0 then Some ([], bs)
      else case d bs of None \<Rightarrow> None | Some (x, r) \<Rightarrow>
        (case dec_list n d r of None \<Rightarrow> None | Some (xs, r') \<Rightarrow> Some (x # xs, r')))"

lemma dec_list_enc:
  assumes "stream_ok e d" "length xs < n"
  shows "dec_list n d (enc_list e xs @ rest) = Some (xs, rest)"
  using assms(2)
proof (induction xs arbitrary: n)
  case Nil
  then show ?case by (cases n) simp_all
next
  case (Cons x xs)
  then show ?case using assms(1) by (cases n) (simp_all add: stream_ok_def)
qed

lemma length_enc_list: "length xs < length (enc_list e xs)"
  by (induction xs) auto

definition dec_list_all :: "(bytes \<Rightarrow> ('a \<times> bytes) option) \<Rightarrow> bytes \<Rightarrow> ('a list \<times> bytes) option" where
  "dec_list_all d bs = dec_list (length bs) d bs"

lemma stream_ok_list: "stream_ok e d \<Longrightarrow> stream_ok (enc_list e) (dec_list_all d)"
  unfolding stream_ok_def [of "enc_list e"] dec_list_all_def
  by (auto intro!: dec_list_enc trans_less_add1 [OF length_enc_list])

lemma stream_ok_pair: "stream_ok ea da \<Longrightarrow> stream_ok eb db \<Longrightarrow> stream_ok (enc_pair ea eb) (dec_pair da db)"
  by (simp add: stream_ok_def enc_pair_def dec_pair_def)

lemma stream_ok_u64: "stream_ok (be_bytes 8 :: u64 \<Rightarrow> bytes) (dec_word 8)"
  by (simp add: stream_ok_def dec_word_def)

lemma stream_ok_u32: "stream_ok (be_bytes 4 :: u32 \<Rightarrow> bytes) (dec_word 4)"
  by (simp add: stream_ok_def dec_word_def)

subsection \<open>Values and rows\<close>

definition enc_char :: "char \<Rightarrow> bytes" where
  "enc_char c = [word_of_nat (of_char c)]"

fun dec_char :: "bytes \<Rightarrow> (char \<times> bytes) option" where
  "dec_char [] = None"
| "dec_char (b # bs) = Some (char_of (unat b), bs)"

lemma stream_ok_char: "stream_ok enc_char dec_char"
  by (simp add: stream_ok_def enc_char_def unsigned_of_nat take_bit_eq_mod)

fun enc_value :: "db_value \<Rightarrow> bytes" where
  "enc_value Null = [0]"
| "enc_value (Int4 n) = 1 # be_bytes 4 n"
| "enc_value (Int8 n) = 2 # be_bytes 8 n"
| "enc_value (Float4 n) = 3 # be_bytes 4 n"
| "enc_value (Float8 n) = 4 # be_bytes 8 n"
| "enc_value (Text s) = 5 # enc_list enc_char s"
| "enc_value (BoolV b) = [6, if b then 1 else 0]"
| "enc_value (Timestamp n) = 7 # be_bytes 8 n"
| "enc_value (Json s) = 8 # enc_list enc_char s"

definition dec_tagged :: "('a \<Rightarrow> db_value) \<Rightarrow> ('a \<times> bytes) option \<Rightarrow> (db_value \<times> bytes) option" where
  "dec_tagged f r = map_option (apfst f) r"

fun dec_value :: "bytes \<Rightarrow> (db_value \<times> bytes) option" where
  "dec_value [] = None"
| "dec_value (t # bs) =
     (if t = 0 then Some (Null, bs)
      else if t = 1 then dec_tagged Int4 (dec_word 4 bs)
      else if t = 2 then dec_tagged Int8 (dec_word 8 bs)
      else if t = 3 then dec_tagged Float4 (dec_word 4 bs)
      else if t = 4 then dec_tagged Float8 (dec_word 8 bs)
      else if t = 5 then dec_tagged Text (dec_list_all dec_char bs)
      else if t = 6 then (case bs of [] \<Rightarrow> None | b # r \<Rightarrow> Some (BoolV (b \<noteq> 0), r))
      else if t = 7 then dec_tagged Timestamp (dec_word 8 bs)
      else dec_tagged Json (dec_list_all dec_char bs))"

lemma stream_ok_value: "stream_ok enc_value dec_value"
  unfolding stream_ok_def
proof (intro allI)
  fix v rest
  show "dec_value (enc_value v @ rest) = Some (v, rest)"
    using stream_ok_list [OF stream_ok_char]
    by (cases v) (simp_all add: dec_tagged_def dec_word_def stream_ok_def)
qed

definition enc_row :: "row \<Rightarrow> bytes" where
  "enc_row r = enc_pair (enc_list enc_value) (be_bytes 8) (row_values r, row_version r)"

definition dec_row :: "bytes \<Rightarrow> (row \<times> bytes) option" where
  "dec_row bs = map_option (apfst (\<lambda>(vs, v). \<lparr>row_values = vs, row_version = v\<rparr>))
     (dec_pair (dec_list_all dec_value) (dec_word 8) bs)"

lemma stream_ok_row: "stream_ok enc_row dec_row"
  using stream_ok_pair [OF stream_ok_list [OF stream_ok_value] stream_ok_u64]
  by (simp add: stream_ok_def enc_row_def dec_row_def)

definition codec_of :: "('a \<Rightarrow> bytes) \<Rightarrow> (bytes \<Rightarrow> ('a \<times> bytes) option) \<Rightarrow> 'a codec" where
  "codec_of e d = \<lparr>ser = e, deser = (\<lambda>bs. case d bs of None \<Rightarrow> Inl ''eof'' | Some (x, _) \<Rightarrow> Inr x)\<rparr>"

lemma codec_of_ok: "stream_ok e d \<Longrightarrow> deser (codec_of e d) (ser (codec_of e d) x @ rest) = Inr x"
  by (simp add: codec_of_def stream_ok_def)

definition example_codecs :: page_codecs where
  "example_codecs = \<lparr>
     body_codec = codec_of (enc_list (enc_pair (be_bytes 8) enc_row))
                    (dec_list_all (dec_pair (dec_word 8) dec_row)),
     header_codec = codec_of (\<lambda>h. be_bytes 8 (ph_next_id h) @ be_bytes 4 (ph_page_count h))
                    (\<lambda>bs. map_option (apfst (\<lambda>(n, c). \<lparr>ph_next_id = n, ph_page_count = c\<rparr>))
                            (dec_pair (dec_word 8) (dec_word 4) bs))\<rparr>"

lemma example_body_ok:
  "deser (body_codec example_codecs) (ser (body_codec example_codecs) b) = Inr b"
  "ser (body_codec example_codecs) b \<noteq> []"
  using codec_of_ok [OF stream_ok_list [OF stream_ok_pair [OF stream_ok_u64 stream_ok_row]], of b "[]"]
  by (cases b; simp add: example_codecs_def codec_of_def)+

lemma example_header_ok:
  "length (ser (header_codec example_codecs) h) = 12"
  "deser (header_codec example_codecs) (ser (header_codec example_codecs) h @ rest) = Inr h"
  by (simp_all add: example_codecs_def codec_of_def dec_pair_def dec_word_def)

subsection \<open>Log records\<close>

definition enc_str :: "string \<Rightarrow> bytes" where
  "enc_str = enc_list enc_char"

definition dec_str :: "bytes \<Rightarrow> (string \<times> bytes) option" where
  "dec_str = dec_list_all dec_char"

lemma stream_ok_str: "stream_ok enc_str dec_str"
  unfolding enc_str_def dec_str_def by (rule stream_ok_list [OF stream_ok_char])

fun enc_op :: "wal_op \<Rightarrow> bytes" where
  "enc_op (WBegin t) = 0 # be_bytes 8 t"
| "enc_op (WCommit t) = 1 # be_bytes 8 t"
| "enc_op (WAbort t) = 2 # be_bytes 8 t"
| "enc_op (WInsert t n i r) = 3 # be_bytes 8 t @ enc_str n @ be_bytes 8 i @ enc_row r"
| "enc_op (WUpdate t n i r) = 4 # be_bytes 8 t @ enc_str n @ be_bytes 8 i @ enc_row r"
| "enc_op (WDelete t n i) = 5 # be_bytes 8 t @ enc_str n @ be_bytes 8 i"

fun dec_op :: "bytes \<Rightarrow> (wal_op \<times> bytes) option" where
  "dec_op [] = None"
| "dec_op (k # bs) =
     (case dec_word 8 bs of None \<Rightarrow> None | Some (t, r1) \<Rightarrow>
      if k = 0 then Some (WBegin t, r1)
      else if k = 1 then Some (WCommit t, r1)
      else if k = 2 then Some (WAbort t, r1)
      else case dec_str r1 of None \<Rightarrow> None | Some (n, r2) \<Rightarrow>
        case dec_word 8 r2 of None \<Rightarrow> None | Some (i, r3) \<Rightarrow>
        if k = 5 then Some (WDelete t n i, r3)
        else case dec_row r3 of None \<Rightarrow> None | Some (r, r4) \<Rightarrow>
          Some (if k = 3 then WInsert t n i r else WUpdate t n i r, r4))"

lemma stream_ok_op: "stream_ok enc_op dec_op"
  unfolding stream_ok_def
proof (intro allI)
  fix op rest
  show "dec_op (enc_op op @ rest) = Some (op, rest)"
    using stream_ok_str stream_ok_row
    by (cases op) (simp_all add: dec_word_def stream_ok_def)
qed

definition op_codec :: "wal_op codec" where
  "op_codec = codec_of enc_op dec_op"

lemma op_codec_ok: "codec_ok op_codec op"
  using codec_of_ok [OF stream_ok_op, of op "[]"] by (simp add: codec_ok_def op_codec_def)

end
