(* ===== verification/Page_Store.thy ===== *)
theory Page_Store
  imports Pages Row_Store Example_Codec
begin

text \<open>
  The page table of theory \<open>Pages\<close> implements the row store: what its file and its cache hold is a map
  from row ids to rows, every operation acts on that map, and no page write disturbs another slot.
\<close>

subsection \<open>The bytes of a slot\<close>

definition slot_len :: "page_file \<Rightarrow> u32 \<Rightarrow> nat" where
  "slot_len f p = unat (from_le_bytes (pf_read (slot_offset p) 4 f) :: u32)"

definition slot_body :: "page_codecs \<Rightarrow> page_file \<Rightarrow> u32 \<Rightarrow> page_body" where
  "slot_body C f p =
     (if slot_len f p = 0 then []
      else case deser (body_codec C) (pf_read (slot_offset p + 4) (slot_len f p) f) of
             Inl _ \<Rightarrow> [] | Inr b \<Rightarrow> b)"

text \<open>A slot that \<open>load_page\<close> reads without an error: its length stays inside the slot, and its
  contents decode to a page with distinct row ids that belong to this page.\<close>

definition slot_ok :: "page_codecs \<Rightarrow> u64 \<Rightarrow> page_file \<Rightarrow> u32 \<Rightarrow> bool" where
  "slot_ok C rpp f p \<longleftrightarrow> slot_len f p + 4 \<le> PAGE_SLOT_BYTES
     \<and> (slot_len f p \<noteq> 0 \<longrightarrow>
          (\<exists>b. deser (body_codec C) (pf_read (slot_offset p + 4) (slot_len f p) f) = Inr b))
     \<and> distinct (map fst (slot_body C f p))
     \<and> (\<forall>i \<in> fst ` set (slot_body C f p). pt_page_id i rpp = p)"

text \<open>What the program relies on of \<open>bincode\<close>: an encoded page is not empty and decodes to a page with
  the same rows (a hash map may come back in another order); the header takes twelve bytes and is
  read back from a longer slice.\<close>

definition codecs_ok :: "page_codecs \<Rightarrow> bool" where
  "codecs_ok C \<longleftrightarrow>
     (\<forall>b. distinct (map fst b) \<longrightarrow> ser (body_codec C) b \<noteq> [] \<and>
        (\<exists>b'. deser (body_codec C) (ser (body_codec C) b) = Inr b'
           \<and> distinct (map fst b') \<and> map_of b' = map_of b))
   \<and> (\<forall>h. length (ser (header_codec C) h) = 12 \<and>
        (\<forall>rest. deser (header_codec C) (ser (header_codec C) h @ rest) = Inr h))"

lemma pf_read_cong: "(\<And>i. i < n \<Longrightarrow> pf_at f (off + i) = pf_at g (off + i)) \<Longrightarrow> pf_read off n f = pf_read off n g"
  by (simp add: pf_read_def)

text \<open>Two files with the same bytes in a slot have the same page there.\<close>

definition same_slot :: "page_file \<Rightarrow> page_file \<Rightarrow> u32 \<Rightarrow> bool" where
  "same_slot f g p \<longleftrightarrow>
     (\<forall>i. slot_offset p \<le> i \<and> i < slot_offset p + PAGE_SLOT_BYTES \<longrightarrow> pf_at f i = pf_at g i)"

lemma same_slot_len: "same_slot f g p \<Longrightarrow> slot_len f p = slot_len g p"
  unfolding slot_len_def
  by (subst pf_read_cong [of 4 f "slot_offset p" g]) (auto simp: same_slot_def PAGE_SLOT_BYTES_def)

lemma same_slot_read:
  "same_slot f g p \<Longrightarrow> n + 4 \<le> PAGE_SLOT_BYTES \<Longrightarrow>
     pf_read (slot_offset p + 4) n f = pf_read (slot_offset p + 4) n g"
  by (rule pf_read_cong) (auto simp: same_slot_def)

lemma same_slot_ok:
  assumes "same_slot f g p" "slot_ok C rpp f p"
  shows "slot_ok C rpp g p" "slot_body C g p = slot_body C f p"
proof -
  note len = same_slot_len [OF assms(1)]
  have "slot_len f p + 4 \<le> PAGE_SLOT_BYTES" using assms(2) by (simp add: slot_ok_def)
  from same_slot_read [OF assms(1) this]
  show "slot_body C g p = slot_body C f p" using len by (simp add: slot_body_def)
  with \<open>pf_read (slot_offset p + 4) (slot_len f p) f = _\<close> show "slot_ok C rpp g p"
    using assms(2) len by (simp add: slot_ok_def)
qed

lemma slots_disjoint:
  assumes "p \<noteq> q" "slot_offset p \<le> i" "i < slot_offset p + PAGE_SLOT_BYTES"
  shows "\<not> (slot_offset q \<le> i \<and> i < slot_offset q + PAGE_SLOT_BYTES)"
proof -
  have "unat p \<noteq> unat q" using assms(1) by (auto dest: unsigned_word_eqI)
  with assms(2,3) show ?thesis
    unfolding slot_offset_def PAGE_SLOT_BYTES_def HEADER_SIZE_def by linarith
qed

subsection \<open>The invariant and the rows\<close>

definition pt_abs :: "page_codecs \<Rightarrow> page_table \<Rightarrow> u64 \<rightharpoonup> row" where
  "pt_abs C t i =
     (let p = pt_page_id i (pt_rows_per_page t)
      in if p < pt_page_count t then map_of (slot_body C (pt_file t) p) i else None)"

definition file_ok :: "page_codecs \<Rightarrow> page_table \<Rightarrow> bool" where
  "file_ok C t \<longleftrightarrow> pf_len (pt_file t) = file_size_for_pages (pt_page_count t)
     \<and> (\<forall>i \<ge> slot_offset (pt_page_count t). pf_at (pt_file t) i = 0)
     \<and> (\<forall>p < pt_page_count t. slot_ok C (pt_rows_per_page t) (pt_file t) p)"

definition cache_ok :: "page_codecs \<Rightarrow> page_table \<Rightarrow> bool" where
  "cache_ok C t \<longleftrightarrow> lru_wf (pt_cache t) \<and>
     (\<forall>p b. map_of (lru_pages (pt_cache t)) p = Some b \<longrightarrow>
        p < pt_page_count t \<and> distinct (map fst b) \<and> map_of b = map_of (slot_body C (pt_file t) p))"

definition pt_inv :: "page_codecs \<Rightarrow> page_table \<Rightarrow> bool" where
  "pt_inv C t \<longleftrightarrow> codecs_ok C \<and> pt_mmap t \<and> file_ok C t \<and> cache_ok C t
     \<and> (\<forall>i. pt_abs C t i \<noteq> None \<longrightarrow> i < pt_next_id t)"

lemma pt_abs_le_size:
  "p < pt_page_count t \<Longrightarrow> slot_offset p + PAGE_SLOT_BYTES \<le> file_size_for_pages (pt_page_count t)"
  by (auto simp: slot_offset_def file_size_for_pages_def PAGE_SLOT_BYTES_def word_less_nat_alt max_def
      word_le_nat_alt)

lemma read_slot_ok:
  assumes "file_ok C t" "p < pt_page_count t"
  shows "read_slot C (pt_file t) p =
    Inr (if slot_len (pt_file t) p = 0 then None else Some (slot_body C (pt_file t) p))"
proof -
  have "slot_ok C (pt_rows_per_page t) (pt_file t) p"
    and len: "slot_offset p + PAGE_SLOT_BYTES \<le> pf_len (pt_file t)"
    using assms pt_abs_le_size [of p t] by (auto simp: file_ok_def)
  then have small: "slot_len (pt_file t) p + 4 \<le> PAGE_SLOT_BYTES" and
    dec: "slot_len (pt_file t) p \<noteq> 0 \<Longrightarrow> \<exists>b. deser (body_codec C)
      (pf_read (slot_offset p + 4) (slot_len (pt_file t) p) (pt_file t)) = Inr b"
    by (auto simp: slot_ok_def)
  have "\<not> pf_len (pt_file t) < slot_offset p + 4"
    "\<not> pf_len (pt_file t) < slot_offset p + 4 + slot_len (pt_file t) p"
    using len small by (simp_all add: PAGE_SLOT_BYTES_def)
  then show ?thesis using dec
    by (auto simp: read_slot_def Let_def slot_len_def [symmetric] slot_body_def)
qed

lemma load_page_ok:
  assumes "pt_mmap t" "file_ok C t" "cache_ok C t" "p < pt_page_count t"
  shows "\<exists>b c. load_page C p t = (Inr b, t\<lparr>pt_cache := c\<rparr>)
    \<and> distinct (map fst b) \<and> map_of b = map_of (slot_body C (pt_file t) p)
    \<and> cache_ok C (t\<lparr>pt_cache := c\<rparr>)"
proof (cases "map_of (lru_pages (pt_cache t)) p")
  case (Some b)
  have wf: "lru_wf (pt_cache t)" using assms(3) by (simp add: cache_ok_def)
  note g = lru_get_wf [OF wf, of p]
  have "load_page C p t = (Inr b, t\<lparr>pt_cache := snd (lru_get p (pt_cache t))\<rparr>)"
    using g(2) Some by (cases "lru_get p (pt_cache t)") (simp add: load_page_def)
  then show ?thesis using assms(3) Some g by (auto simp: cache_ok_def)
next
  case None
  have wf: "lru_wf (pt_cache t)" using assms(3) by (simp add: cache_ok_def)
  have miss: "lru_get p (pt_cache t) = (None, pt_cache t)" using None by (simp add: lru_get_def)
  have sok: "slot_ok C (pt_rows_per_page t) (pt_file t) p" using assms(2,4) by (simp add: file_ok_def)
  show ?thesis
  proof (cases "slot_len (pt_file t) p = 0")
    case True
    then have "load_page C p t = (Inr [], t\<lparr>pt_cache := pt_cache t\<rparr>)"
      using miss assms(1) read_slot_ok [OF assms(2,4)]
      by (simp add: load_page_def ensure_mmap_def Let_def)
    moreover have "cache_ok C (t\<lparr>pt_cache := pt_cache t\<rparr>)" using assms(3) by simp
    moreover have "slot_body C (pt_file t) p = []" using True by (simp add: slot_body_def)
    ultimately show ?thesis by (metis distinct.simps(1) list.simps(8))
  next
    case False
    let ?b = "slot_body C (pt_file t) p" and ?c = "lru_insert p (slot_body C (pt_file t) p) (pt_cache t)"
    have "load_page C p t = (Inr ?b, t\<lparr>pt_cache := ?c\<rparr>)"
      using False miss assms(1) read_slot_ok [OF assms(2,4)]
      by (simp add: load_page_def ensure_mmap_def Let_def)
    moreover have "cache_ok C (t\<lparr>pt_cache := ?c\<rparr>)"
      using assms(3,4) sok lru_insert_wf [OF wf] lru_insert_lookup [OF wf, of p ?b]
      by (fastforce simp: cache_ok_def slot_ok_def split: if_splits)
    ultimately show ?thesis using sok by (auto simp: slot_ok_def)
  qed
qed

subsection \<open>Writing a page\<close>

lemma pf_at_write [simp]:
  "pf_at (pf_write off bs f) i =
     (if off \<le> i \<and> i < off + length bs then bs ! (i - off) else pf_at f i)"
  by (simp add: pf_write_def)

lemma pf_at_fill0 [simp]:
  "pf_at (pf_fill0 off n f) i = (if off \<le> i \<and> i < off + n then 0 else pf_at f i)"
  by (simp add: pf_fill0_def)

lemma pf_len_simps [simp]:
  "pf_len (pf_write off bs f) = pf_len f" "pf_len (pf_fill0 off n f) = pf_len f"
  "pf_len (pf_set_len n f) = n"
  by (simp_all add: pf_write_def pf_fill0_def pf_set_len_def)

lemma pf_read_write_same: "pf_read off (length bs) (pf_write off bs f) = bs"
  by (rule nth_equalityI) (simp_all add: pf_read_def)

lemma pf_read_write_same': "length bs = n \<Longrightarrow> pf_read off n (pf_write off bs f) = bs"
  using pf_read_write_same by blast

lemma pf_read_write_other:
  "off + n \<le> off' \<or> off' + length bs \<le> off \<Longrightarrow> pf_read off n (pf_write off' bs f) = pf_read off n f"
  by (rule pf_read_cong) auto

text \<open>The file \<open>store_page\<close> leaves.\<close>

definition store_slot :: "page_codecs \<Rightarrow> u32 \<Rightarrow> page_body \<Rightarrow> page_file \<Rightarrow> page_file" where
  "store_slot C p b f = pf_write (slot_offset p + 4) (ser (body_codec C) b)
     (pf_write (slot_offset p) (le_bytes 4 (word_of_nat (length (ser (body_codec C) b)) :: u32))
       (pf_fill0 (slot_offset p) PAGE_SLOT_BYTES f))"

lemma store_slot_other:
  "p \<noteq> q \<Longrightarrow> length (ser (body_codec C) b) + 4 \<le> PAGE_SLOT_BYTES \<Longrightarrow> same_slot f (store_slot C p b f) q"
  unfolding same_slot_def
proof (intro allI impI)
  fix i assume *: "p \<noteq> q" "length (ser (body_codec C) b) + 4 \<le> PAGE_SLOT_BYTES"
    "slot_offset q \<le> i \<and> i < slot_offset q + PAGE_SLOT_BYTES"
  then have "\<not> (slot_offset p \<le> i \<and> i < slot_offset p + PAGE_SLOT_BYTES)"
    using slots_disjoint [of q p i] by simp
  with *(2) show "pf_at f i = pf_at (store_slot C p b f) i"
    by (auto simp: store_slot_def PAGE_SLOT_BYTES_def)
qed

lemma store_slot_same:
  assumes "codecs_ok C" "length (ser (body_codec C) b) + 4 \<le> PAGE_SLOT_BYTES"
    and "distinct (map fst b)" "\<forall>i \<in> fst ` set b. pt_page_id i rpp = p"
  shows "slot_ok C rpp (store_slot C p b f) p"
    and "map_of (slot_body C (store_slot C p b f) p) = map_of b"
proof -
  let ?e = "ser (body_codec C) b" and ?f = "store_slot C p b f"
  obtain b' where b': "deser (body_codec C) ?e = Inr b'" "distinct (map fst b')"
    "map_of b' = map_of b" and ne: "?e \<noteq> []"
    using assms(1,3) by (auto simp: codecs_ok_def)
  have "length ?e < 2 ^ 32" using assms(2) by (simp add: PAGE_SLOT_BYTES_def)
  then have conv: "unat (word_of_nat (length ?e) :: u32) = length ?e"
    by (simp add: unsigned_of_nat take_bit_nat_eq_self)
  have "pf_read (slot_offset p) 4 ?f = le_bytes 4 (word_of_nat (length ?e) :: u32)"
    unfolding store_slot_def
    by (subst pf_read_write_other) (simp_all add: pf_read_write_same')
  then have len: "slot_len ?f p = length ?e" by (simp add: slot_len_def conv)
  have read: "pf_read (slot_offset p + 4) (length ?e) ?f = ?e"
    by (simp add: store_slot_def pf_read_write_same)
  have body: "slot_body C ?f p = b'" using len read b'(1) ne by (simp add: slot_body_def)
  show "map_of (slot_body C ?f p) = map_of b" using body b'(3) by simp
  have "fst ` set b' = fst ` set b" using b'(3) by (metis dom_map_of_conv_image_fst)
  then show "slot_ok C rpp ?f p"
    using len read b' body assms(2,4) by (simp add: slot_ok_def)
qed

lemma store_page_eq:
  assumes "pt_mmap t" "p < pt_page_count t"
  shows "store_page C p b t =
    (if length (ser (body_codec C) b) + 4 \<le> PAGE_SLOT_BYTES
     then (Inr (), t\<lparr>pt_file := store_slot C p b (pt_file t), pt_cache := lru_insert p b (pt_cache t)\<rparr>)
     else (Inl (StorageError ''page overflow''), t))"
  using assms by (auto simp: store_page_def ensure_mmap_def Let_def store_slot_def)

text \<open>The state after a page has been stored: its rows replace those of the page, all other pages keep
  theirs.\<close>

lemma stored_page_ok:
  assumes "codecs_ok C" "file_ok C t" "cache_ok C t" "p < pt_page_count t"
    and "length (ser (body_codec C) b) + 4 \<le> PAGE_SLOT_BYTES"
    and "distinct (map fst b)" "\<forall>i \<in> fst ` set b. pt_page_id i (pt_rows_per_page t) = p"
  defines "t' \<equiv> t\<lparr>pt_file := store_slot C p b (pt_file t), pt_cache := lru_insert p b (pt_cache t)\<rparr>"
  shows "file_ok C t'" "cache_ok C t'"
    "pt_abs C t' i = (if pt_page_id i (pt_rows_per_page t) = p then map_of b i else pt_abs C t i)"
proof -
  let ?g = "store_slot C p b (pt_file t)" and ?rpp = "pt_rows_per_page t"
  note same = store_slot_same [OF assms(1,5,6,7), of "pt_file t"]
  have other: "slot_ok C ?rpp ?g q" "slot_body C ?g q = slot_body C (pt_file t) q"
    if "q < pt_page_count t" "q \<noteq> p" for q
    using same_slot_ok [OF store_slot_other [of p q C b "pt_file t"], of C ?rpp] that assms(2,5)
    by (auto simp: file_ok_def)
  have "slot_offset p + PAGE_SLOT_BYTES \<le> slot_offset (pt_page_count t)"
    using assms(4) by (simp add: slot_offset_def PAGE_SLOT_BYTES_def word_less_nat_alt)
  then have "\<forall>i \<ge> slot_offset (pt_page_count t). pf_at ?g i = 0"
    using assms(2,5) by (auto simp: file_ok_def store_slot_def)
  then show "file_ok C t'"
    using assms(2) same(1) other(1) unfolding t'_def
    by (fastforce simp: file_ok_def store_slot_def [THEN arg_cong [where f = pf_len]])
  have wf: "lru_wf (pt_cache t)" using assms(3) by (simp add: cache_ok_def)
  show "cache_ok C t'"
    unfolding cache_ok_def t'_def
  proof (intro conjI allI impI; simp)
    show "lru_wf (lru_insert p b (pt_cache t))" by (rule lru_insert_wf [OF wf])
    fix q b' assume "map_of (lru_pages (lru_insert p b (pt_cache t))) q = Some b'"
    from lru_insert_lookup [OF wf this] assms(3,4,6) same(2) other(2) [of q]
    show "q < pt_page_count t" "distinct (map fst b')" "map_of b' = map_of (slot_body C ?g q)"
      by (auto simp: cache_ok_def split: if_splits)
  qed
  show "pt_abs C t' i = (if pt_page_id i ?rpp = p then map_of b i else pt_abs C t i)"
    using assms(4) same(2) other(2) by (simp add: pt_abs_def t'_def Let_def)
qed

subsection \<open>Header and growth\<close>

lemma slot_offset_ge: "HEADER_SIZE \<le> slot_offset p"
  by (simp add: slot_offset_def)

lemma zero_slot:
  assumes "\<forall>i \<ge> slot_offset p. pf_at f i = 0"
  shows "slot_len f p = 0"
proof -
  have "pf_read (slot_offset p) 4 f = [0, 0, 0, 0]"
    using assms by (simp add: pf_read_def upt_rec)
  then show ?thesis by (simp add: slot_len_def from_le_bytes_def from_be_bytes_def)
qed

text \<open>A change of the file that keeps all bytes behind the header keeps the pages.\<close>

lemma header_change_ok:
  assumes "file_ok C t" "cache_ok C t" "pf_len f = pf_len (pt_file t)"
    and "\<And>i. HEADER_SIZE \<le> i \<Longrightarrow> pf_at f i = pf_at (pt_file t) i"
  shows "file_ok C (t\<lparr>pt_file := f\<rparr>)" "cache_ok C (t\<lparr>pt_file := f\<rparr>)"
    "pt_abs C (t\<lparr>pt_file := f\<rparr>) = pt_abs C t"
proof -
  have same: "same_slot (pt_file t) f p" for p
    using assms(4) slot_offset_ge [of p] by (auto simp: same_slot_def)
  have ok: "slot_ok C (pt_rows_per_page t) f p" "slot_body C f p = slot_body C (pt_file t) p"
    if "p < pt_page_count t" for p
    using same_slot_ok [OF same, of C "pt_rows_per_page t" p] assms(1) that by (auto simp: file_ok_def)
  show "file_ok C (t\<lparr>pt_file := f\<rparr>)"
    using assms slot_offset_ge [of "pt_page_count t"] ok(1) by (auto simp: file_ok_def)
  show "cache_ok C (t\<lparr>pt_file := f\<rparr>)" using assms(2) ok(2) by (auto simp: cache_ok_def)
  show "pt_abs C (t\<lparr>pt_file := f\<rparr>) = pt_abs C t"
    using ok(2) by (auto simp: pt_abs_def Let_def fun_eq_iff)
qed

lemma write_header_ok:
  assumes "codecs_ok C" "pt_mmap t" "file_ok C t" "cache_ok C t"
  shows "file_ok C (write_header C t)" "cache_ok C (write_header C t)"
    "pt_abs C (write_header C t) = pt_abs C t"
proof -
  let ?f = "pf_write 0 (ser (header_codec C)
      \<lparr>ph_next_id = pt_next_id t, ph_page_count = pt_page_count t\<rparr>) (pt_file t)"
  have "write_header C t = t\<lparr>pt_file := ?f\<rparr>"
    using assms(2) by (simp add: write_header_def ensure_mmap_def Let_def)
  moreover have "pf_at ?f i = pf_at (pt_file t) i" if "HEADER_SIZE \<le> i" for i
    using assms(1) that by (simp add: codecs_ok_def HEADER_SIZE_def)
  ultimately show "file_ok C (write_header C t)" "cache_ok C (write_header C t)"
    "pt_abs C (write_header C t) = pt_abs C t"
    using header_change_ok [OF assms(3,4), of ?f] by auto
qed

lemma write_header_fields [simp]:
  "pt_page_count (write_header C t) = pt_page_count t"
  "pt_next_id (write_header C t) = pt_next_id t"
  "pt_rows_per_page (write_header C t) = pt_rows_per_page t"
  "pt_mmap (write_header C t)"
  by (simp_all add: write_header_def ensure_mmap_def Let_def)

lemma file_size_le:
  "c \<le> p \<Longrightarrow> p + 1 \<noteq> 0 \<Longrightarrow> file_size_for_pages c \<le> file_size_for_pages (p + 1)"
  by (simp add: file_size_for_pages_def word_le_nat_alt max_def unat_add_one split: if_splits)

lemma set_len_grow:
  assumes "pf_len f \<le> n" "\<forall>i \<ge> pf_len f. pf_at f i = 0"
  shows "pf_set_len n f = f\<lparr>pf_len := n\<rparr>"
  using assms by (auto simp: pf_set_len_def fun_eq_iff)

lemma grow_ok:
  assumes "codecs_ok C" "pt_mmap t" "file_ok C t" "cache_ok C t" "p + 1 \<noteq> 0"
  defines "t' \<equiv> grow_if_needed C p t"
  shows "file_ok C t'" "cache_ok C t'" "pt_abs C t' = pt_abs C t" "p < pt_page_count t'" "pt_mmap t'"
    "pt_rows_per_page t' = pt_rows_per_page t" "pt_next_id t' = pt_next_id t"
proof -
  show "pt_mmap t'" "pt_rows_per_page t' = pt_rows_per_page t" "pt_next_id t' = pt_next_id t"
    using assms(2) by (auto simp: t'_def grow_if_needed_def Let_def ensure_mmap_def)
  have *: "file_ok C t' \<and> cache_ok C t' \<and> pt_abs C t' = pt_abs C t \<and> p < pt_page_count t'"
  proof (cases "p < pt_page_count t")
    case True
    then show ?thesis using assms by (simp add: grow_if_needed_def)
  next
    case False
    then have le: "pt_page_count t \<le> p" by simp
    let ?f = "(pt_file t)\<lparr>pf_len := file_size_for_pages (p + 1)\<rparr>"
    let ?t = "t\<lparr>pt_page_count := p + 1, pt_file := ?f, pt_mmap := True\<rparr>"
    have "slot_offset (pt_page_count t) \<le> pf_len (pt_file t)"
      using assms(3) by (simp add: file_ok_def slot_offset_def file_size_for_pages_def max_def word_le_nat_alt)
    then have "pf_set_len (file_size_for_pages (p + 1)) (pt_file t) = ?f"
      using assms(3) file_size_le [OF le assms(5)] by (intro set_len_grow) (auto simp: file_ok_def)
    moreover have one: "max (p + 1) 1 = p + 1"
      using assms(5) by (simp add: max_def word_le_nat_alt unat_add_one unat_eq_0)
    ultimately have t': "t' = write_header C ?t"
      using False assms(2)
      by (simp add: t'_def grow_if_needed_def Let_def ensure_mmap_def)
    have less: "p < p + 1" using assms(5) by (simp add: word_less_nat_alt unat_add_one)
    have slots: "slot_len ?f q = slot_len (pt_file t) q" "slot_body C ?f q = slot_body C (pt_file t) q" for q
      by (simp_all add: slot_len_def slot_body_def pf_read_def)
    have fresh: "slot_len (pt_file t) q = 0" if "pt_page_count t \<le> q" for q
    proof (rule zero_slot)
      have "slot_offset (pt_page_count t) \<le> slot_offset q"
        using that by (simp add: slot_offset_def word_le_nat_alt)
      then show "\<forall>i \<ge> slot_offset q. pf_at (pt_file t) i = 0" using assms(3) by (auto simp: file_ok_def)
    qed
    have "slot_ok C (pt_rows_per_page t) ?f q" if "q < p + 1" for q
    proof (cases "q < pt_page_count t")
      case True
      then show ?thesis using assms(3) slots
        by (simp add: file_ok_def slot_ok_def) (simp add: pf_read_def)
    next
      case False
      then have "slot_len ?f q = 0" using fresh slots by simp
      then show ?thesis by (simp add: slot_ok_def slot_body_def PAGE_SLOT_BYTES_def)
    qed
    moreover have "slot_offset (pt_page_count t) \<le> slot_offset (p + 1)"
      using le less by (simp add: slot_offset_def word_le_nat_alt word_less_nat_alt)
    ultimately have fok: "file_ok C ?t" using assms(3) by (auto simp: file_ok_def)
    have cok: "cache_ok C ?t"
      using assms(4) slots le less by (fastforce simp: cache_ok_def intro: order.strict_trans)
    have "pt_abs C ?t = pt_abs C t"
      using slots fresh le less by (auto simp: pt_abs_def Let_def fun_eq_iff slot_body_def not_less)
    then show ?thesis
      using write_header_ok [OF assms(1) _ fok cok] assms(2) less unfolding t' by simp
  qed
  then show "file_ok C t'" "cache_ok C t'" "pt_abs C t' = pt_abs C t" "p < pt_page_count t'"
    by blast+
qed

subsection \<open>Operations\<close>

text \<open>The parts of the invariant that do not mention the id counter.\<close>

definition pages_ok :: "page_codecs \<Rightarrow> page_table \<Rightarrow> bool" where
  "pages_ok C t \<longleftrightarrow> codecs_ok C \<and> pt_mmap t \<and> file_ok C t \<and> cache_ok C t"

lemma pt_inv_alt: "pt_inv C t \<longleftrightarrow> pages_ok C t \<and> (\<forall>i. pt_abs C t i \<noteq> None \<longrightarrow> i < pt_next_id t)"
  by (auto simp: pt_inv_def pages_ok_def)

lemma pages_ok_next_id [simp]:
  "pages_ok C (t\<lparr>pt_next_id := n\<rparr>) = pages_ok C t" "pt_abs C (t\<lparr>pt_next_id := n\<rparr>) = pt_abs C t"
  by (simp_all add: pages_ok_def file_ok_def cache_ok_def pt_abs_def fun_eq_iff Let_def)

lemma pages_ok_write_header:
  "pages_ok C t \<Longrightarrow> pages_ok C (write_header C t) \<and> pt_abs C (write_header C t) = pt_abs C t"
  using write_header_ok [of C t] by (simp add: pages_ok_def)

lemma load_page_law:
  assumes "pages_ok C t" "p < pt_page_count t"
  obtains b t' where "load_page C p t = (Inr b, t')" "distinct (map fst b)"
    "map_of b = map_of (slot_body C (pt_file t) p)" "pages_ok C t'" "pt_abs C t' = pt_abs C t"
    "pt_page_count t' = pt_page_count t" "pt_rows_per_page t' = pt_rows_per_page t"
    "pt_next_id t' = pt_next_id t" "pt_file t' = pt_file t"
proof -
  from assms load_page_ok [of t C p] obtain b c where
    "load_page C p t = (Inr b, t\<lparr>pt_cache := c\<rparr>)" "distinct (map fst b)"
    "map_of b = map_of (slot_body C (pt_file t) p)" "cache_ok C (t\<lparr>pt_cache := c\<rparr>)"
    by (auto simp: pages_ok_def)
  moreover from this(4) assms(1) have "pages_ok C (t\<lparr>pt_cache := c\<rparr>)"
    by (simp add: pages_ok_def file_ok_def)
  moreover have "pt_abs C (t\<lparr>pt_cache := c\<rparr>) = pt_abs C t"
    by (simp add: pt_abs_def fun_eq_iff Let_def)
  ultimately show thesis by (intro that [of b "t\<lparr>pt_cache := c\<rparr>"]) simp_all
qed

text \<open>Reading a page, changing one row of it and storing it: the pattern of every write.\<close>

lemma store_page_law:
  assumes "pages_ok C t" "p < pt_page_count t" "distinct (map fst b)"
    and "\<forall>i \<in> fst ` set b. pt_page_id i (pt_rows_per_page t) = p"
    and "store_page C p b t = (res, t')"
  shows "pages_ok C t' \<and> pt_next_id t' = pt_next_id t \<and> pt_page_count t' = pt_page_count t
    \<and> pt_rows_per_page t' = pt_rows_per_page t
    \<and> (case res of Inl _ \<Rightarrow> pt_abs C t' = pt_abs C t
       | Inr _ \<Rightarrow> pt_abs C t' = (\<lambda>i. if pt_page_id i (pt_rows_per_page t) = p then map_of b i
                                else pt_abs C t i))"
proof (cases "length (ser (body_codec C) b) + 4 \<le> PAGE_SLOT_BYTES")
  case True
  let ?t = "t\<lparr>pt_file := store_slot C p b (pt_file t), pt_cache := lru_insert p b (pt_cache t)\<rparr>"
  have res: "res = Inr ()" "t' = ?t"
    using assms(1,2,5) True store_page_eq [of t p C b] by (auto simp: pages_ok_def)
  have parts: "codecs_ok C" "file_ok C t" "cache_ok C t" "pt_mmap t"
    using assms(1) by (auto simp: pages_ok_def)
  note ok = stored_page_ok [OF parts(1-3) assms(2) True assms(3,4)]
  have "pages_ok C ?t" using ok(1,2) parts by (simp add: pages_ok_def)
  moreover have "pt_abs C ?t = (\<lambda>i. if pt_page_id i (pt_rows_per_page t) = p then map_of b i
      else pt_abs C t i)"
    using ok(3) by (rule ext)
  ultimately show ?thesis unfolding res by simp
next
  case False
  then show ?thesis using assms(1,2,5) store_page_eq [of t p C b] by (auto simp: pages_ok_def)
qed

lemma page_ids_of_body:
  assumes "pages_ok C t" "p < pt_page_count t" "map_of b = map_of (slot_body C (pt_file t) p)"
  shows "\<forall>i \<in> fst ` set b. pt_page_id i (pt_rows_per_page t) = p"
    and "pt_page_id i (pt_rows_per_page t) = p \<Longrightarrow> pt_abs C t i = map_of b i"
proof -
  have "fst ` set b = fst ` set (slot_body C (pt_file t) p)"
    using assms(3) by (metis dom_map_of_conv_image_fst)
  then show "\<forall>i \<in> fst ` set b. pt_page_id i (pt_rows_per_page t) = p"
    using assms(1,2) by (auto simp: pages_ok_def file_ok_def slot_ok_def)
  show "pt_page_id i (pt_rows_per_page t) = p \<Longrightarrow> pt_abs C t i = map_of b i"
    using assms(2,3) by (simp add: pt_abs_def)
qed

text \<open>\<open>put_row\<close> stores the changed copy of the page of the row, in a table with the same rows.\<close>

lemma put_row_steps:
  assumes "pages_ok C t" "pt_page_id i (pt_rows_per_page t) + 1 \<noteq> 0"
  defines "p \<equiv> pt_page_id i (pt_rows_per_page t)"
  obtains b t1 where "put_row C i r t = store_page C p (AList.update i r b) t1"
    "distinct (map fst b)" "\<forall>j. map_of b j = (if pt_page_id j (pt_rows_per_page t) = p then pt_abs C t j else None)"
    "pages_ok C t1" "pt_abs C t1 = pt_abs C t" "p < pt_page_count t1"
    "pt_rows_per_page t1 = pt_rows_per_page t" "pt_next_id t1 = pt_next_id t"
proof -
  let ?g = "grow_if_needed C p t"
  have parts: "codecs_ok C" "pt_mmap t" "file_ok C t" "cache_ok C t"
    using assms(1) by (auto simp: pages_ok_def)
  note g = grow_ok [OF parts assms(2) [folded p_def]]
  have gok: "pages_ok C ?g" using g parts(1) by (simp add: pages_ok_def)
  obtain b t1 where l: "load_page C p ?g = (Inr b, t1)" "distinct (map fst b)"
    "map_of b = map_of (slot_body C (pt_file ?g) p)" "pages_ok C t1" "pt_abs C t1 = pt_abs C ?g"
    "pt_page_count t1 = pt_page_count ?g" "pt_rows_per_page t1 = pt_rows_per_page ?g"
    "pt_next_id t1 = pt_next_id ?g" "pt_file t1 = pt_file ?g"
    by (rule load_page_law [OF gok g(4)])
  note body = page_ids_of_body [OF gok g(4) l(3)]
  have put: "put_row C i r t = store_page C p (AList.update i r b) t1"
    using l(1) by (simp add: put_row_def Let_def sbind_def p_def)
  have rows: "map_of b j = (if pt_page_id j (pt_rows_per_page t) = p then pt_abs C t j else None)" for j
  proof (cases "pt_page_id j (pt_rows_per_page t) = p")
    case True
    then show ?thesis using body(2) [of j] g(3,6) by simp
  next
    case False
    then show ?thesis using body(1) g(6) by (auto simp: map_of_eq_None_iff)
  qed
  show thesis by (rule that [OF put l(2) allI [OF rows] l(4)]) (use l(5-8) g(3,4,6,7) in simp_all)
qed

lemma put_row_law:
  assumes "pages_ok C t" "pt_page_id i (pt_rows_per_page t) + 1 \<noteq> 0" "put_row C i r t = (res, t')"
  shows "pages_ok C t' \<and> pt_next_id t' = pt_next_id t \<and> pt_rows_per_page t' = pt_rows_per_page t
    \<and> (case res of Inl _ \<Rightarrow> pt_abs C t' = pt_abs C t | Inr _ \<Rightarrow> pt_abs C t' = (pt_abs C t)(i \<mapsto> r))"
proof -
  let ?p = "pt_page_id i (pt_rows_per_page t)"
  obtain b t1 where b: "put_row C i r t = store_page C ?p (AList.update i r b) t1"
    "distinct (map fst b)" "\<forall>j. map_of b j = (if pt_page_id j (pt_rows_per_page t) = ?p then pt_abs C t j else None)"
    "pages_ok C t1" "pt_abs C t1 = pt_abs C t" "?p < pt_page_count t1"
    "pt_rows_per_page t1 = pt_rows_per_page t" "pt_next_id t1 = pt_next_id t"
    by (rule put_row_steps [OF assms(1,2), where r = r])
  have pg: "\<forall>j \<in> fst ` set (AList.update i r b). pt_page_id j (pt_rows_per_page t1) = ?p"
  proof
    fix j assume "j \<in> fst ` set (AList.update i r b)"
    then have "j = i \<or> map_of b j \<noteq> None" by (auto simp: dom_update map_of_eq_None_iff)
    then show "pt_page_id j (pt_rows_per_page t1) = ?p" using b(3) [rule_format, of j] b(7) by (auto split: if_splits)
  qed
  note s = store_page_law [OF b(4,6) distinct_update [OF b(2)] pg assms(3) [unfolded b(1)]]
  have "(\<lambda>j. if pt_page_id j (pt_rows_per_page t1) = ?p then map_of (AList.update i r b) j
      else pt_abs C t1 j) = (pt_abs C t)(i \<mapsto> r)"
    using b(3,5,7) by (auto simp: fun_eq_iff update_conv')
  with s b(5,7,8) show ?thesis by (auto split: sum.splits)
qed

text \<open>A row is stored whenever the rows of its page still fit a slot, the only way a write can fail.\<close>

lemma put_row_succeeds:
  assumes "pages_ok C t" "pt_page_id i (pt_rows_per_page t) + 1 \<noteq> 0"
    and "\<And>b. distinct (map fst b) \<Longrightarrow>
      \<forall>j. map_of b j = (if pt_page_id j (pt_rows_per_page t) = pt_page_id i (pt_rows_per_page t)
             then ((pt_abs C t)(i \<mapsto> r)) j else None) \<Longrightarrow>
      length (ser (body_codec C) b) + 4 \<le> PAGE_SLOT_BYTES"
  shows "\<exists>t'. put_row C i r t = (Inr (), t')"
proof -
  let ?p = "pt_page_id i (pt_rows_per_page t)"
  obtain b t1 where b: "put_row C i r t = store_page C ?p (AList.update i r b) t1"
    "distinct (map fst b)" "\<forall>j. map_of b j = (if pt_page_id j (pt_rows_per_page t) = ?p then pt_abs C t j else None)"
    "pages_ok C t1" "?p < pt_page_count t1"
    by (rule put_row_steps [OF assms(1,2), where r = r])
  have "length (ser (body_codec C) (AList.update i r b)) + 4 \<le> PAGE_SLOT_BYTES"
    by (rule assms(3)) (use b(2,3) in \<open>auto simp: distinct_update update_conv'\<close>)
  then show ?thesis using b store_page_eq [of t1 ?p C] by (simp add: pages_ok_def)
qed

text \<open>A row id the table can hold: its page and the id after it do not wrap around.\<close>

definition pt_fits :: "page_table \<Rightarrow> u64 \<Rightarrow> bool" where
  "pt_fits t i \<longleftrightarrow> pt_page_id i (pt_rows_per_page t) + 1 \<noteq> 0 \<and> i + 1 \<noteq> 0"

lemma less_add_one: "i + 1 \<noteq> 0 \<Longrightarrow> j < i + 1 \<longleftrightarrow> j \<le> (i :: 'a::len word)"
  by (simp add: word_less_nat_alt word_le_nat_alt unat_add_one less_Suc_eq_le)

lemma pt_apply_insert_law:
  assumes "pt_inv C t" "pt_fits t i" "pt_apply_insert C i r t = (res, t')"
  shows "pt_inv C t' \<and> pt_next_id t' = (if pt_next_id t \<le> i then i + 1 else pt_next_id t)
    \<and> pt_rows_per_page t' = pt_rows_per_page t \<and>
    (case res of Inr _ \<Rightarrow> pt_abs C t' = (pt_abs C t)(i \<mapsto> r) | Inl _ \<Rightarrow> pt_abs C t' = pt_abs C t)"
proof -
  let ?t = "if pt_next_id t \<le> i then t\<lparr>pt_next_id := i + 1\<rparr> else t"
  have ok: "pages_ok C ?t" "pt_abs C ?t = pt_abs C t" "pt_rows_per_page ?t = pt_rows_per_page t"
    using assms(1) by (simp_all add: pt_inv_alt)
  have less: "i < pt_next_id ?t" "\<And>j. pt_abs C t j \<noteq> None \<Longrightarrow> j < pt_next_id ?t"
    using assms(1,2) less_add_one [of i] by (auto simp: pt_inv_alt pt_fits_def)
  obtain res1 t1 where put: "put_row C i r ?t = (res1, t1)" by fastforce
  have "pt_page_id i (pt_rows_per_page ?t) + 1 \<noteq> 0" using assms(2) ok(3) by (simp add: pt_fits_def)
  note p = put_row_law [OF ok(1) this put]
  show ?thesis
  proof (cases res1)
    case (Inl e)
    then have "res = Inl e" "t' = t1" using assms(3) put by (simp_all add: pt_apply_insert_def sbind_def)
    then show ?thesis using p Inl less(2) ok(2) by (auto simp: pt_inv_alt)
  next
    case (Inr u)
    then have res: "res = Inr ()" "t' = write_header C t1"
      using assms(3) put by (simp_all add: pt_apply_insert_def sbind_def)
    have "pages_ok C t'" "pt_abs C t' = (pt_abs C t)(i \<mapsto> r)"
      using p Inr ok(2) pages_ok_write_header [of C t1] unfolding res by auto
    then show ?thesis using less p unfolding res by (auto simp: pt_inv_alt)
  qed
qed

lemma pt_insert_eq:
  assumes "pt_next_id t = i"
  shows "pt_insert C r t = (case pt_apply_insert C i r t of (Inl e, t') \<Rightarrow> (Inl e, t') | (Inr _, t') \<Rightarrow> (Inr i, t'))"
  using assms
  by (auto simp: pt_insert_def pt_apply_insert_def Let_def sbind_def split: prod.splits sum.splits)

lemma pt_insert_law:
  assumes "pt_inv C t" "pt_fits t (pt_next_id t)" "pt_insert C r t = (res, t')"
  shows "pt_inv C t' \<and> pt_next_id t' = pt_next_id t + 1 \<and> pt_rows_per_page t' = pt_rows_per_page t
    \<and> (case res of Inr i \<Rightarrow> i = pt_next_id t \<and> pt_abs C t' = (pt_abs C t)(i \<mapsto> r)
      | Inl _ \<Rightarrow> pt_abs C t' = pt_abs C t)"
proof -
  obtain res1 t1 where a: "pt_apply_insert C (pt_next_id t) r t = (res1, t1)" by fastforce
  show ?thesis using pt_apply_insert_law [OF assms(1,2) a] assms(3) a
    by (auto simp: pt_insert_eq split: sum.splits)
qed

lemma pt_get_law:
  assumes "pt_inv C t"
  shows "\<exists>t'. pt_get C i t = (Inr (pt_abs C t i), t') \<and> pt_inv C t' \<and> pt_abs C t' = pt_abs C t
    \<and> pt_next_id t' = pt_next_id t \<and> pt_rows_per_page t' = pt_rows_per_page t"
proof (cases "pt_page_id i (pt_rows_per_page t) < pt_page_count t")
  case True
  have "pages_ok C t" using assms by (simp add: pt_inv_alt)
  from load_page_law [OF this True] obtain b t1 where
    "load_page C (pt_page_id i (pt_rows_per_page t)) t = (Inr b, t1)"
    "map_of b = map_of (slot_body C (pt_file t) (pt_page_id i (pt_rows_per_page t)))"
    "pages_ok C t1" "pt_abs C t1 = pt_abs C t" "pt_next_id t1 = pt_next_id t"
    "pt_rows_per_page t1 = pt_rows_per_page t" by metis
  moreover have "\<not> pt_page_count t \<le> pt_page_id i (pt_rows_per_page t)" using True by simp
  moreover have "pt_abs C t i = map_of (slot_body C (pt_file t) (pt_page_id i (pt_rows_per_page t))) i"
    using True by (simp add: pt_abs_def)
  ultimately show ?thesis using assms by (simp add: pt_get_def sbind_def Let_def pt_inv_alt)
next
  case False
  then have "pt_page_count t \<le> pt_page_id i (pt_rows_per_page t)" by simp
  with False show ?thesis using assms by (simp add: pt_get_def pt_abs_def Let_def)
qed

text \<open>Both \<open>update\<close> and \<open>delete\<close> replace the page of an existing row by a changed copy.\<close>

lemma change_row_law:
  assumes inv: "pt_inv C t" and ch: "\<And>b. distinct (map fst b) \<Longrightarrow> distinct (map fst (ch b))"
    "\<And>b. fst ` set (ch b) \<subseteq> insert i (fst ` set b)" "\<And>b. map_of (ch b) = (map_of b)(i := v)"
    and run: "(let p = pt_page_id i (pt_rows_per_page t)
      in if pt_page_count t \<le> p then (Inr False, t)
         else sbind (load_page C p) (\<lambda>body. if map_of body i \<noteq> None
                then sbind (store_page C p (ch body)) (\<lambda>_. sret True) else sret False) t) = (res, t')"
  shows "pt_inv C t' \<and> pt_next_id t' = pt_next_id t \<and> pt_rows_per_page t' = pt_rows_per_page t \<and>
    (case res of Inr b \<Rightarrow> b = (pt_abs C t i \<noteq> None) \<and>
        pt_abs C t' = (if b then (pt_abs C t)(i := v) else pt_abs C t)
     | Inl _ \<Rightarrow> pt_abs C t' = pt_abs C t)"
proof (cases "pt_page_id i (pt_rows_per_page t) < pt_page_count t")
  case False
  then have "pt_page_count t \<le> pt_page_id i (pt_rows_per_page t)" by simp
  then show ?thesis using False inv run by (simp add: Let_def) (auto simp: pt_abs_def Let_def)
next
  case True
  let ?p = "pt_page_id i (pt_rows_per_page t)"
  have nle: "\<not> pt_page_count t \<le> ?p" using True by simp
  have ok: "pages_ok C t" using inv by (simp add: pt_inv_alt)
  obtain b t1 where l: "load_page C ?p t = (Inr b, t1)" "distinct (map fst b)"
    "map_of b = map_of (slot_body C (pt_file t) ?p)" "pages_ok C t1" "pt_abs C t1 = pt_abs C t"
    "pt_page_count t1 = pt_page_count t" "pt_rows_per_page t1 = pt_rows_per_page t"
    "pt_next_id t1 = pt_next_id t" "pt_file t1 = pt_file t"
    by (rule load_page_law [OF ok True])
  note body = page_ids_of_body [OF ok True l(3)]
  have get: "map_of b i = pt_abs C t i" using body(2) [of i] by simp
  show ?thesis
  proof (cases "map_of b i")
    case None
    then have "res = Inr False" "t' = t1" using run nle l(1) by (auto simp: sbind_def Let_def)
    then show ?thesis using None get l inv by (simp add: pt_inv_alt)
  next
    case (Some r0)
    obtain res1 t2 where st: "store_page C ?p (ch b) t1 = (res1, t2)" by fastforce
    have p1: "?p < pt_page_count t1" using True l(6) by simp
    have pg: "\<forall>j \<in> fst ` set (ch b). pt_page_id j (pt_rows_per_page t1) = ?p"
    proof
      fix j assume "j \<in> fst ` set (ch b)"
      then have "j = i \<or> j \<in> fst ` set b" using ch(2) [of b] by blast
      then show "pt_page_id j (pt_rows_per_page t1) = ?p" using body(1) l(7) by auto
    qed
    note s = store_page_law [OF l(4) p1 ch(1) [OF l(2)] pg st]
    have upd: "(\<lambda>j. if pt_page_id j (pt_rows_per_page t1) = ?p then map_of (ch b) j else pt_abs C t1 j) =
        (pt_abs C t)(i := v)"
      using body(2) l(5,7) ch(3) [of b] by (auto simp: fun_eq_iff)
    have "res = (case res1 of Inl e \<Rightarrow> Inl e | Inr _ \<Rightarrow> Inr True)" "t' = t2"
      using run nle l(1) Some st by (auto simp: sbind_def Let_def split: sum.splits)
    then show ?thesis using s upd Some get inv l(5,7,8)
      by (auto simp: pt_inv_alt split: sum.splits if_splits)
  qed
qed

lemma pt_update_law:
  assumes "pt_inv C t" "pt_update C i r t = (res, t')"
  shows "pt_inv C t' \<and> pt_next_id t' = pt_next_id t \<and> pt_rows_per_page t' = pt_rows_per_page t \<and>
    (case res of Inr b \<Rightarrow> b = (pt_abs C t i \<noteq> None) \<and> pt_abs C t' = (if b then (pt_abs C t)(i \<mapsto> r) else pt_abs C t)
     | Inl _ \<Rightarrow> pt_abs C t' = pt_abs C t)"
proof -
  have sub: "fst ` set (AList.update i r b) \<subseteq> insert i (fst ` set b)" for b by (simp add: dom_update)
  from change_row_law [OF assms(1) distinct_update sub update_conv' assms(2) [unfolded pt_update_def]]
  show ?thesis by (simp split: sum.splits if_splits)
qed

lemma pt_delete_law:
  assumes "pt_inv C t" "pt_delete C i t = (res, t')"
  shows "pt_inv C t' \<and> pt_next_id t' = pt_next_id t \<and> pt_rows_per_page t' = pt_rows_per_page t \<and>
    (case res of Inr b \<Rightarrow> b = (pt_abs C t i \<noteq> None) \<and> pt_abs C t' = (pt_abs C t)(i := None)
     | Inl _ \<Rightarrow> pt_abs C t' = pt_abs C t)"
proof -
  have sub: "fst ` set (AList.delete i b) \<subseteq> insert i (fst ` set b)" for b
    using dom_delete_subset [of i b] by blast
  from change_row_law [OF assms(1) distinct_delete sub delete_conv' assms(2) [unfolded pt_delete_def]]
  show ?thesis by (auto simp: fun_upd_idem split: sum.splits if_splits)
qed

lemma scan_pages:
  assumes "pages_ok C t" "\<forall>p \<in> set ps. p < pt_page_count t" "distinct ps"
  shows "\<exists>xs t'. sfold (\<lambda>p acc. sbind (load_page C p) (\<lambda>body. sret (acc @ body))) ps acc t =
      (Inr (acc @ xs), t') \<and> distinct (map fst xs)
    \<and> (\<forall>i. map_of xs i = (if pt_page_id i (pt_rows_per_page t) \<in> set ps then pt_abs C t i else None))
    \<and> pages_ok C t' \<and> pt_abs C t' = pt_abs C t \<and> pt_next_id t' = pt_next_id t \<and> pt_rows_per_page t' = pt_rows_per_page t"
  using assms
proof (induction ps arbitrary: acc t)
  case Nil
  then show ?case by simp
next
  case (Cons p ps)
  have p: "p < pt_page_count t" using Cons.prems(2) by simp
  obtain b t1 where l: "load_page C p t = (Inr b, t1)" "distinct (map fst b)"
    "map_of b = map_of (slot_body C (pt_file t) p)" "pages_ok C t1" "pt_abs C t1 = pt_abs C t"
    "pt_page_count t1 = pt_page_count t" "pt_rows_per_page t1 = pt_rows_per_page t"
    "pt_next_id t1 = pt_next_id t" "pt_file t1 = pt_file t"
    by (rule load_page_law [OF Cons.prems(1) p])
  let ?step = "\<lambda>p acc. sbind (load_page C p) (\<lambda>body. sret (acc @ body))"
  have step: "?step p acc t = (Inr (acc @ b), t1)" using l(1) by (simp add: sbind_def)
  note body = page_ids_of_body [OF Cons.prems(1) p l(3)]
  have rest: "\<forall>p \<in> set ps. p < pt_page_count t1" "distinct ps" using Cons.prems(2,3) l(6) by simp_all
  from Cons.IH [OF l(4) rest, of "acc @ b"] obtain xs t' where
    xs: "sfold (\<lambda>p acc. sbind (load_page C p) (\<lambda>body. sret (acc @ body))) ps (acc @ b) t1 =
        (Inr ((acc @ b) @ xs), t')" "distinct (map fst xs)"
      "\<And>i. map_of xs i = (if pt_page_id i (pt_rows_per_page t1) \<in> set ps then pt_abs C t1 i else None)"
      "pages_ok C t'" "pt_abs C t' = pt_abs C t1" "pt_next_id t' = pt_next_id t1"
      "pt_rows_per_page t' = pt_rows_per_page t1"
    by blast
  have disj: "fst ` set b \<inter> fst ` set xs = {}"
  proof (intro equalityI subsetI)
    fix i assume i: "i \<in> fst ` set b \<inter> fst ` set xs"
    then have "map_of xs i \<noteq> None" by (simp add: map_of_eq_None_iff)
    then have "pt_page_id i (pt_rows_per_page t) \<in> set ps" using xs(3) [of i] l(7) by (simp split: if_splits)
    then show "i \<in> {}" using i body(1) Cons.prems(3) by auto
  qed simp
  have "map_of (b @ xs) i =
      (if pt_page_id i (pt_rows_per_page t) \<in> set (p # ps) then pt_abs C t i else None)" for i
  proof (cases "pt_page_id i (pt_rows_per_page t) = p")
    case True
    then have "map_of xs i = None" using xs(3) [of i] l(7) Cons.prems(3) by auto
    then show ?thesis using True body(2) [of i] by (simp add: map_add_def split: option.splits)
  next
    case False
    then have "map_of b i = None" using body(1) by (auto simp: map_of_eq_None_iff)
    then show ?thesis using False xs(3) [of i] l(5,7) by (simp add: map_add_def split: option.splits)
  qed
  moreover have "distinct (map fst (b @ xs))" using l(2) xs(2) disj by simp
  moreover have "sfold ?step (p # ps) acc t = (Inr (acc @ b @ xs), t')"
    using xs(1) by (simp only: sfold.simps sbind_Inr [where m = "?step p acc", OF step] append_assoc)
  moreover have "pt_abs C t' = pt_abs C t" "pt_next_id t' = pt_next_id t"
    "pt_rows_per_page t' = pt_rows_per_page t" using l xs(5-7) by simp_all
  ultimately show ?case using xs(4) by blast
qed

lemma set_page_ids: "set (page_ids t) = {p. p < pt_page_count t}" "distinct (page_ids t)"
proof -
  have small: "unat (word_of_nat k :: u32) = k" if "k < unat (pt_page_count t)" for k
  proof -
    have "unat (pt_page_count t) < 2 ^ 32" using unsigned_less [of "pt_page_count t"] by simp
    then show ?thesis using that by (simp add: unsigned_of_nat take_bit_nat_eq_self)
  qed
  show "distinct (page_ids t)"
    using small by (auto simp: page_ids_def distinct_map inj_on_def) (metis small)
  show "set (page_ids t) = {p. p < pt_page_count t}"
  proof (intro equalityI subsetI)
    fix p assume "p \<in> {p. p < pt_page_count t}"
    then show "p \<in> set (page_ids t)"
      by (auto simp: page_ids_def word_less_nat_alt image_iff intro!: bexI [of _ "unat p"])
  qed (auto simp: page_ids_def word_less_nat_alt small)
qed

lemma pt_scan_law:
  assumes "pt_inv C t"
  shows "\<exists>xs t'. pt_scan C t = (Inr xs, t') \<and> lists_rows xs (pt_abs C t)
    \<and> pt_inv C t' \<and> pt_abs C t' = pt_abs C t \<and> pt_next_id t' = pt_next_id t \<and> pt_rows_per_page t' = pt_rows_per_page t"
proof -
  have ok: "pages_ok C t" "\<forall>p \<in> set (page_ids t). p < pt_page_count t"
    using assms by (simp_all add: pt_inv_alt set_page_ids)
  from scan_pages [OF ok set_page_ids(2), of "[]"] obtain xs t' where
    xs: "sfold (\<lambda>p acc. sbind (load_page C p) (\<lambda>body. sret (acc @ body))) (page_ids t) [] t = (Inr xs, t')"
      "distinct (map fst xs)"
      "\<And>i. map_of xs i = (if pt_page_id i (pt_rows_per_page t) < pt_page_count t then pt_abs C t i else None)"
      "pages_ok C t'" "pt_abs C t' = pt_abs C t" "pt_next_id t' = pt_next_id t"
      "pt_rows_per_page t' = pt_rows_per_page t"
    unfolding set_page_ids append_Nil mem_Collect_eq by blast
  have "map_of xs = pt_abs C t" using xs(3) by (auto simp: fun_eq_iff pt_abs_def Let_def)
  then show ?thesis
    using xs lists_rows_sort [OF xs(2)] assms by (simp add: pt_scan_def sbind_def pt_inv_alt)
qed

lemma pt_fits_cong: "pt_rows_per_page t' = pt_rows_per_page t \<Longrightarrow> pt_fits t' = pt_fits t"
  by (simp add: pt_fits_def fun_eq_iff)

interpretation paged: strict_store "pt_inv C" "pt_abs C" pt_next_id pt_fits "pt_insert C"
  "pt_apply_insert C" "pt_get C" "pt_scan C" "pt_update C" "pt_delete C" for C
proof
  fix s s' :: page_table and i :: u64 and r :: row
    and res :: "u64 res" and ares :: "unit res" and bres :: "bool res"
  show "pt_inv C s \<Longrightarrow> pt_abs C s i \<noteq> None \<Longrightarrow> i < pt_next_id s" by (simp add: pt_inv_alt)
  show "pt_inv C s \<Longrightarrow> pt_fits s (pt_next_id s) \<Longrightarrow> pt_insert C r s = (res, s') \<Longrightarrow>
      pt_inv C s' \<and> pt_next_id s' = pt_next_id s + 1 \<and> pt_fits s' = pt_fits s \<and>
      (case res of Inr i \<Rightarrow> i = pt_next_id s \<and> pt_abs C s' = (pt_abs C s)(i \<mapsto> r)
       | Inl _ \<Rightarrow> pt_abs C s' = pt_abs C s)"
    using pt_insert_law [of C s r res s'] pt_fits_cong [of s' s] by blast
  show "pt_inv C s \<Longrightarrow> pt_fits s i \<Longrightarrow> pt_apply_insert C i r s = (ares, s') \<Longrightarrow>
      pt_inv C s' \<and> pt_next_id s' = (if pt_next_id s \<le> i then i + 1 else pt_next_id s)
      \<and> pt_fits s' = pt_fits s \<and>
      (case ares of Inr _ \<Rightarrow> pt_abs C s' = (pt_abs C s)(i \<mapsto> r) | Inl _ \<Rightarrow> pt_abs C s' = pt_abs C s)"
    using pt_apply_insert_law [of C s i r ares s'] pt_fits_cong [of s' s] by blast
  show "pt_inv C s \<Longrightarrow> \<exists>s'. pt_get C i s = (Inr (pt_abs C s i), s') \<and> pt_inv C s'
      \<and> pt_abs C s' = pt_abs C s \<and> pt_next_id s' = pt_next_id s \<and> pt_fits s' = pt_fits s"
    using pt_get_law [of C s i] pt_fits_cong by blast
  show "pt_inv C s \<Longrightarrow> \<exists>xs s'. pt_scan C s = (Inr xs, s') \<and> lists_rows xs (pt_abs C s)
      \<and> pt_inv C s' \<and> pt_abs C s' = pt_abs C s \<and> pt_next_id s' = pt_next_id s \<and> pt_fits s' = pt_fits s"
    using pt_scan_law [of C s] pt_fits_cong by blast
  show "pt_inv C s \<Longrightarrow> pt_abs C s i \<noteq> None \<Longrightarrow> pt_update C i r s = (bres, s') \<Longrightarrow>
      pt_inv C s' \<and> pt_next_id s' = pt_next_id s \<and> pt_fits s' = pt_fits s \<and>
      (case bres of Inr b \<Rightarrow> b \<and> pt_abs C s' = (pt_abs C s)(i \<mapsto> r) | Inl _ \<Rightarrow> pt_abs C s' = pt_abs C s)"
    using pt_update_law [of C s i r bres s'] pt_fits_cong [of s' s] by (auto split: sum.splits)
  show "pt_inv C s \<Longrightarrow> pt_abs C s i = None \<Longrightarrow> pt_update C i r s = (bres, s') \<Longrightarrow>
      pt_inv C s' \<and> pt_next_id s' = pt_next_id s \<and> pt_fits s' = pt_fits s \<and> pt_abs C s' = pt_abs C s
      \<and> (case bres of Inr b \<Rightarrow> \<not> b | Inl _ \<Rightarrow> True)"
    using pt_update_law [of C s i r bres s'] pt_fits_cong [of s' s] by (auto split: sum.splits)
  show "pt_inv C s \<Longrightarrow> pt_delete C i s = (bres, s') \<Longrightarrow>
      pt_inv C s' \<and> pt_next_id s' = pt_next_id s \<and> pt_fits s' = pt_fits s \<and>
      (case bres of Inr b \<Rightarrow> b = (pt_abs C s i \<noteq> None) \<and> pt_abs C s' = (pt_abs C s)(i := None)
       | Inl _ \<Rightarrow> pt_abs C s' = pt_abs C s)"
    using pt_delete_law [of C s i bres s'] pt_fits_cong [of s' s] by blast
qed

subsection \<open>Opening\<close>

lemma pt_open_new:
  assumes "codecs_ok C"
  shows "\<exists>t. pt_open C None n rpp = Inr t \<and> pt_inv C t \<and> pt_abs C t = Map.empty \<and> pt_next_id t = 1
    \<and> pt_rows_per_page t = rpp \<and> pt_page_count t = 0 \<and> (\<forall>i. pf_at (pt_file t) i = 0)
    \<and> pf_len (pt_file t) = file_size_for_pages 0"
proof -
  have "max (0 :: u32) 1 = 1" by (simp add: max_def word_le_nat_alt)
  then show ?thesis using assms
    by (auto simp: pt_open_def ensure_mmap_def Let_def pt_inv_def file_ok_def cache_ok_def pt_abs_def
        pf_empty_def pf_set_len_def file_size_for_pages_def lru_new_def lru_wf_def HEADER_SIZE_def
        PAGE_SLOT_BYTES_def)
qed

text \<open>A header written by the table is read back.\<close>

lemma read_header_written:
  assumes "codecs_ok C" "pt_mmap t" "file_ok C t"
  shows "read_header C (pt_file (write_header C t)) =
    Inr \<lparr>ph_next_id = pt_next_id t, ph_page_count = pt_page_count t\<rparr>"
proof -
  let ?h = "ser (header_codec C) \<lparr>ph_next_id = pt_next_id t, ph_page_count = pt_page_count t\<rparr>"
  have f: "pt_file (write_header C t) = pf_write 0 ?h (pt_file t)"
    using assms(2) by (simp add: write_header_def ensure_mmap_def Let_def)
  have len: "length ?h = 12" using assms(1) by (simp add: codecs_ok_def)
  let ?r = "pf_read 0 HEADER_SIZE (pf_write 0 ?h (pt_file t))"
  have "take 12 ?r = ?h"
    by (rule nth_equalityI) (simp_all add: pf_read_def HEADER_SIZE_def len)
  then have "?r = ?h @ drop 12 ?r" by (metis append_take_drop_id)
  moreover have "\<not> pf_len (pt_file t) < HEADER_SIZE"
    using assms(3) by (simp add: file_ok_def file_size_for_pages_def)
  moreover have "deser (header_codec C) (?h @ drop 12 ?r) =
      Inr \<lparr>ph_next_id = pt_next_id t, ph_page_count = pt_page_count t\<rparr>"
    using assms(1) by (simp add: codecs_ok_def)
  ultimately show ?thesis by (simp add: read_header_def f)
qed

text \<open>C36: persistence of a page table. Once the table has been flushed, opening its file again, with
  any cache size, gives a well-formed table with the same rows and the same next row id.\<close>

theorem page_table_reopen:
  assumes "pt_inv C t"
  shows "\<exists>t'. pt_open C (Some (pt_file (pt_flush_all C t))) max_pages (pt_rows_per_page t) = Inr t'
    \<and> pt_inv C t' \<and> pt_abs C t' = pt_abs C t \<and> pt_next_id t' = pt_next_id t"
proof -
  let ?t = "write_header C t"
  have parts: "codecs_ok C" "pt_mmap t" "file_ok C t" "cache_ok C t"
    using assms by (auto simp: pt_inv_def)
  note w = write_header_ok [OF parts]
  let ?t' = "\<lparr>pt_rows_per_page = pt_rows_per_page t, pt_max_pages = max_pages,
    pt_next_id = pt_next_id t, pt_page_count = pt_page_count t, pt_cache = lru_new max_pages,
    pt_mmap = True, pt_file = pt_file ?t\<rparr>"
  have "max (max (pt_page_count t) 1) 1 = max (pt_page_count t) 1" by simp
  then have "\<not> pf_len (pt_file ?t) < file_size_for_pages (max (pt_page_count t) 1)"
    using w(1) by (simp add: file_ok_def file_size_for_pages_def)
  then have "pt_open C (Some (pt_file (pt_flush_all C t))) max_pages (pt_rows_per_page t) = Inr ?t'"
    using read_header_written [OF parts(1-3)]
    by (simp add: pt_open_def pt_flush_all_def ensure_mmap_def)
  moreover have "pt_abs C ?t' = pt_abs C ?t" by (simp add: pt_abs_def fun_eq_iff Let_def)
  then have abs: "pt_abs C ?t' = pt_abs C t" using w(3) by simp
  moreover have "file_ok C ?t'" "cache_ok C ?t'"
    using w(1) by (simp_all add: file_ok_def cache_ok_def lru_new_def lru_wf_def)
  then have "pt_inv C ?t'" using parts(1) assms abs by (simp add: pt_inv_def)
  ultimately show ?thesis by auto
qed

text \<open>C33: a new page table behaves as a counter and a map. Whatever calls the engine makes on it, as
  long as none fails and row ids stay in range, every answer is the one the map gives: inserts
  return consecutive ids from one, lookups and scans return exactly the rows last stored, scans in
  ascending order of the ids, and the cache never changes an answer.\<close>

theorem page_table_runs_as_map:
  assumes "codecs_ok C" and "pt_open C None max_pages rpp = Inr t"
    and "\<forall>k \<le> length cs. pt_fits t (1 + word_of_nat k)"
    and "store_run (store_step (pt_insert C) (pt_get C) (pt_scan C) (pt_update C) (pt_delete C)) cs t =
      (Inr outs, t')"
  shows "store_spec_run cs (1, Map.empty) outs (pt_next_id t', pt_abs C t')"
proof -
  have t: "pt_inv C t" "pt_abs C t = Map.empty" "pt_next_id t = 1"
    using pt_open_new [OF assms(1), of max_pages rpp] assms(2) by auto
  show ?thesis using paged.strict_run_refines [OF t(1) _ assms(4)] assms(3) t(2,3) by simp
qed

text \<open>A page table that was created but never written cannot take its first row after a restart.
  Its file holds a zeroed header, which is read as next row id zero; the page number of row zero
  wraps around to the largest one, growing the file to it wraps the page count to zero, and the
  insert fails with a page out of range.\<close>

theorem unwritten_table_rejects_first_insert:
  assumes "codecs_ok C"
    and "deser (header_codec C) (replicate 16 0) = Inr \<lparr>ph_next_id = 0, ph_page_count = 0\<rparr>"
    and "pt_open C None max_pages DEFAULT_ROWS_PER_PAGE = Inr t"
    and "pt_open C (Some (pt_file t)) max_pages DEFAULT_ROWS_PER_PAGE = Inr t'"
  shows "fst (pt_insert C r t') = Inl (StorageError (''page '' @ show_nat 4294967295 @ '' out of range''))"
proof -
  have new: "\<forall>i. pf_at (pt_file t) i = 0" "pf_len (pt_file t) = file_size_for_pages 0"
    using pt_open_new [OF assms(1), of max_pages DEFAULT_ROWS_PER_PAGE] assms(3) by auto
  have one: "max (0 :: u32) 1 = 1" by (simp add: max_def word_le_nat_alt)
  have "pf_read 0 HEADER_SIZE (pt_file t) = replicate 16 0"
    using new(1) by (simp add: pf_read_def HEADER_SIZE_def map_replicate_const)
  then have "read_header C (pt_file t) = Inr \<lparr>ph_next_id = 0, ph_page_count = 0\<rparr>"
    using new(2) assms(2) by (simp add: read_header_def file_size_for_pages_def)
  then have t': "t' = \<lparr>pt_rows_per_page = 16, pt_max_pages = max_pages, pt_next_id = 0,
      pt_page_count = 0, pt_cache = lru_new max_pages, pt_mmap = True, pt_file = pt_file t\<rparr>"
    using assms(4) new(2) one
    by (simp add: pt_open_def ensure_mmap_def DEFAULT_ROWS_PER_PAGE_def file_size_for_pages_def)
  have page: "pt_page_id 0 16 = 0xFFFFFFFF" by (simp add: pt_page_id_def)
  let ?p = "0xFFFFFFFF :: u32" and ?g = "grow_if_needed C 0xFFFFFFFF (t'\<lparr>pt_next_id := 1\<rparr>)"
  have g: "pt_page_count ?g = 0" "pt_mmap ?g" "pf_len (pt_file ?g) = file_size_for_pages 0"
    "pt_cache ?g = lru_new max_pages"
    using one by (simp_all add: t' grow_if_needed_def Let_def ensure_mmap_def write_header_def
        file_size_for_pages_def)
  have "pf_len (pt_file ?g) < slot_offset ?p + 4"
    using g(3) one by (simp add: file_size_for_pages_def slot_offset_def HEADER_SIZE_def PAGE_SLOT_BYTES_def)
  then have load: "load_page C ?p ?g = (Inr [], ?g\<lparr>pt_cache := pt_cache ?g\<rparr>)"
    using g(2,4) by (simp add: load_page_def lru_get_def lru_new_def ensure_mmap_def read_slot_def Let_def)
  have "store_page C ?p b ?g =
      (Inl (StorageError (''page '' @ show_nat 4294967295 @ '' out of range'')), ?g)" for b
    using g(1) by (simp add: store_page_def)
  then have "fst (put_row C 0 r (t'\<lparr>pt_next_id := 1\<rparr>)) =
      Inl (StorageError (''page '' @ show_nat 4294967295 @ '' out of range''))"
    using load page by (simp add: put_row_def Let_def sbind_def t')
  then show ?thesis
    by (cases "put_row C 0 r (t'\<lparr>pt_next_id := 1\<rparr>)") (simp add: pt_insert_def Let_def sbind_def t')
qed

lemma example_codecs_ok: "codecs_ok example_codecs"
  using example_body_ok example_header_ok by (auto simp: codecs_ok_def)

lemma example_header_zero:
  "deser (header_codec example_codecs) (replicate 16 0) = Inr \<lparr>ph_next_id = 0, ph_page_count = 0\<rparr>"
proof -
  have "(replicate 16 0 :: bytes) =
      ser (header_codec example_codecs) \<lparr>ph_next_id = 0, ph_page_count = 0\<rparr> @ replicate 4 0"
    by (simp add: example_codecs_def codec_of_def be_bytes_def map_replicate_const
        replicate_add [symmetric])
  then show ?thesis using example_header_ok(2) by metis
qed

subsection \<open>A concrete page table\<close>

definition example_table :: page_table where
  "example_table = \<lparr>pt_rows_per_page = 16, pt_max_pages = 2, pt_next_id = 1, pt_page_count = 0,
     pt_cache = lru_new 2, pt_mmap = True, pt_file = \<lparr>pf_len = 65552, pf_at = (\<lambda>_. 0)\<rparr>\<rparr>"

lemma example_table_opens: "pt_open example_codecs None 2 16 = Inr example_table"
  by (simp add: pt_open_def ensure_mmap_def example_table_def pf_empty_def pf_set_len_def
      file_size_for_pages_def HEADER_SIZE_def PAGE_SLOT_BYTES_def max_def word_le_nat_alt)

lemma example_table_inv: "pt_inv example_codecs example_table"
  using pt_open_new [OF example_codecs_ok, of 2 16] example_table_opens by simp

theorem unwritten_table_rejects_first_insert_witness:
  "\<exists>t'. pt_open example_codecs (Some (pt_file example_table)) 2 DEFAULT_ROWS_PER_PAGE = Inr t' \<and>
    fst (pt_insert example_codecs (row_new []) t') =
      Inl (StorageError (''page '' @ show_nat 4294967295 @ '' out of range''))"
proof -
  have open1: "pt_open example_codecs None 2 DEFAULT_ROWS_PER_PAGE = Inr example_table"
    using example_table_opens by (simp add: DEFAULT_ROWS_PER_PAGE_def)
  have "\<not> pf_len (pt_file example_table) < HEADER_SIZE" by (simp add: example_table_def HEADER_SIZE_def)
  moreover have "pf_read 0 HEADER_SIZE (pt_file example_table) = replicate 16 0"
    by (simp add: pf_read_def example_table_def HEADER_SIZE_def map_replicate_const)
  ultimately obtain t' where
    t': "pt_open example_codecs (Some (pt_file example_table)) 2 DEFAULT_ROWS_PER_PAGE = Inr t'"
    using example_header_zero by (simp add: pt_open_def read_header_def)
  from unwritten_table_rejects_first_insert [OF example_codecs_ok example_header_zero open1 t'] t'
  show ?thesis by auto
qed

lemma example_fits: "\<forall>k \<le> 2. pt_fits example_table (1 + word_of_nat k)"
proof (intro allI impI)
  fix k :: nat assume "k \<le> 2"
  then have "k \<in> {0, 1, 2}" by auto
  then show "pt_fits example_table (1 + word_of_nat k)"
    by (auto simp: pt_fits_def pt_page_id_def example_table_def)
qed

lemma singleton_body:
  assumes "distinct (map fst b)" "map_of b = [i \<mapsto> r]"
  shows "b = [(i, r)]"
proof -
  have "set b = {(i, r)}" using assms map_of_inject_set [of b "[(i, r)]"] by simp
  then show ?thesis using assms(1) by (cases b; cases "tl b") (auto simp: distinct_map)
qed

lemma example_row_fits: "length (ser (body_codec example_codecs) [(1, row_new [Int8 v])]) + 4 \<le> PAGE_SLOT_BYTES"
  by (simp add: example_codecs_def codec_of_def enc_pair_def enc_row_def row_new_def PAGE_SLOT_BYTES_def)

lemma example_insert: "\<exists>t'. pt_insert example_codecs (row_new [Int8 5]) example_table = (Inr 1, t')"
proof -
  let ?t = "example_table\<lparr>pt_next_id := 1 + 1\<rparr>" and ?r = "row_new [Int8 5]"
  have ok: "pages_ok example_codecs ?t" "pt_abs example_codecs ?t = Map.empty"
    using example_table_inv by (simp_all add: pt_inv_alt) (simp add: pt_abs_def fun_eq_iff example_table_def)
  have "\<exists>t'. put_row example_codecs 1 ?r ?t = (Inr (), t')"
  proof (rule put_row_succeeds [OF ok(1)])
    show "pt_page_id 1 (pt_rows_per_page ?t) + 1 \<noteq> 0"
      by (simp add: pt_page_id_def example_table_def)
    fix b :: page_body
    assume d: "distinct (map fst b)" and m: "\<forall>j. map_of b j =
      (if pt_page_id j (pt_rows_per_page ?t) = pt_page_id 1 (pt_rows_per_page ?t)
       then ((pt_abs example_codecs ?t)(1 \<mapsto> ?r)) j else None)"
    have "map_of b = [1 \<mapsto> ?r]" using m ok(2) by (auto simp: fun_eq_iff)
    then show "length (ser (body_codec example_codecs) b) + 4 \<le> PAGE_SLOT_BYTES"
      using singleton_body [OF d] example_row_fits by simp
  qed
  then show ?thesis by (auto simp: pt_insert_def Let_def sbind_def) (auto simp: example_table_def)
qed

text \<open>The example table with one row, and an update of it.\<close>

lemma example_page_inserted:
  obtains t where "pt_insert example_codecs (row_new [Int8 5]) example_table = (Inr 1, t)" "pt_inv example_codecs t"
    "pt_abs example_codecs t = [1 \<mapsto> row_new [Int8 5]]" "pt_next_id t = 2" "pt_rows_per_page t = 16"
proof -
  obtain t where t: "pt_insert example_codecs (row_new [Int8 5]) example_table = (Inr 1, t)" using example_insert by blast
  have "pt_fits example_table (pt_next_id example_table)" using example_fits by (auto simp: example_table_def dest: spec [of _ 0])
  from pt_insert_law [OF example_table_inv this t]
  have "pt_inv example_codecs t" "pt_abs example_codecs t = (pt_abs example_codecs example_table)(1 \<mapsto> row_new [Int8 5])"
    "pt_next_id t = pt_next_id example_table + 1" "pt_rows_per_page t = pt_rows_per_page example_table" by auto
  moreover have "pt_abs example_codecs example_table = Map.empty" by (simp add: pt_abs_def fun_eq_iff example_table_def)
  ultimately show ?thesis using that t by (simp add: example_table_def)
qed

lemma example_updated:
  assumes "pt_inv example_codecs t" "pt_abs example_codecs t = [1 \<mapsto> row_new [Int8 5]]" "pt_rows_per_page t = 16"
  shows "\<exists>t'. pt_update example_codecs 1 (row_new [Int8 6]) t = (Inr True, t')"
proof -
  have ok: "pages_ok example_codecs t" using assms(1) by (simp add: pt_inv_alt)
  have p: "pt_page_id 1 16 = 0" by (simp add: pt_page_id_def)
  have count: "0 < pt_page_count t"
    using arg_cong [OF assms(2), of "\<lambda>f. f 1"] assms(3) p by (auto simp: pt_abs_def Let_def split: if_splits)
  obtain b t1 where l: "load_page example_codecs 0 t = (Inr b, t1)" "distinct (map fst b)"
    "map_of b = map_of (slot_body example_codecs (pt_file t) 0)" "pages_ok example_codecs t1" "pt_page_count t1 = pt_page_count t"
    by (rule load_page_law [OF ok count])
  have "map_of b 1 = Some (row_new [Int8 5])"
    using page_ids_of_body(2) [OF ok count l(3), of 1] assms(2,3) p by simp
  moreover have "map_of b i = None" if "i \<noteq> 1" for i
  proof (rule ccontr)
    assume "map_of b i \<noteq> None"
    then have "pt_page_id i (pt_rows_per_page t) = 0"
      using page_ids_of_body(1) [OF ok count l(3)] by (auto simp: map_of_eq_None_iff)
    then show False using page_ids_of_body(2) [OF ok count l(3)] assms(2) that \<open>map_of b i \<noteq> None\<close> by fastforce
  qed
  ultimately have "map_of b = [1 \<mapsto> row_new [Int8 5]]" by (auto simp: fun_eq_iff)
  from singleton_body [OF l(2) this] have b: "b = [(1, row_new [Int8 5])]" .
  have "store_page example_codecs 0 [(1, row_new [Int8 6])] t1 =
      (Inr (), t1\<lparr>pt_file := store_slot example_codecs 0 [(1, row_new [Int8 6])] (pt_file t1),
        pt_cache := lru_insert 0 [(1, row_new [Int8 6])] (pt_cache t1)\<rparr>)"
    using store_page_eq [of t1 0] l(4,5) count example_row_fits by (simp add: pages_ok_def)
  then show ?thesis using l(1) b count assms(3) p by (auto simp: pt_update_def Let_def sbind_def)
qed

theorem page_table_reopen_witness:
  "\<exists>t t'. pt_insert example_codecs (row_new [Int8 5]) example_table = (Inr 1, t)
    \<and> pt_open example_codecs (Some (pt_file (pt_flush_all example_codecs t))) 2 (pt_rows_per_page t) = Inr t'
    \<and> pt_abs example_codecs t' = [1 \<mapsto> row_new [Int8 5]] \<and> pt_next_id t' = 2"
proof -
  obtain t where t: "pt_insert example_codecs (row_new [Int8 5]) example_table = (Inr 1, t)" "pt_inv example_codecs t"
    "pt_abs example_codecs t = [1 \<mapsto> row_new [Int8 5]]" "pt_next_id t = 2" by (rule example_page_inserted)
  from page_table_reopen [OF t(2), of 2] t show ?thesis by auto
qed

theorem page_table_runs_as_map_witness:
  "\<exists>outs t'. store_run (store_step (pt_insert example_codecs) (pt_get example_codecs)
       (pt_scan example_codecs) (pt_update example_codecs) (pt_delete example_codecs))
       [SInsert (row_new [Int8 5]), SGet 1] example_table = (Inr outs, t')
    \<and> store_spec_run [SInsert (row_new [Int8 5]), SGet 1] (1, Map.empty) outs
        (pt_next_id t', pt_abs example_codecs t')"
proof -
  obtain t1 where t1: "pt_insert example_codecs (row_new [Int8 5]) example_table = (Inr 1, t1)"
    using example_insert by blast
  have fits0: "pt_fits example_table (pt_next_id example_table)"
    using example_fits by (auto simp: example_table_def dest: spec [of _ 0])
  have "pt_inv example_codecs t1" using pt_insert_law [OF example_table_inv fits0 t1] by blast
  then obtain v t2 where "pt_get example_codecs 1 t1 = (Inr v, t2)" using pt_get_law by blast
  with t1 have run: "store_run (store_step (pt_insert example_codecs) (pt_get example_codecs)
       (pt_scan example_codecs) (pt_update example_codecs) (pt_delete example_codecs))
       [SInsert (row_new [Int8 5]), SGet 1] example_table = (Inr [OId 1, ORow v], t2)"
    by (simp add: sbind_def)
  have fits: "\<forall>k \<le> length [SInsert (row_new [Int8 5]), SGet 1]. pt_fits example_table (1 + word_of_nat k)"
    using example_fits by (simp add: numeral_2_eq_2)
  from page_table_runs_as_map [OF example_codecs_ok example_table_opens fits run] run
  show ?thesis by blast
qed

end
