(* ===== verification/Storage.thy ===== *)
theory Storage
  imports Wal Page_Store
begin

text \<open>
  \<open>moodeng-core/src/storage.rs\<close> and the checkpoint of \<open>recovery.rs\<close>: in-memory and paged tables behind
  one backend, and the engine that logs every change and checkpoints periodically. The data directory
  is the contents of the \<open>.dat\<close> files and of the \<open>.pages\<close> files no open table owns. A panic of the
  program (\<open>expect\<close>) is an error value whose message starts with \<open>panic\<close>.
\<close>

subsection \<open>Backends\<close>

record table_data =
  td_rows :: "(u64 \<times> row) list"
  td_next_id :: u64

definition table_data_default :: table_data where
  "table_data_default = \<lparr>td_rows = [], td_next_id = 1\<rparr>"

datatype table_backend = Memory table_data | Paged page_table

definition td_insert :: "row \<Rightarrow> (moodeng_error, table_data, u64) op" where
  "td_insert r d =
     (let i = td_next_id d
      in (Inr i, d\<lparr>td_next_id := i + 1, td_rows := AList.update i r (td_rows d)\<rparr>))"

definition td_apply_insert :: "u64 \<Rightarrow> row \<Rightarrow> (moodeng_error, table_data, unit) op" where
  "td_apply_insert row_id r d =
     (Inr (), d\<lparr>td_next_id := (if td_next_id d \<le> row_id then row_id + 1 else td_next_id d),
               td_rows := AList.update row_id r (td_rows d)\<rparr>)"

definition td_get :: "u64 \<Rightarrow> (moodeng_error, table_data, row option) op" where
  "td_get i d = (Inr (map_of (td_rows d) i), d)"

definition td_scan :: "(moodeng_error, table_data, (u64 \<times> row) list) op" where
  "td_scan d = (Inr (sort_key fst (td_rows d)), d)"

definition td_update :: "u64 \<Rightarrow> row \<Rightarrow> (moodeng_error, table_data, bool) op" where
  "td_update i r d =
     (Inr (map_of (td_rows d) i \<noteq> None), d\<lparr>td_rows := AList.update i r (td_rows d)\<rparr>)"

definition td_delete :: "u64 \<Rightarrow> (moodeng_error, table_data, bool) op" where
  "td_delete i d =
     (Inr (map_of (td_rows d) i \<noteq> None), d\<lparr>td_rows := AList.delete i (td_rows d)\<rparr>)"

text \<open>The dispatch of \<open>TableBackend\<close>: the operation of the kind of table at hand.\<close>

fun on_table :: "(moodeng_error, table_data, 'a) op \<Rightarrow> (moodeng_error, page_table, 'a) op \<Rightarrow>
    (moodeng_error, table_backend, 'a) op" where
  "on_table f g (Memory d) = apsnd Memory (f d)"
| "on_table f g (Paged t) = apsnd Paged (g t)"

definition be_insert :: "page_codecs \<Rightarrow> row \<Rightarrow> (moodeng_error, table_backend, u64) op" where
  "be_insert C r = on_table (td_insert r) (pt_insert C r)"

definition be_apply_insert :: "page_codecs \<Rightarrow> u64 \<Rightarrow> row \<Rightarrow> (moodeng_error, table_backend, unit) op" where
  "be_apply_insert C row_id r = on_table (td_apply_insert row_id r) (pt_apply_insert C row_id r)"

definition be_get :: "page_codecs \<Rightarrow> u64 \<Rightarrow> (moodeng_error, table_backend, row option) op" where
  "be_get C i = on_table (td_get i) (pt_get C i)"

definition be_scan :: "page_codecs \<Rightarrow> (moodeng_error, table_backend, (u64 \<times> row) list) op" where
  "be_scan C = on_table td_scan (pt_scan C)"

definition be_update :: "page_codecs \<Rightarrow> u64 \<Rightarrow> row \<Rightarrow> (moodeng_error, table_backend, bool) op" where
  "be_update C i r = on_table (td_update i r) (pt_update C i r)"

definition be_delete :: "page_codecs \<Rightarrow> u64 \<Rightarrow> (moodeng_error, table_backend, bool) op" where
  "be_delete C i = on_table (td_delete i) (pt_delete C i)"

fun be_row_count :: "page_codecs \<Rightarrow> table_backend \<Rightarrow> u64 \<times> table_backend" where
  "be_row_count C (Memory d) = (word_of_nat (length (td_rows d)), Memory d)"
| "be_row_count C (Paged t) = apsnd Paged (pt_row_count C t)"

fun be_flush :: "page_codecs \<Rightarrow> table_backend \<Rightarrow> table_backend" where
  "be_flush C (Memory d) = Memory d"
| "be_flush C (Paged t) = Paged (pt_flush_all C t)"

fun be_cache_len :: "table_backend \<Rightarrow> nat" where
  "be_cache_len (Memory d) = 0"
| "be_cache_len (Paged t) = pt_cache_len t"

subsection \<open>The engine\<close>

record storage_options =
  so_max_cached_pages :: nat
  so_rows_per_page :: u64

definition storage_options_default :: storage_options where
  "storage_options_default = \<lparr>so_max_cached_pages = 0, so_rows_per_page = DEFAULT_ROWS_PER_PAGE\<rparr>"

record storage_codecs =
  sc_pages :: page_codecs
  sc_table :: "table_data codec"
  sc_wal :: "wal_op codec"
  sc_lsn :: "u64 codec"

record storage =
  st_options :: storage_options
  st_tables :: "(string \<times> table_backend) list"
  st_dat_files :: "(string \<times> bytes) list"
  st_page_files :: "(string \<times> page_file) list"
  st_wal :: wal

definition use_paged :: "storage \<Rightarrow> bool" where
  "use_paged s \<longleftrightarrow> 0 < so_max_cached_pages (st_options s)"

definition set_backend :: "string \<Rightarrow> table_backend \<Rightarrow> storage \<Rightarrow> storage" where
  "set_backend table b s =
     s\<lparr>st_tables := AList.update table b (st_tables s),
       st_page_files := (case b of Paged _ \<Rightarrow> AList.delete table (st_page_files s)
                         | Memory _ \<Rightarrow> st_page_files s)\<rparr>"

definition read_table_file :: "storage_codecs \<Rightarrow> bytes \<Rightarrow> table_data res" where
  "read_table_file C buf =
     (if buf = [] then Inr table_data_default
      else case deser (sc_table C) buf of Inl e \<Rightarrow> Inl (StorageError e) | Inr d \<Rightarrow> Inr d)"

definition open_pages :: "storage_codecs \<Rightarrow> string \<Rightarrow> nat \<Rightarrow> storage \<Rightarrow> page_table res" where
  "open_pages C table max_pages s =
     pt_open (sc_pages C) (map_of (st_page_files s) table) max_pages (so_rows_per_page (st_options s))"

text \<open>\<open>load_table\<close>: an existing page file wins; a \<open>.dat\<close> file is imported into pages when paging is on.
  Opening a page table creates its file, which stays behind when the import fails.\<close>

definition leave_pages :: "string \<Rightarrow> page_table \<Rightarrow> storage \<Rightarrow> storage" where
  "leave_pages table t s = s\<lparr>st_page_files := AList.update table (pt_file t) (st_page_files s)\<rparr>"

definition load_table :: "storage_codecs \<Rightarrow> string \<Rightarrow> (moodeng_error, storage, table_backend) op" where
  "load_table C table s =
     (let maxp = so_max_cached_pages (st_options s) in
      if map_of (st_page_files s) table \<noteq> None then
        (map_sum id Paged (open_pages C table (max maxp 1) s), s)
      else if use_paged s then
        (case open_pages C table maxp s of
           Inl e \<Rightarrow> (Inl e, s)
         | Inr pt \<Rightarrow>
             (case map_of (st_dat_files s) table of
                None \<Rightarrow> (Inr (Paged pt), s)
              | Some buf \<Rightarrow>
                  (case read_table_file C buf of
                     Inl e \<Rightarrow> (Inl e, leave_pages table pt s)
                   | Inr legacy \<Rightarrow>
                       (case pt_import_rows (sc_pages C) (td_next_id legacy) (td_rows legacy) pt of
                          (Inl e, pt') \<Rightarrow> (Inl e, leave_pages table pt' s)
                        | (Inr _, pt') \<Rightarrow>
                            (Inr (Paged (pt_flush_all (sc_pages C) pt')),
                             s\<lparr>st_dat_files := AList.delete table (st_dat_files s)\<rparr>)))))
      else case map_of (st_dat_files s) table of
             Some buf \<Rightarrow> (map_sum id Memory (read_table_file C buf), s)
           | None \<Rightarrow> (Inr (Memory table_data_default), s))"

definition load_all :: "storage_codecs \<Rightarrow> (moodeng_error, storage, unit) op" where
  "load_all C s =
     sfold (\<lambda>name _. sbind (load_table C name) (\<lambda>b s. (Inr (), set_backend name b s)))
       (remdups (map fst (st_dat_files s) @ map fst (st_page_files s))) () s"

definition open_with_options :: "storage_codecs \<Rightarrow> (string \<times> bytes) list \<Rightarrow> (string \<times> page_file) list \<Rightarrow>
    wal \<Rightarrow> storage_options \<Rightarrow> storage res" where
  "open_with_options C dats pages w options =
     (let s = \<lparr>st_options = options, st_tables = [], st_dat_files = dats, st_page_files = pages, st_wal = w\<rparr>
      in case load_all C s of (Inl e, _) \<Rightarrow> Inl e | (Inr _, s') \<Rightarrow> Inr s')"

definition persist_table :: "storage_codecs \<Rightarrow> string \<Rightarrow> (moodeng_error, storage, unit) op" where
  "persist_table C table s =
     (case map_of (st_tables s) table of
        None \<Rightarrow> (Inl (TableNotFound table), s)
      | Some (Memory d) \<Rightarrow>
          (Inr (), s\<lparr>st_dat_files := AList.update table (ser (sc_table C) d) (st_dat_files s)\<rparr>)
      | Some (Paged t) \<Rightarrow>
          (Inr (), s\<lparr>st_tables := AList.update table (Paged (pt_flush_all (sc_pages C) t)) (st_tables s)\<rparr>))"

definition checkpoint_all :: "storage_codecs \<Rightarrow> (moodeng_error, storage, unit) op" where
  "checkpoint_all C s =
     sfold (\<lambda>table _ s. if map_of (st_tables s) table \<noteq> None then persist_table C table s else (Inr (), s))
       (map fst (st_tables s)) () s"

definition checkpoint :: "storage_codecs \<Rightarrow> (moodeng_error, storage, unit) op" where
  "checkpoint C =
     sbind (checkpoint_all C) (\<lambda>_ s.
       (Inr (), s\<lparr>st_wal := wal_truncate (mark_checkpoint (sc_lsn C) (wal_lsn (st_wal s)) (st_wal s))\<rparr>))"

definition maybe_checkpoint :: "storage_codecs \<Rightarrow> (moodeng_error, storage, unit) op" where
  "maybe_checkpoint C s = (if should_checkpoint (st_wal s) then checkpoint C s else (Inr (), s))"

definition new_empty_backend :: "storage_codecs \<Rightarrow> string \<Rightarrow> storage \<Rightarrow> table_backend res" where
  "new_empty_backend C table s =
     (if use_paged s
      then (case open_pages C table (so_max_cached_pages (st_options s)) s of
              Inl e \<Rightarrow> Inl (OtherError ''panic: open page table'') | Inr pt \<Rightarrow> Inr (Paged pt))
      else Inr (Memory table_data_default))"

text \<open>\<open>entry(table).or_insert_with(...)\<close>.\<close>

definition entry_or_new :: "storage_codecs \<Rightarrow> string \<Rightarrow> (moodeng_error, storage, table_backend) op" where
  "entry_or_new C table s =
     (case map_of (st_tables s) table of
        Some b \<Rightarrow> (Inr b, s)
      | None \<Rightarrow> (case new_empty_backend C table s of
                  Inl e \<Rightarrow> (Inl e, s) | Inr b \<Rightarrow> (Inr b, set_backend table b s)))"

definition ensure_table :: "storage_codecs \<Rightarrow> string \<Rightarrow> (moodeng_error, storage, unit) op" where
  "ensure_table C table = sbind (entry_or_new C table) (\<lambda>_. sret ())"

text \<open>A call on the backend of a table, with the changed backend put back.\<close>

definition on_backend :: "string \<Rightarrow> (moodeng_error, table_backend, 'a) op \<Rightarrow> table_backend \<Rightarrow>
    (moodeng_error, storage, 'a) op" where
  "on_backend table f b s =
     (case f b of (r, b') \<Rightarrow> (r, s\<lparr>st_tables := AList.update table b' (st_tables s)\<rparr>))"

text \<open>Append to the log, then checkpoint when enough operations were logged.\<close>

definition log_change :: "storage_codecs \<Rightarrow> wal_op \<Rightarrow> (moodeng_error, storage, unit) op" where
  "log_change C op s = maybe_checkpoint C (s\<lparr>st_wal := snd (wal_append (sc_wal C) op (st_wal s))\<rparr>)"

definition st_insert :: "storage_codecs \<Rightarrow> string \<Rightarrow> row \<Rightarrow> u64 \<Rightarrow> (moodeng_error, storage, u64) op" where
  "st_insert C table r txn_id =
     sbind (entry_or_new C table) (\<lambda>b.
     sbind (on_backend table (be_insert (sc_pages C) r) b) (\<lambda>i.
     sbind (log_change C (WInsert txn_id table i r)) (\<lambda>_. sret i)))"

definition st_apply_insert :: "storage_codecs \<Rightarrow> string \<Rightarrow> u64 \<Rightarrow> row \<Rightarrow> bool \<Rightarrow> u64 \<Rightarrow>
    (moodeng_error, storage, unit) op" where
  "st_apply_insert C table row_id r lg txn_id =
     sbind (entry_or_new C table) (\<lambda>b.
     sbind (on_backend table (be_apply_insert (sc_pages C) row_id r) b) (\<lambda>_.
       if lg then log_change C (WInsert txn_id table row_id r) else sret ()))"

definition st_get :: "storage_codecs \<Rightarrow> string \<Rightarrow> u64 \<Rightarrow> (moodeng_error, storage, row option) op" where
  "st_get C table i s =
     (case map_of (st_tables s) table of
        None \<Rightarrow> (Inr None, s) | Some b \<Rightarrow> on_backend table (be_get (sc_pages C) i) b s)"

definition st_scan :: "storage_codecs \<Rightarrow> string \<Rightarrow> (moodeng_error, storage, (u64 \<times> row) list) op" where
  "st_scan C table s =
     (case map_of (st_tables s) table of
        None \<Rightarrow> (Inr [], s) | Some b \<Rightarrow> on_backend table (be_scan (sc_pages C)) b s)"

definition fetch_by_ids :: "storage_codecs \<Rightarrow> string \<Rightarrow> u64 list \<Rightarrow>
    (moodeng_error, storage, (u64 \<times> row) list) op" where
  "fetch_by_ids C table ids s =
     (case map_of (st_tables s) table of
        None \<Rightarrow> (Inl (TableNotFound table), s)
      | Some b \<Rightarrow> on_backend table (fetch_rows (be_get (sc_pages C)) ids) b s)"

definition st_update :: "storage_codecs \<Rightarrow> string \<Rightarrow> u64 \<Rightarrow> row \<Rightarrow> u64 \<Rightarrow> u64 \<Rightarrow>
    (moodeng_error, storage, bool) op" where
  "st_update C table i r txn_id expected_version s =
     (case map_of (st_tables s) table of
        None \<Rightarrow> (Inl (TableNotFound table), s)
      | Some b \<Rightarrow>
          let new_row = r\<lparr>row_version := expected_version + 1\<rparr> in
          (case be_get (sc_pages C) i b of
             (Inl e, b') \<Rightarrow> (Inl e, s\<lparr>st_tables := AList.update table b' (st_tables s)\<rparr>)
           | (Inr None, b') \<Rightarrow> (Inr False, s\<lparr>st_tables := AList.update table b' (st_tables s)\<rparr>)
           | (Inr (Some existing), b') \<Rightarrow>
               if row_version existing \<noteq> expected_version
               then (Inl (VersionConflict table i), s\<lparr>st_tables := AList.update table b' (st_tables s)\<rparr>)
               else sbind (on_backend table (be_update (sc_pages C) i new_row) b') (\<lambda>_.
                    sbind (log_change C (WUpdate txn_id table i new_row)) (\<lambda>_. sret True)) s))"

definition st_apply_update :: "storage_codecs \<Rightarrow> string \<Rightarrow> u64 \<Rightarrow> row \<Rightarrow> bool \<Rightarrow> u64 \<Rightarrow>
    (moodeng_error, storage, bool) op" where
  "st_apply_update C table i r lg txn_id s =
     (case map_of (st_tables s) table of
        None \<Rightarrow> (Inl (TableNotFound table), s)
      | Some b \<Rightarrow>
          (case be_get (sc_pages C) i b of
             (Inl e, b') \<Rightarrow> (Inl e, s\<lparr>st_tables := AList.update table b' (st_tables s)\<rparr>)
           | (Inr None, b') \<Rightarrow> (Inr False, s\<lparr>st_tables := AList.update table b' (st_tables s)\<rparr>)
           | (Inr (Some existing), b') \<Rightarrow>
               let new_row = r\<lparr>row_version := row_version existing + 1\<rparr> in
               sbind (on_backend table (be_update (sc_pages C) i new_row) b') (\<lambda>_.
                 if lg then sbind (log_change C (WUpdate txn_id table i new_row)) (\<lambda>_. sret True)
                 else sret True) s))"

definition st_delete :: "storage_codecs \<Rightarrow> string \<Rightarrow> u64 \<Rightarrow> u64 \<Rightarrow> (moodeng_error, storage, bool) op" where
  "st_delete C table i txn_id s =
     (case map_of (st_tables s) table of
        None \<Rightarrow> (Inl (TableNotFound table), s)
      | Some b \<Rightarrow>
          sbind (on_backend table (be_delete (sc_pages C) i) b) (\<lambda>deleted.
            if deleted then sbind (log_change C (WDelete txn_id table i)) (\<lambda>_. sret True)
            else sret False) s)"

definition st_apply_delete :: "storage_codecs \<Rightarrow> string \<Rightarrow> u64 \<Rightarrow> bool \<Rightarrow> u64 \<Rightarrow>
    (moodeng_error, storage, bool) op" where
  "st_apply_delete C table i lg txn_id s =
     (case map_of (st_tables s) table of
        None \<Rightarrow> (Inl (TableNotFound table), s)
      | Some b \<Rightarrow>
          sbind (on_backend table (be_delete (sc_pages C) i) b) (\<lambda>deleted.
            if deleted \<and> lg then sbind (log_change C (WDelete txn_id table i)) (\<lambda>_. sret deleted)
            else sret deleted) s)"

definition st_drop_table :: "string \<Rightarrow> storage \<Rightarrow> storage" where
  "st_drop_table table s =
     s\<lparr>st_tables := AList.delete table (st_tables s),
       st_dat_files := AList.delete table (st_dat_files s),
       st_page_files := AList.delete table (st_page_files s)\<rparr>"

definition st_row_count :: "storage_codecs \<Rightarrow> string \<Rightarrow> storage \<Rightarrow> u64 \<times> storage" where
  "st_row_count C table s =
     (case map_of (st_tables s) table of
        None \<Rightarrow> (0, s)
      | Some b \<Rightarrow> (case be_row_count (sc_pages C) b of
          (n, b') \<Rightarrow> (n, s\<lparr>st_tables := AList.update table b' (st_tables s)\<rparr>)))"

definition page_cache_len :: "storage \<Rightarrow> string \<Rightarrow> nat" where
  "page_cache_len s table = (case map_of (st_tables s) table of None \<Rightarrow> 0 | Some b \<Rightarrow> be_cache_len b)"

subsection \<open>Backends are row stores\<close>

definition td_inv :: "table_data \<Rightarrow> bool" where
  "td_inv d \<longleftrightarrow> amap_inv (\<lambda>i _. i < td_next_id d) (td_rows d)"

definition td_fits :: "table_data \<Rightarrow> u64 \<Rightarrow> bool" where
  "td_fits d i \<longleftrightarrow> i + 1 \<noteq> 0"

lemma td_inv_update:
  "td_inv d \<Longrightarrow> td_next_id d \<le> n \<Longrightarrow> i < n \<Longrightarrow>
     td_inv (d\<lparr>td_next_id := n, td_rows := AList.update i r (td_rows d)\<rparr>)"
  by (auto simp: td_inv_def intro!: amap_inv_update elim!: amap_inv_mono intro: order.strict_trans2)

lemma td_inv_insert:
  assumes "td_inv d" "i + 1 \<noteq> 0"
  shows "td_inv (d\<lparr>td_next_id := (if td_next_id d \<le> i then i + 1 else td_next_id d),
    td_rows := AList.update i r (td_rows d)\<rparr>)"
proof (rule td_inv_update [OF assms(1)])
  show "i < (if td_next_id d \<le> i then i + 1 else td_next_id d)"
    using less_add_one [OF assms(2), of i] by auto
  show "td_next_id d \<le> (if td_next_id d \<le> i then i + 1 else td_next_id d)"
    using less_add_one [OF assms(2), of "td_next_id d"] by auto
qed

interpretation memory: row_store td_inv "\<lambda>d. map_of (td_rows d)" td_next_id td_fits td_insert
  td_apply_insert td_get td_scan td_update td_delete
proof
  fix s s' :: table_data and i :: u64 and r :: row
    and res :: "u64 res" and ares :: "unit res" and bres :: "bool res"
  note defs = td_inv_def td_fits_def amap_inv_iff distinct_update distinct_delete update_conv' delete_conv'
  show "td_inv s \<Longrightarrow> map_of (td_rows s) i \<noteq> None \<Longrightarrow> i < td_next_id s"
    by (auto simp: defs)
  show "td_inv s \<Longrightarrow> td_fits s (td_next_id s) \<Longrightarrow> td_insert r s = (res, s') \<Longrightarrow> td_inv s' \<and>
      td_next_id s' = td_next_id s + 1 \<and> td_fits s' = td_fits s \<and>
      (case res of Inr i \<Rightarrow> i = td_next_id s \<and> map_of (td_rows s') = (map_of (td_rows s))(i \<mapsto> r)
       | Inl _ \<Rightarrow> map_of (td_rows s') = map_of (td_rows s))"
    using td_inv_insert [of s "td_next_id s" r]
    by (clarsimp simp: td_insert_def Let_def td_fits_def update_conv' fun_eq_iff)
  show "td_inv s \<Longrightarrow> td_fits s i \<Longrightarrow> td_apply_insert i r s = (ares, s') \<Longrightarrow> td_inv s' \<and>
      td_next_id s' = (if td_next_id s \<le> i then i + 1 else td_next_id s) \<and> td_fits s' = td_fits s \<and>
      (case ares of Inr _ \<Rightarrow> map_of (td_rows s') = (map_of (td_rows s))(i \<mapsto> r)
       | Inl _ \<Rightarrow> map_of (td_rows s') = map_of (td_rows s))"
    using td_inv_insert [of s i r]
    by (clarsimp simp: td_apply_insert_def td_fits_def update_conv' fun_eq_iff)
  show "td_inv s \<Longrightarrow> \<exists>s'. td_get i s = (Inr (map_of (td_rows s) i), s') \<and> td_inv s'
      \<and> map_of (td_rows s') = map_of (td_rows s) \<and> td_next_id s' = td_next_id s \<and> td_fits s' = td_fits s"
    by (simp add: td_get_def)
  show "td_inv s \<Longrightarrow> \<exists>xs s'. td_scan s = (Inr xs, s') \<and> lists_rows xs (map_of (td_rows s)) \<and> td_inv s'
      \<and> map_of (td_rows s') = map_of (td_rows s) \<and> td_next_id s' = td_next_id s \<and> td_fits s' = td_fits s"
    by (auto simp: td_scan_def td_inv_def intro: lists_rows_sort amap_inv_distinct)
  show "td_inv s \<Longrightarrow> map_of (td_rows s) i \<noteq> None \<Longrightarrow> td_update i r s = (bres, s') \<Longrightarrow> td_inv s' \<and>
      td_next_id s' = td_next_id s \<and> td_fits s' = td_fits s \<and>
      (case bres of Inr b \<Rightarrow> b \<and> map_of (td_rows s') = (map_of (td_rows s))(i \<mapsto> r)
       | Inl _ \<Rightarrow> map_of (td_rows s') = map_of (td_rows s))"
    by (auto simp: td_update_def td_inv_def td_fits_def update_conv' fun_eq_iff
        intro!: amap_inv_update dest: amap_inv_lookup)
  show "td_inv s \<Longrightarrow> td_delete i s = (bres, s') \<Longrightarrow> td_inv s' \<and>
      td_next_id s' = td_next_id s \<and> td_fits s' = td_fits s \<and>
      (case bres of Inr b \<Rightarrow> b = (map_of (td_rows s) i \<noteq> None)
          \<and> map_of (td_rows s') = (map_of (td_rows s))(i := None)
       | Inl _ \<Rightarrow> map_of (td_rows s') = map_of (td_rows s))"
    by (auto simp: td_delete_def td_inv_def td_fits_def delete_conv' fun_eq_iff intro!: amap_inv_delete)
qed

fun be_inv :: "page_codecs \<Rightarrow> table_backend \<Rightarrow> bool" where
  "be_inv C (Memory d) = td_inv d"
| "be_inv C (Paged t) = pt_inv C t"

fun be_abs :: "page_codecs \<Rightarrow> table_backend \<Rightarrow> u64 \<rightharpoonup> row" where
  "be_abs C (Memory d) = map_of (td_rows d)"
| "be_abs C (Paged t) = pt_abs C t"

fun be_next :: "table_backend \<Rightarrow> u64" where
  "be_next (Memory d) = td_next_id d"
| "be_next (Paged t) = pt_next_id t"

fun be_fits :: "table_backend \<Rightarrow> u64 \<Rightarrow> bool" where
  "be_fits (Memory d) = td_fits d"
| "be_fits (Paged t) = pt_fits t"

lemma on_table_split:
  "on_table f g b = (res, b') \<longleftrightarrow>
     (\<exists>d d'. b = Memory d \<and> b' = Memory d' \<and> f d = (res, d')) \<or>
     (\<exists>t t'. b = Paged t \<and> b' = Paged t' \<and> g t = (res, t'))"
proof (cases b)
  case (Memory d)
  then show ?thesis by (cases "f d") auto
next
  case (Paged t)
  then show ?thesis by (cases "g t") auto
qed

lemma be_get_law:
  assumes "be_inv C s"
  shows "\<exists>s'. be_get C i s = (Inr (be_abs C s i), s') \<and> be_inv C s'
    \<and> be_abs C s' = be_abs C s \<and> be_next s' = be_next s \<and> be_fits s' = be_fits s"
proof (cases s)
  case (Memory d)
  with assms obtain d' where "td_get i d = (Inr (map_of (td_rows d) i), d')" "td_inv d'"
    "map_of (td_rows d') = map_of (td_rows d)" "td_next_id d' = td_next_id d" "td_fits d' = td_fits d"
    using memory.get_law [of d i] by auto
  with Memory show ?thesis by (intro exI [of _ "Memory d'"]) (simp add: be_get_def)
next
  case (Paged t)
  with assms obtain t' where "pt_get C i t = (Inr (pt_abs C t i), t')" "pt_inv C t'"
    "pt_abs C t' = pt_abs C t" "pt_next_id t' = pt_next_id t" "pt_fits t' = pt_fits t"
    using paged.get_law [of C t i] by auto
  with Paged show ?thesis by (intro exI [of _ "Paged t'"]) (simp add: be_get_def)
qed

lemma be_scan_law:
  assumes "be_inv C s"
  shows "\<exists>xs s'. be_scan C s = (Inr xs, s') \<and> lists_rows xs (be_abs C s) \<and> be_inv C s'
    \<and> be_abs C s' = be_abs C s \<and> be_next s' = be_next s \<and> be_fits s' = be_fits s"
proof (cases s)
  case (Memory d)
  with assms obtain xs d' where "td_scan d = (Inr xs, d')" "lists_rows xs (map_of (td_rows d))" "td_inv d'"
    "map_of (td_rows d') = map_of (td_rows d)" "td_next_id d' = td_next_id d" "td_fits d' = td_fits d"
    using memory.scan_law [of d] by auto
  with Memory show ?thesis by (intro exI [of _ xs] exI [of _ "Memory d'"]) (simp add: be_scan_def)
next
  case (Paged t)
  with assms obtain xs t' where "pt_scan C t = (Inr xs, t')" "lists_rows xs (pt_abs C t)" "pt_inv C t'"
    "pt_abs C t' = pt_abs C t" "pt_next_id t' = pt_next_id t" "pt_fits t' = pt_fits t"
    using paged.scan_law [of C t] by auto
  with Paged show ?thesis by (intro exI [of _ xs] exI [of _ "Paged t'"]) (simp add: be_scan_def)
qed

interpretation backend: row_store "be_inv C" "be_abs C" be_next be_fits "be_insert C"
  "be_apply_insert C" "be_get C" "be_scan C" "be_update C" "be_delete C" for C
proof
  fix s s' :: table_backend and i :: u64 and r :: row
    and res :: "u64 res" and ares :: "unit res" and bres :: "bool res"
  show "be_inv C s \<Longrightarrow> be_abs C s i \<noteq> None \<Longrightarrow> i < be_next s"
    using memory.fresh paged.fresh by (cases s) auto
  show "be_inv C s \<Longrightarrow> be_fits s (be_next s) \<Longrightarrow> be_insert C r s = (res, s') \<Longrightarrow> be_inv C s' \<and>
      be_next s' = be_next s + 1 \<and> be_fits s' = be_fits s \<and>
      (case res of Inr i \<Rightarrow> i = be_next s \<and> be_abs C s' = (be_abs C s)(i \<mapsto> r)
       | Inl _ \<Rightarrow> be_abs C s' = be_abs C s)"
    unfolding be_insert_def on_table_split
    by (elim disjE exE conjE; simp only: be_inv.simps be_abs.simps be_next.simps be_fits.simps)
      (rule memory.ins_law paged.ins_law; assumption)+
  show "be_inv C s \<Longrightarrow> be_fits s i \<Longrightarrow> be_apply_insert C i r s = (ares, s') \<Longrightarrow> be_inv C s' \<and>
      be_next s' = (if be_next s \<le> i then i + 1 else be_next s) \<and> be_fits s' = be_fits s \<and>
      (case ares of Inr _ \<Rightarrow> be_abs C s' = (be_abs C s)(i \<mapsto> r) | Inl _ \<Rightarrow> be_abs C s' = be_abs C s)"
    unfolding be_apply_insert_def on_table_split
    by (elim disjE exE conjE; simp only: be_inv.simps be_abs.simps be_next.simps be_fits.simps)
      (rule memory.apply_ins_law paged.apply_ins_law; assumption)+
  show "be_inv C s \<Longrightarrow> \<exists>s'. be_get C i s = (Inr (be_abs C s i), s') \<and> be_inv C s'
      \<and> be_abs C s' = be_abs C s \<and> be_next s' = be_next s \<and> be_fits s' = be_fits s"
    by (rule be_get_law)
  show "be_inv C s \<Longrightarrow> \<exists>xs s'. be_scan C s = (Inr xs, s') \<and> lists_rows xs (be_abs C s) \<and> be_inv C s'
      \<and> be_abs C s' = be_abs C s \<and> be_next s' = be_next s \<and> be_fits s' = be_fits s"
    by (rule be_scan_law)
  show "be_inv C s \<Longrightarrow> be_abs C s i \<noteq> None \<Longrightarrow> be_update C i r s = (bres, s') \<Longrightarrow> be_inv C s' \<and>
      be_next s' = be_next s \<and> be_fits s' = be_fits s \<and>
      (case bres of Inr b \<Rightarrow> b \<and> be_abs C s' = (be_abs C s)(i \<mapsto> r) | Inl _ \<Rightarrow> be_abs C s' = be_abs C s)"
    unfolding be_update_def on_table_split
    by (elim disjE exE conjE; simp only: be_inv.simps be_abs.simps be_next.simps be_fits.simps)
      (rule memory.upd_law paged.upd_law; assumption)+
  show "be_inv C s \<Longrightarrow> be_delete C i s = (bres, s') \<Longrightarrow> be_inv C s' \<and>
      be_next s' = be_next s \<and> be_fits s' = be_fits s \<and>
      (case bres of Inr b \<Rightarrow> b = (be_abs C s i \<noteq> None) \<and> be_abs C s' = (be_abs C s)(i := None)
       | Inl _ \<Rightarrow> be_abs C s' = be_abs C s)"
    unfolding be_delete_def on_table_split
    by (elim disjE exE conjE; simp only: be_inv.simps be_abs.simps be_next.simps be_fits.simps)
      (rule memory.del_law paged.del_law; assumption)+
qed

text \<open>C30: a table answers alike in memory and on pages. Any calls on two new tables, one of each kind, that
  succeed give the same answers and leave the same rows and the same next id, provided that \<open>update\<close> is
  called only for rows the table has, as the storage engine does.\<close>

theorem backends_agree:
  assumes "codecs_ok C" and "pt_open C None max_pages rpp = Inr t"
    and "along_run row_present cs (1, Map.empty)"
    and "\<forall>k \<le> length cs. pt_fits t (1 + word_of_nat k)"
    and "store_run (store_step (be_insert C) (be_get C) (be_scan C) (be_update C) (be_delete C)) cs
      (Paged t) = (Inr outs, b)"
    and "store_run (store_step (be_insert C) (be_get C) (be_scan C) (be_update C) (be_delete C)) cs
      (Memory table_data_default) = (Inr outs', b')"
  shows "outs' = outs \<and> be_abs C b' = be_abs C b \<and> be_next b' = be_next b"
proof -
  have t: "pt_inv C t" "pt_abs C t = Map.empty" "pt_next_id t = 1"
    using pt_open_new [OF assms(1), of max_pages rpp] assms(2) by auto
  have "store_spec_run cs (1, Map.empty) outs (be_next b, be_abs C b)"
    using backend.run_refines [of cs "Paged t" C outs b] assms(3-5) t by simp
  moreover have "1 + word_of_nat k + 1 \<noteq> (0 :: u64)" if "k \<le> length cs" for k
    using assms(4) that by (simp add: pt_fits_def)
  then have "store_spec_run cs (1, Map.empty) outs' (be_next b', be_abs C b')"
    using backend.run_refines [of cs "Memory table_data_default" C outs' b'] assms(3,6)
    by (simp add: table_data_default_def td_inv_def td_fits_def)
  ultimately show ?thesis using store_spec_run_fun by blast
qed

text \<open>The proviso is needed: updating a row that a table does not have answers false on both, but stores the
  row in memory and nothing on pages.\<close>

theorem absent_update_differs:
  assumes "codecs_ok C" and "pt_open C None max_pages rpp = Inr t"
  shows "be_update C i r (Paged t) = (Inr False, Paged t)
    \<and> be_update C i r (Memory table_data_default) = (Inr False, Memory \<lparr>td_rows = [(i, r)], td_next_id = 1\<rparr>)"
  using pt_open_new [OF assms(1), of max_pages rpp] assms(2)
  by (auto simp: be_update_def pt_update_def Let_def td_update_def table_data_default_def)

subsection \<open>The rows of the engine\<close>

definition st_inv :: "storage_codecs \<Rightarrow> storage \<Rightarrow> bool" where
  "st_inv C s \<longleftrightarrow> amap_inv (\<lambda>_. be_inv (sc_pages C)) (st_tables s)"

definition st_rows :: "storage_codecs \<Rightarrow> storage \<Rightarrow> string \<Rightarrow> u64 \<rightharpoonup> row" where
  "st_rows C s table = (case map_of (st_tables s) table of None \<Rightarrow> Map.empty | Some b \<Rightarrow> be_abs (sc_pages C) b)"

lemma st_inv_backend: "st_inv C s \<Longrightarrow> map_of (st_tables s) table = Some b \<Longrightarrow> be_inv (sc_pages C) b"
  by (auto simp: st_inv_def dest: amap_inv_lookup)

lemma st_rows_table: "map_of (st_tables s) table = Some b \<Longrightarrow> st_rows C s table = be_abs (sc_pages C) b"
  by (simp add: st_rows_def)

lemma st_put:
  assumes "st_inv C s" "be_inv (sc_pages C) b"
  shows "st_inv C (s\<lparr>st_tables := AList.update table b (st_tables s)\<rparr>)"
    "st_rows C (s\<lparr>st_tables := AList.update table b (st_tables s)\<rparr>) =
       (st_rows C s)(table := be_abs (sc_pages C) b)"
  using assms by (auto simp: st_inv_def st_rows_def fun_eq_iff update_conv' intro!: amap_inv_update)

lemma st_files_frame [simp]:
  "st_inv C (s\<lparr>st_wal := w\<rparr>) = st_inv C s" "st_rows C (s\<lparr>st_wal := w\<rparr>) = st_rows C s"
  "st_inv C (s\<lparr>st_dat_files := d\<rparr>) = st_inv C s" "st_rows C (s\<lparr>st_dat_files := d\<rparr>) = st_rows C s"
  by (simp_all add: st_inv_def st_rows_def fun_eq_iff)

text \<open>A step that keeps all rows, and one that changes the rows of one table.\<close>

definition st_same :: "storage_codecs \<Rightarrow> storage \<Rightarrow> storage \<Rightarrow> bool" where
  "st_same C s s' \<longleftrightarrow> st_inv C s' \<and> st_rows C s' = st_rows C s
     \<and> dom (map_of (st_tables s')) = dom (map_of (st_tables s))"

definition st_changed :: "storage_codecs \<Rightarrow> storage \<Rightarrow> string \<Rightarrow> (u64 \<rightharpoonup> row) \<Rightarrow> storage \<Rightarrow> bool" where
  "st_changed C s table R s' \<longleftrightarrow> st_inv C s' \<and> st_rows C s' = (st_rows C s)(table := R)
     \<and> dom (map_of (st_tables s')) = dom (map_of (st_tables s))"

lemma st_same_trans: "st_same C s t \<Longrightarrow> st_same C t u \<Longrightarrow> st_same C s u"
  by (simp add: st_same_def)

lemma st_changed_same: "st_changed C s table R t \<Longrightarrow> st_same C t u \<Longrightarrow> st_changed C s table R u"
  by (simp add: st_changed_def st_same_def)

lemma st_changed_put:
  assumes "st_inv C s" "map_of (st_tables s) table = Some b" "be_inv (sc_pages C) b'"
  shows "st_changed C s table (be_abs (sc_pages C) b') (s\<lparr>st_tables := AList.update table b' (st_tables s)\<rparr>)"
  using st_put [OF assms(1,3), of table] assms(2) by (auto simp: st_changed_def update_conv')

lemma st_changed_idem: "st_changed C s table (st_rows C s table) s' = st_same C s s'"
  by (simp add: st_changed_def st_same_def)

text \<open>Checkpoints write files and keep the rows.\<close>

lemma pt_flush_law: "pt_inv C t \<Longrightarrow> pt_inv C (pt_flush_all C t) \<and> pt_abs C (pt_flush_all C t) = pt_abs C t"
  using pages_ok_write_header [of C t] by (simp add: pt_inv_alt pt_flush_all_def)

lemma persist_table_law:
  assumes "st_inv C s" "map_of (st_tables s) table \<noteq> None"
  shows "\<exists>s'. persist_table C table s = (Inr (), s') \<and> st_same C s s' \<and> st_wal s' = st_wal s"
proof -
  obtain b where b: "map_of (st_tables s) table = Some b" using assms(2) by auto
  note inv = st_inv_backend [OF assms(1) b] and rows = st_rows_table [OF b, of C]
  show ?thesis
  proof (cases b)
    case (Memory d)
    then show ?thesis using b assms(1) by (simp add: persist_table_def st_same_def)
  next
    case (Paged t)
    let ?b = "Paged (pt_flush_all (sc_pages C) t)"
    have "be_inv (sc_pages C) ?b" "be_abs (sc_pages C) ?b = be_abs (sc_pages C) b"
      using inv Paged pt_flush_law [of "sc_pages C" t] by auto
    then show ?thesis using b Paged rows st_put [OF assms(1), of ?b table]
      by (auto simp: persist_table_def fun_upd_idem update_conv' st_same_def)
  qed
qed

lemma checkpoint_loop:
  assumes "st_inv C s"
  shows "\<exists>s'. sfold (\<lambda>table _ s. if map_of (st_tables s) table \<noteq> None then persist_table C table s
      else (Inr (), s)) names () s = (Inr (), s') \<and> st_same C s s'
    \<and> st_wal s' = st_wal s"
  using assms
proof (induction names arbitrary: s)
  case (Cons n names)
  let ?f = "\<lambda>table _ s. if map_of (st_tables s) table \<noteq> None then persist_table C table s else (Inr (), s)"
  obtain t where t: "?f n () s = (Inr (), t)" "st_same C s t" "st_wal t = st_wal s"
    using persist_table_law [OF Cons.prems, of n] Cons.prems
    by (cases "map_of (st_tables s) n") (auto simp: st_same_def)
  have "sfold ?f (n # names) () s = sfold ?f names () t"
    using t(1) by (simp add: sbind_def)
  then show ?case using Cons.IH [of t] t(2,3) by (auto simp: st_same_def)
qed (simp add: st_same_def)

lemma log_change_law:
  assumes "st_inv C s"
  shows "\<exists>s'. log_change C op s = (Inr (), s') \<and> st_same C s s'"
proof -
  let ?s = "s\<lparr>st_wal := snd (wal_append (sc_wal C) op (st_wal s))\<rparr>"
  obtain s' where "checkpoint_all C ?s = (Inr (), s')" "st_same C ?s s'"
    using checkpoint_loop [of C ?s "map fst (st_tables ?s)"] assms by (auto simp: checkpoint_all_def)
  then show ?thesis using assms
    by (auto simp: log_change_def maybe_checkpoint_def checkpoint_def sbind_def st_same_def)
qed

text \<open>Reading.\<close>

lemma st_get_law:
  assumes "st_inv C s"
  shows "\<exists>s'. st_get C table i s = (Inr (st_rows C s table i), s') \<and> st_same C s s' \<and> st_wal s' = st_wal s"
proof (cases "map_of (st_tables s) table")
  case None
  then show ?thesis using assms by (simp add: st_get_def st_rows_def st_same_def)
next
  case (Some b)
  obtain b' where "be_get (sc_pages C) i b = (Inr (be_abs (sc_pages C) b i), b')" "be_inv (sc_pages C) b'"
    "be_abs (sc_pages C) b' = be_abs (sc_pages C) b"
    using backend.get_law [OF st_inv_backend [OF assms Some], of i] by blast
  then show ?thesis using st_put [OF assms, of b' table] Some st_rows_table [OF Some, of C]
    by (auto simp: st_get_def on_backend_def fun_upd_idem st_same_def update_conv')
qed

lemma st_scan_law:
  assumes "st_inv C s"
  shows "\<exists>xs s'. st_scan C table s = (Inr xs, s') \<and> lists_rows xs (st_rows C s table) \<and> st_same C s s' \<and> st_wal s' = st_wal s"
proof (cases "map_of (st_tables s) table")
  case None
  then show ?thesis using assms by (simp add: st_scan_def st_rows_def lists_rows_def st_same_def)
next
  case (Some b)
  obtain xs b' where "be_scan (sc_pages C) b = (Inr xs, b')" "lists_rows xs (be_abs (sc_pages C) b)"
    "be_inv (sc_pages C) b'" "be_abs (sc_pages C) b' = be_abs (sc_pages C) b"
    using backend.scan_law [OF st_inv_backend [OF assms Some]] by blast
  then show ?thesis using st_put [OF assms, of b' table] Some st_rows_table [OF Some, of C]
    by (auto simp: st_scan_def on_backend_def fun_upd_idem st_same_def update_conv')
qed

lemma fetch_by_ids_law:
  assumes "st_inv C s" "map_of (st_tables s) table \<noteq> None"
  shows "\<exists>s'. fetch_by_ids C table ids s = (Inr (rows_at (st_rows C s table) ids), s') \<and> st_same C s s' \<and> st_wal s' = st_wal s"
proof -
  obtain b where Some: "map_of (st_tables s) table = Some b" using assms(2) by auto
  obtain b' where "fetch_rows (be_get (sc_pages C)) ids b = (Inr (rows_at (be_abs (sc_pages C) b) ids), b')"
    "be_inv (sc_pages C) b'" "be_abs (sc_pages C) b' = be_abs (sc_pages C) b"
    using backend.fetch_rows_law [OF st_inv_backend [OF assms(1) Some], of ids] by blast
  then show ?thesis using st_put [OF assms(1), of b' table] Some st_rows_table [OF Some, of C]
    by (auto simp: fetch_by_ids_def on_backend_def fun_upd_idem st_same_def update_conv')
qed

text \<open>Writing. In each case an error leaves all rows as they were.\<close>

lemma on_backend_log:
  assumes "st_inv C s" "map_of (st_tables s) table = Some b" "be_inv (sc_pages C) b'"
    and "log_change C op (s\<lparr>st_tables := AList.update table b' (st_tables s)\<rparr>) = (res, s')"
  shows "res = Inr () \<and> st_changed C s table (be_abs (sc_pages C) b') s'"
proof -
  note c = st_changed_put [OF assms(1-3)]
  then have "st_inv C (s\<lparr>st_tables := AList.update table b' (st_tables s)\<rparr>)" by (simp add: st_changed_def)
  from log_change_law [OF this, of op] assms(4) show ?thesis using st_changed_same [OF c] by auto
qed

lemma st_same_put:
  assumes "st_inv C s" "map_of (st_tables s) table = Some b" "be_inv (sc_pages C) b'"
    and "be_abs (sc_pages C) b' = be_abs (sc_pages C) b"
  shows "st_same C s (s\<lparr>st_tables := AList.update table b' (st_tables s)\<rparr>)"
  using st_changed_put [OF assms(1-3)] assms(4) st_rows_table [OF assms(2), of C]
    st_changed_idem [of C s table] by simp

text \<open>The shape of every write: a backend call, then the log record.\<close>

lemma write_law:
  assumes "st_inv C s" "map_of (st_tables s) table = Some b" "f b' = (r1, b'')" "be_inv (sc_pages C) b''"
    and "case r1 of Inl _ \<Rightarrow> be_abs (sc_pages C) b'' = be_abs (sc_pages C) b
        | Inr x \<Rightarrow> be_abs (sc_pages C) b'' = R x"
    and "sbind (on_backend table f b') (\<lambda>x. if lg x then sbind (log_change C (rec x)) (\<lambda>_. sret (g x))
        else sret (g x)) s = (res, s')"
  shows "case r1 of Inl e \<Rightarrow> res = Inl e \<and> st_same C s s'
    | Inr x \<Rightarrow> res = Inr (g x) \<and> st_changed C s table (R x) s'"
proof (cases r1)
  case (Inl e)
  then show ?thesis
    using assms(5,6) st_same_put [OF assms(1,2,4)] assms(3) by (auto simp: on_backend_def sbind_def)
next
  case (Inr x)
  let ?s = "s\<lparr>st_tables := AList.update table b'' (st_tables s)\<rparr>"
  note c = st_changed_put [OF assms(1,2,4)]
  have "st_inv C ?s" using c by (simp add: st_changed_def)
  from log_change_law [OF this, of "rec x"] obtain t where
    t: "log_change C (rec x) ?s = (Inr (), t)" "st_same C ?s t" by blast
  show ?thesis
    using assms(3,5,6) Inr t c st_changed_same [OF c t(2)]
    by (auto simp: on_backend_def sbind_def split: if_splits)
qed

lemma st_insert_law:
  assumes "st_inv C s" "map_of (st_tables s) table = Some b" "be_fits b (be_next b)"
    and "st_insert C table r txn s = (res, s')"
  shows "case res of Inl _ \<Rightarrow> st_same C s s'
    | Inr i \<Rightarrow> st_rows C s table i = None \<and> st_changed C s table ((st_rows C s table)(i \<mapsto> r)) s'"
proof -
  obtain r1 b' where ins: "be_insert (sc_pages C) r b = (r1, b')" by fastforce
  note inv = st_inv_backend [OF assms(1,2)] and rows = st_rows_table [OF assms(2), of C]
  note l = backend.ins_law [OF inv assms(3) ins] and f = backend.ins_fresh [OF inv]
  have run: "sbind (on_backend table (be_insert (sc_pages C) r) b) (\<lambda>i. if True
      then sbind (log_change C (WInsert txn table i r)) (\<lambda>_. sret i) else sret i) s = (res, s')"
    using assms(2,4) by (simp add: st_insert_def entry_or_new_def sbind_def)
  have "case r1 of Inl e \<Rightarrow> res = Inl e \<and> st_same C s s'
      | Inr i \<Rightarrow> res = Inr i \<and> st_changed C s table ((st_rows C s table)(i \<mapsto> r)) s'"
    by (rule write_law [OF assms(1,2) ins _ _ run]) (use l rows in \<open>auto split: sum.splits\<close>)
  then show ?thesis using l f rows by (auto split: sum.splits)
qed

lemma st_apply_insert_law:
  assumes "st_inv C s" "map_of (st_tables s) table = Some b" "be_fits b i"
    and "st_apply_insert C table i r lg txn s = (res, s')"
  shows "case res of Inl _ \<Rightarrow> st_same C s s' | Inr _ \<Rightarrow> st_changed C s table ((st_rows C s table)(i \<mapsto> r)) s'"
proof -
  obtain r1 b' where ins: "be_apply_insert (sc_pages C) i r b = (r1, b')" by fastforce
  note inv = st_inv_backend [OF assms(1,2)] and rows = st_rows_table [OF assms(2), of C]
  note l = backend.apply_ins_law [OF inv assms(3) ins]
  have unit: "log_change C op = sbind (log_change C op) (\<lambda>_. sret ())" for op
    by (auto simp: sbind_def fun_eq_iff split: prod.splits sum.splits)
  have run: "sbind (on_backend table (be_apply_insert (sc_pages C) i r) b) (\<lambda>_. if lg
      then sbind (log_change C (WInsert txn table i r)) (\<lambda>_. sret ()) else sret ()) s = (res, s')"
    using assms(2,4) unfolding unit [symmetric]
    by (simp add: st_apply_insert_def entry_or_new_def sbind_def)
  have "case r1 of Inl e \<Rightarrow> res = Inl e \<and> st_same C s s'
      | Inr _ \<Rightarrow> res = Inr () \<and> st_changed C s table ((st_rows C s table)(i \<mapsto> r)) s'"
    by (rule write_law [OF assms(1,2) ins _ _ run]) (use l rows in \<open>auto split: sum.splits\<close>)
  then show ?thesis by (auto split: sum.splits)
qed

text \<open>An update of a row that exists, after it was read.\<close>

lemma found_update_law:
  assumes "st_inv C s" "map_of (st_tables s) table = Some b" "be_get (sc_pages C) i b = (Inr (Some old), b')"
    and "sbind (on_backend table (be_update (sc_pages C) i r) b') (\<lambda>_. if lg
      then sbind (log_change C op) (\<lambda>_. sret True) else sret True) s = (res, s')"
  shows "st_rows C s table i = Some old \<and> (case res of Inl _ \<Rightarrow> st_same C s s'
    | Inr b \<Rightarrow> b \<and> st_changed C s table ((st_rows C s table)(i \<mapsto> r)) s')"
proof -
  note inv = st_inv_backend [OF assms(1,2)] and rows = st_rows_table [OF assms(2), of C]
  have g: "be_abs (sc_pages C) b i = Some old" "be_inv (sc_pages C) b'"
    "be_abs (sc_pages C) b' = be_abs (sc_pages C) b"
    using backend.get_law [OF inv, of i] assms(3) by auto
  obtain r1 b'' where upd: "be_update (sc_pages C) i r b' = (r1, b'')" by fastforce
  have "be_abs (sc_pages C) b' i \<noteq> None" using g by simp
  note l = backend.upd_law [OF g(2) this upd]
  have "case r1 of Inl e \<Rightarrow> res = Inl e \<and> st_same C s s'
      | Inr _ \<Rightarrow> res = Inr True \<and> st_changed C s table ((st_rows C s table)(i \<mapsto> r)) s'"
    by (rule write_law [OF assms(1,2) upd _ _ assms(4)]) (use l g rows in \<open>auto split: sum.splits\<close>)
  then show ?thesis using g(1) rows by (auto split: sum.splits)
qed

lemma missing_row_law:
  assumes "st_inv C s" "map_of (st_tables s) table = Some b" "be_get (sc_pages C) i b = (x, b')"
  shows "x = Inr (st_rows C s table i) \<and> st_same C s (s\<lparr>st_tables := AList.update table b' (st_tables s)\<rparr>)"
  using backend.get_law [OF st_inv_backend [OF assms(1,2)], of i] assms st_same_put [OF assms(1,2)]
    st_rows_table [OF assms(2), of C] by auto

lemma st_update_law:
  assumes "st_inv C s" "st_update C table i r txn v s = (res, s')"
  shows "case res of
      Inl e \<Rightarrow> st_same C s s'
    | Inr True \<Rightarrow> (\<exists>old. st_rows C s table i = Some old \<and> row_version old = v)
        \<and> st_changed C s table ((st_rows C s table)(i \<mapsto> r\<lparr>row_version := v + 1\<rparr>)) s'
    | Inr False \<Rightarrow> st_rows C s table i = None \<and> st_same C s s'"
    and "st_rows C s table i = Some old \<Longrightarrow> row_version old \<noteq> v \<Longrightarrow> res = Inl (VersionConflict table i)"
proof -
  have "(case res of Inl e \<Rightarrow> st_same C s s'
    | Inr True \<Rightarrow> (\<exists>old. st_rows C s table i = Some old \<and> row_version old = v)
        \<and> st_changed C s table ((st_rows C s table)(i \<mapsto> r\<lparr>row_version := v + 1\<rparr>)) s'
    | Inr False \<Rightarrow> st_rows C s table i = None \<and> st_same C s s')
    \<and> (st_rows C s table i = Some old \<longrightarrow> row_version old \<noteq> v \<longrightarrow> res = Inl (VersionConflict table i))"
  proof (cases "map_of (st_tables s) table")
    case None
    then show ?thesis using assms by (auto simp: st_update_def st_rows_def st_same_def)
  next
    case (Some b)
    obtain x b' where get: "be_get (sc_pages C) i b = (x, b')" by fastforce
    note m = missing_row_law [OF assms(1) Some get]
    show ?thesis
    proof (cases "st_rows C s table i")
      case None
      then show ?thesis using assms(2) Some get m by (auto simp: st_update_def Let_def)
    next
      case (Some row)
      show ?thesis
      proof (cases "row_version row = v")
        case False
        then show ?thesis using assms(2) \<open>map_of (st_tables s) table = Some b\<close> get m Some
          by (auto simp: st_update_def Let_def)
      next
        case True
        have run: "sbind (on_backend table (be_update (sc_pages C) i (r\<lparr>row_version := v + 1\<rparr>)) b')
            (\<lambda>_. if True then sbind (log_change C (WUpdate txn table i (r\<lparr>row_version := v + 1\<rparr>)))
              (\<lambda>_. sret True) else sret True) s = (res, s')"
          using assms(2) \<open>map_of (st_tables s) table = Some b\<close> get m Some True
          by (simp add: st_update_def Let_def)
        have "be_get (sc_pages C) i b = (Inr (Some row), b')" using get m Some by simp
        from found_update_law [OF assms(1) \<open>map_of (st_tables s) table = Some b\<close> this run]
        show ?thesis using Some True by (auto split: sum.splits bool.splits)
      qed
    qed
  qed
  then show "case res of Inl e \<Rightarrow> st_same C s s'
    | Inr True \<Rightarrow> (\<exists>old. st_rows C s table i = Some old \<and> row_version old = v)
        \<and> st_changed C s table ((st_rows C s table)(i \<mapsto> r\<lparr>row_version := v + 1\<rparr>)) s'
    | Inr False \<Rightarrow> st_rows C s table i = None \<and> st_same C s s'"
    "st_rows C s table i = Some old \<Longrightarrow> row_version old \<noteq> v \<Longrightarrow> res = Inl (VersionConflict table i)"
    by blast+
qed

lemma st_apply_update_law:
  assumes "st_inv C s" "st_apply_update C table i r lg txn s = (res, s')"
  shows "case res of
      Inl e \<Rightarrow> st_same C s s'
    | Inr True \<Rightarrow> (\<exists>old. st_rows C s table i = Some old \<and>
        st_changed C s table ((st_rows C s table)(i \<mapsto> r\<lparr>row_version := row_version old + 1\<rparr>)) s')
    | Inr False \<Rightarrow> st_rows C s table i = None \<and> st_same C s s'"
proof (cases "map_of (st_tables s) table")
  case None
  then show ?thesis using assms by (auto simp: st_apply_update_def st_same_def)
next
  case (Some b)
  obtain x b' where get: "be_get (sc_pages C) i b = (x, b')" by fastforce
  note m = missing_row_law [OF assms(1) Some get]
  show ?thesis
  proof (cases "st_rows C s table i")
    case None
    then show ?thesis using assms(2) Some get m by (auto simp: st_apply_update_def)
  next
    case (Some row)
    let ?r = "r\<lparr>row_version := row_version row + 1\<rparr>"
    have run: "sbind (on_backend table (be_update (sc_pages C) i ?r) b')
        (\<lambda>_. if lg then sbind (log_change C (WUpdate txn table i ?r)) (\<lambda>_. sret True) else sret True) s = (res, s')"
      using assms(2) \<open>map_of (st_tables s) table = Some b\<close> get m Some
      by (simp add: st_apply_update_def Let_def)
    have "be_get (sc_pages C) i b = (Inr (Some row), b')" using get m Some by simp
    from found_update_law [OF assms(1) \<open>map_of (st_tables s) table = Some b\<close> this run]
    show ?thesis using Some by (auto split: sum.splits bool.splits)
  qed
qed

lemma delete_law:
  assumes "st_inv C s" "map_of (st_tables s) table = Some b"
    and "sbind (on_backend table (be_delete (sc_pages C) i) b) (\<lambda>deleted. if deleted \<and> lg
      then sbind (log_change C op) (\<lambda>_. sret deleted) else sret deleted) s = (res, s')"
  shows "case res of Inl _ \<Rightarrow> st_same C s s' | Inr d \<Rightarrow> d = (st_rows C s table i \<noteq> None)
      \<and> st_changed C s table ((st_rows C s table)(i := None)) s'"
proof -
  note inv = st_inv_backend [OF assms(1,2)] and rows = st_rows_table [OF assms(2), of C]
  obtain r1 b' where del: "be_delete (sc_pages C) i b = (r1, b')" by fastforce
  note l = backend.del_law [OF inv del]
  have "case r1 of Inl e \<Rightarrow> res = Inl e \<and> st_same C s s'
      | Inr d \<Rightarrow> res = Inr d \<and> st_changed C s table ((st_rows C s table)(i := None)) s'"
    by (rule write_law [OF assms(1,2) del _ _ assms(3)]) (use l rows in \<open>auto split: sum.splits\<close>)
  then show ?thesis using l rows by (auto split: sum.splits)
qed

lemma st_delete_law:
  assumes "st_inv C s" "st_delete C table i txn s = (res, s')"
  shows "case res of Inl _ \<Rightarrow> st_same C s s' | Inr d \<Rightarrow> d = (st_rows C s table i \<noteq> None)
      \<and> st_changed C s table ((st_rows C s table)(i := None)) s'"
proof (cases "map_of (st_tables s) table")
  case None
  then show ?thesis using assms by (auto simp: st_delete_def st_same_def)
next
  case (Some b)
  have "(\<lambda>deleted. if deleted \<and> True then sbind (log_change C (WDelete txn table i)) (\<lambda>_. sret deleted)
        else sret deleted) =
      (\<lambda>deleted. if deleted then sbind (log_change C (WDelete txn table i)) (\<lambda>_. sret True) else sret False)"
    by (rule ext) auto
  with assms(2) Some have "sbind (on_backend table (be_delete (sc_pages C) i) b) (\<lambda>deleted. if deleted \<and> True
      then sbind (log_change C (WDelete txn table i)) (\<lambda>_. sret deleted) else sret deleted) s = (res, s')"
    by (simp add: st_delete_def)
  then show ?thesis by (rule delete_law [OF assms(1) Some])
qed

lemma st_apply_delete_law:
  assumes "st_inv C s" "st_apply_delete C table i lg txn s = (res, s')"
  shows "case res of Inl _ \<Rightarrow> st_same C s s' | Inr d \<Rightarrow> d = (st_rows C s table i \<noteq> None)
      \<and> st_changed C s table ((st_rows C s table)(i := None)) s'"
proof (cases "map_of (st_tables s) table")
  case None
  then show ?thesis using assms by (auto simp: st_apply_delete_def st_same_def)
next
  case (Some b)
  show ?thesis
    by (rule delete_law [OF assms(1) Some, of i lg]) (use assms(2) Some in \<open>simp add: st_apply_delete_def\<close>)
qed

subsection \<open>Optimistic concurrency\<close>

text \<open>C31: version checks prevent lost updates. When an update of a row succeeded for some version, the
  next update of that row that still expects this version is refused with a version conflict and
  changes no row.\<close>

theorem no_lost_update:
  assumes "st_inv C s" and "st_update C table i r txn v s = (Inr True, s1)"
    and "st_update C table i r' txn' v s1 = (res, s2)"
  shows "res = Inl (VersionConflict table i) \<and> st_rows C s2 = st_rows C s1
    \<and> st_rows C s1 table i = Some (r\<lparr>row_version := v + 1\<rparr>)"
proof -
  have s1: "st_inv C s1" "st_rows C s1 table i = Some (r\<lparr>row_version := v + 1\<rparr>)"
    using st_update_law(1) [OF assms(1,2)] by (auto simp: st_changed_def)
  have "row_version (r\<lparr>row_version := v + 1\<rparr>) \<noteq> v" by simp
  note conflict = st_update_law(2) [OF s1(1) assms(3) s1(2) this]
  then show ?thesis using st_update_law(1) [OF s1(1) assms(3)] s1(2) by (simp add: st_same_def)
qed

subsection \<open>A concrete engine\<close>

definition example_storage_codecs :: storage_codecs where
  "example_storage_codecs = \<lparr>sc_pages = example_codecs,
     sc_table = codec_of (\<lambda>d. enc_pair (enc_list (enc_pair (be_bytes 8) enc_row)) (be_bytes 8)
          (td_rows d, td_next_id d))
        (\<lambda>bs. map_option (apfst (\<lambda>(rs, n). \<lparr>td_rows = rs, td_next_id = n\<rparr>))
          (dec_pair (dec_list_all (dec_pair (dec_word 8) dec_row)) (dec_word 8) bs)),
     sc_wal = op_codec, sc_lsn = lsn_codec\<rparr>"

definition example_storage :: storage where
  "example_storage = \<lparr>st_options = storage_options_default,
     st_tables = [(''t'', Memory \<lparr>td_rows = [(1, row_new [Int8 5])], td_next_id = 2\<rparr>)],
     st_dat_files = [], st_page_files = [], st_wal = wal_fresh\<rparr>"

lemma example_storage_inv: "st_inv example_storage_codecs example_storage"
  by (simp add: st_inv_def example_storage_def amap_inv_def td_inv_def)

lemma example_update:
  "\<exists>s1. st_update example_storage_codecs ''t'' 1 (row_new [Int8 6]) 1 1 example_storage = (Inr True, s1)"
  by (simp add: st_update_def example_storage_def be_get_def td_get_def on_backend_def be_update_def
      td_update_def sbind_def log_change_def maybe_checkpoint_def should_checkpoint_def wal_append_def
      wal_fresh_def WAL_SYNC_BATCH_def CHECKPOINT_INTERVAL_def Let_def word_le_nat_alt row_new_def)

theorem no_lost_update_witness:
  "\<exists>s1 s2. st_update example_storage_codecs ''t'' 1 (row_new [Int8 6]) 1 1 example_storage = (Inr True, s1)
    \<and> st_update example_storage_codecs ''t'' 1 (row_new [Int8 7]) 2 1 s1 =
        (Inl (VersionConflict ''t'' 1), s2)"
proof -
  obtain s1 where s1: "st_update example_storage_codecs ''t'' 1 (row_new [Int8 6]) 1 1 example_storage =
    (Inr True, s1)" using example_update by blast
  obtain res s2 where "st_update example_storage_codecs ''t'' 1 (row_new [Int8 7]) 2 1 s1 = (res, s2)"
    by fastforce
  with no_lost_update [OF example_storage_inv s1 this] s1 show ?thesis by auto
qed

theorem backends_agree_witness:
  "\<exists>b b' outs. store_run (store_step (be_insert example_codecs) (be_get example_codecs) (be_scan example_codecs)
       (be_update example_codecs) (be_delete example_codecs)) [SInsert (row_new [Int8 5]), SUpdate 1 (row_new [Int8 6])]
         (Paged example_table) = (Inr outs, b)
    \<and> store_run (store_step (be_insert example_codecs) (be_get example_codecs) (be_scan example_codecs)
       (be_update example_codecs) (be_delete example_codecs)) [SInsert (row_new [Int8 5]), SUpdate 1 (row_new [Int8 6])]
         (Memory table_data_default) = (Inr outs, b')
    \<and> outs = [OId 1, OBool True] \<and> be_abs example_codecs b = [1 \<mapsto> row_new [Int8 6]]"
proof -
  let ?cs = "[SInsert (row_new [Int8 5]), SUpdate 1 (row_new [Int8 6])]"
  let ?run = "store_run (store_step (be_insert example_codecs) (be_get example_codecs)
    (be_scan example_codecs) (be_update example_codecs) (be_delete example_codecs)) ?cs"
  obtain t where t: "pt_insert example_codecs (row_new [Int8 5]) example_table = (Inr 1, t)" "pt_inv example_codecs t"
    "pt_abs example_codecs t = [1 \<mapsto> row_new [Int8 5]]" "pt_next_id t = 2" "pt_rows_per_page t = 16" by (rule example_page_inserted)
  obtain t' where t': "pt_update example_codecs 1 (row_new [Int8 6]) t = (Inr True, t')" using example_updated [OF t(2,3,5)] by blast
  have p: "?run (Paged example_table) = (Inr [OId 1, OBool True], Paged t')"
    using t(1) t' by (simp add: sbind_def be_insert_def be_update_def)
  let ?m = "Memory \<lparr>td_rows = [(1, row_new [Int8 6])], td_next_id = 2\<rparr>"
  have m: "?run (Memory table_data_default) = (Inr [OId 1, OBool True], ?m)"
    by (simp add: sbind_def be_insert_def be_update_def td_insert_def td_update_def table_data_default_def Let_def)
  have fits: "\<forall>k \<le> length ?cs. pt_fits example_table (1 + word_of_nat k)" using example_fits by (simp add: numeral_2_eq_2)
  have "along_run row_present ?cs (1, Map.empty)" by simp
  from backends_agree [OF example_codecs_ok example_table_opens this fits p m] p m show ?thesis by auto
qed

end
