(* ===== verification/Index.thy ===== *)
theory Index
  imports Types "HOL-Library.Product_Lexorder"
begin

text \<open>
  \<open>moodeng-core/src/index.rs\<close>: index keys and their order, one ordered index (\<open>BTreeIndex\<close>) and the
  manager of the indexes of all tables. A \<open>BTreeMap\<close> is the list of its entries in ascending order of
  the keys. \<open>rebuild_all\<close>, which reads the storage engine, is in theory \<open>Recovery\<close>.
\<close>

subsection \<open>Keys\<close>

datatype comparable_value =
    CNull
  | CInt u64
  | CFloat u64
  | CText string
  | CBool bool

text \<open>The derived order: by variant, then by the payload (\<open>i64\<close> is signed, float bits are not).\<close>

fun cv_rank :: "comparable_value \<Rightarrow> nat \<times> int \<times> string" where
  "cv_rank CNull = (0, 0, [])"
| "cv_rank (CInt n) = (1, sint n, [])"
| "cv_rank (CFloat n) = (2, uint n, [])"
| "cv_rank (CText s) = (3, 0, s)"
| "cv_rank (CBool b) = (4, of_bool b, [])"

lemma cv_rank_inject: "cv_rank a = cv_rank b \<Longrightarrow> a = b"
  by (cases a; cases b)
    (auto split: if_splits simp: of_bool_def intro: signed_word_eqI unsigned_word_eqI)

instantiation comparable_value :: linorder
begin

definition less_eq_comparable_value :: "comparable_value \<Rightarrow> comparable_value \<Rightarrow> bool" where
  "less_eq_comparable_value a b \<longleftrightarrow> cv_rank a \<le> cv_rank b"

definition less_comparable_value :: "comparable_value \<Rightarrow> comparable_value \<Rightarrow> bool" where
  "less_comparable_value a b \<longleftrightarrow> cv_rank a < cv_rank b"

instance
proof
  fix a b c :: comparable_value
  show "a < b \<longleftrightarrow> a \<le> b \<and> \<not> b \<le> a"
    by (auto simp: less_eq_comparable_value_def less_comparable_value_def)
  show "a \<le> a" by (simp add: less_eq_comparable_value_def)
  show "a \<le> b \<Longrightarrow> b \<le> c \<Longrightarrow> a \<le> c" by (simp add: less_eq_comparable_value_def)
  show "a \<le> b \<Longrightarrow> b \<le> a \<Longrightarrow> a = b"
    by (simp add: less_eq_comparable_value_def cv_rank_inject)
  show "a \<le> b \<or> b \<le> a" by (auto simp: less_eq_comparable_value_def)
qed

end

fun comparable :: "db_value \<Rightarrow> comparable_value" where
  "comparable Null = CNull"
| "comparable (Int4 n) = CInt (scast n)"
| "comparable (Int8 n) = CInt n"
| "comparable (Float4 n) = CFloat (ucast n)"
| "comparable (Float8 n) = CFloat n"
| "comparable (Text s) = CText s"
| "comparable (BoolV b) = CBool b"
| "comparable (Timestamp n) = CInt n"
| "comparable (Json j) = CText j"

type_synonym ikey = "comparable_value list"

definition index_key :: "db_value list \<Rightarrow> ikey" where
  "index_key vs = map comparable vs"

subsection \<open>Ordered maps\<close>

text \<open>\<open>BTreeMap::insert\<close> on the ascending list of entries; lookup is \<open>map_of\<close>, removal
  \<open>AList.delete\<close>.\<close>

fun bt_insert :: "'k::linorder \<Rightarrow> 'v \<Rightarrow> ('k \<times> 'v) list \<Rightarrow> ('k \<times> 'v) list" where
  "bt_insert k v [] = [(k, v)]"
| "bt_insert k v ((k', v') # m) =
     (if k < k' then (k, v) # (k', v') # m
      else if k = k' then (k, v) # m
      else (k', v') # bt_insert k v m)"

definition bt_ordered :: "('k::linorder \<times> 'v) list \<Rightarrow> bool" where
  "bt_ordered m \<longleftrightarrow> sorted_wrt (<) (map fst m)"

subsection \<open>One index\<close>

record btree_index =
  idx_name :: string
  idx_columns :: "string list"
  idx_unique :: bool
  idx_tree :: "(ikey \<times> u64 list) list"

definition index_new :: "string \<Rightarrow> string list \<Rightarrow> bool \<Rightarrow> btree_index" where
  "index_new name columns unique =
     \<lparr>idx_name = name, idx_columns = columns, idx_unique = unique, idx_tree = []\<rparr>"

definition index_insert :: "db_value list \<Rightarrow> u64 \<Rightarrow> btree_index \<Rightarrow> btree_index res" where
  "index_insert key_values row_id idx =
     (let key = index_key key_values in
      if idx_unique idx then
        (if map_of (idx_tree idx) key \<noteq> None
         then Inl (DuplicateKey (''unique index '' @ [CHR 0x27] @ idx_name idx @ [CHR 0x27]
                     @ '' violation''))
         else Inr (idx\<lparr>idx_tree := bt_insert key [row_id] (idx_tree idx)\<rparr>))
      else Inr (idx\<lparr>idx_tree := bt_insert key
             ((case map_of (idx_tree idx) key of None \<Rightarrow> [] | Some ids \<Rightarrow> ids) @ [row_id])
             (idx_tree idx)\<rparr>))"

definition index_remove :: "db_value list \<Rightarrow> u64 \<Rightarrow> btree_index \<Rightarrow> btree_index" where
  "index_remove key_values row_id idx =
     (let key = index_key key_values in
      case map_of (idx_tree idx) key of
        None \<Rightarrow> idx
      | Some ids \<Rightarrow>
          let ids' = filter (\<lambda>i. i \<noteq> row_id) ids
          in if ids' = [] then idx\<lparr>idx_tree := AList.delete key (idx_tree idx)\<rparr>
             else idx\<lparr>idx_tree := bt_insert key ids' (idx_tree idx)\<rparr>)"

definition index_lookup :: "btree_index \<Rightarrow> db_value list \<Rightarrow> u64 list" where
  "index_lookup idx key_values =
     (case map_of (idx_tree idx) (index_key key_values) of None \<Rightarrow> [] | Some ids \<Rightarrow> ids)"

text \<open>\<open>BTreeMap::range\<close> panics on an inverted range, which is the result \<open>None\<close>.\<close>

definition range_scan :: "btree_index \<Rightarrow> db_value list option \<Rightarrow> db_value list option \<Rightarrow> u64 list option" where
  "range_scan idx mn mx =
     (let min_key = map_option index_key mn; max_key = map_option index_key mx;
          above = (\<lambda>k. case min_key of None \<Rightarrow> True | Some lo \<Rightarrow> lo \<le> k);
          below = (\<lambda>k. case max_key of None \<Rightarrow> True | Some hi \<Rightarrow> k \<le> hi)
      in if (case (min_key, max_key) of (Some lo, Some hi) \<Rightarrow> hi < lo | _ \<Rightarrow> False) then None
         else Some (concat (map snd (filter (\<lambda>(k, ids). above k \<and> below k) (idx_tree idx)))))"

subsection \<open>The manager\<close>

type_synonym table_index_map = "(string \<times> btree_index) list"
type_synonym index_manager = "(string \<times> table_index_map) list"

definition im_create_index :: "string \<Rightarrow> btree_index \<Rightarrow> (moodeng_error, index_manager, unit) op" where
  "im_create_index table index m =
     (let table_indexes = (case map_of m table of None \<Rightarrow> [] | Some t \<Rightarrow> t)
      in if map_of table_indexes (idx_name index) \<noteq> None
         then (Inl (IndexExists (idx_name index)), AList.update table table_indexes m)
         else (Inr (), AList.update table (AList.update (idx_name index) index table_indexes) m))"

definition get_index :: "index_manager \<Rightarrow> string \<Rightarrow> string \<Rightarrow> btree_index option" where
  "get_index m table name = (case map_of m table of None \<Rightarrow> None | Some t \<Rightarrow> map_of t name)"

definition table_indexes :: "index_manager \<Rightarrow> string \<Rightarrow> btree_index list" where
  "table_indexes m table = (case map_of m table of None \<Rightarrow> [] | Some t \<Rightarrow> map snd t)"

text \<open>The values of the index columns in a row: an unknown column counts as the first one, a missing
  value as null.\<close>

definition key_of_row :: "string list \<Rightarrow> string list \<Rightarrow> db_value list \<Rightarrow> db_value list" where
  "key_of_row columns column_names vals =
     map (\<lambda>col. get_or Null vals
            (case position (\<lambda>c. eq_ignore_ascii_case c col) column_names of
               None \<Rightarrow> 0 | Some i \<Rightarrow> i)) columns"

text \<open>The loop over the indexes of a table stops at the first violation; the indexes before it have
  been changed by then.\<close>

fun insert_each :: "db_value list \<Rightarrow> string list \<Rightarrow> u64 \<Rightarrow> table_index_map \<Rightarrow>
    unit res \<times> table_index_map" where
  "insert_each vals names row_id [] = (Inr (), [])"
| "insert_each vals names row_id ((n, idx) # rest) =
     (case index_insert (key_of_row (idx_columns idx) names vals) row_id idx of
        Inl e \<Rightarrow> (Inl e, (n, idx) # rest)
      | Inr idx' \<Rightarrow> apsnd (Cons (n, idx')) (insert_each vals names row_id rest))"

definition im_insert_row :: "string \<Rightarrow> db_value list \<Rightarrow> string list \<Rightarrow> u64 \<Rightarrow>
    (moodeng_error, index_manager, unit) op" where
  "im_insert_row table vals column_names row_id m =
     (case map_of m table of
        None \<Rightarrow> (Inr (), m)
      | Some t \<Rightarrow> apsnd (\<lambda>t'. AList.update table t' m) (insert_each vals column_names row_id t))"

definition im_remove_row :: "string \<Rightarrow> db_value list \<Rightarrow> string list \<Rightarrow> u64 \<Rightarrow> index_manager \<Rightarrow>
    index_manager" where
  "im_remove_row table vals column_names row_id m =
     (case map_of m table of
        None \<Rightarrow> m
      | Some t \<Rightarrow> AList.update table
          (map (apsnd (\<lambda>idx. index_remove (key_of_row (idx_columns idx) column_names vals) row_id idx)) t)
          m)"

definition im_lookup :: "index_manager \<Rightarrow> string \<Rightarrow> string \<Rightarrow> db_value list \<Rightarrow> u64 list" where
  "im_lookup m table index_name key_values =
     (case get_index m table index_name of None \<Rightarrow> [] | Some idx \<Rightarrow> index_lookup idx key_values)"

definition find_index_for_column :: "index_manager \<Rightarrow> string \<Rightarrow> string \<Rightarrow> string option" where
  "find_index_for_column m table column =
     (case map_of m table of
        None \<Rightarrow> None
      | Some t \<Rightarrow> map_option fst (find (\<lambda>(_, idx). length (idx_columns idx) = 1
                    \<and> eq_ignore_ascii_case (idx_columns idx ! 0) column) t))"

definition im_drop_table :: "string \<Rightarrow> index_manager \<Rightarrow> index_manager" where
  "im_drop_table table m = AList.delete table m"

definition im_load_all :: "index_manager \<Rightarrow> index_manager \<Rightarrow> index_manager" where
  "im_load_all data m = data"

definition im_snapshot :: "index_manager \<Rightarrow> index_manager" where
  "im_snapshot m = m"

subsection \<open>Laws of ordered maps\<close>

lemma set_bt_insert: "fst ` set (bt_insert k v m) = insert k (fst ` set m)"
  by (induction k v m rule: bt_insert.induct) auto

lemma ball_bt_insert:
  "(\<forall>x \<in> set (bt_insert k v m). P (fst x)) \<longleftrightarrow> P k \<and> (\<forall>x \<in> set m. P (fst x))"
proof -
  have "(\<forall>x \<in> set (bt_insert k v m). P (fst x)) \<longleftrightarrow> (\<forall>y \<in> fst ` set (bt_insert k v m). P y)"
    by simp
  then show ?thesis by (simp add: set_bt_insert)
qed

lemma bt_insert_ordered [intro]: "bt_ordered m \<Longrightarrow> bt_ordered (bt_insert k v m)"
  by (induction k v m rule: bt_insert.induct) (auto simp: bt_ordered_def ball_bt_insert)

lemma bt_ordered_distinct: "bt_ordered m \<Longrightarrow> distinct (map fst m)"
  by (simp add: bt_ordered_def strict_sorted_iff)

lemma map_of_bt_insert: "bt_ordered m \<Longrightarrow> map_of (bt_insert k v m) = (map_of m)(k \<mapsto> v)"
proof (induction k v m rule: bt_insert.induct)
  case (2 k v k' v' m)
  have "map_of m k = None" if "k < k'"
    using 2(2) that by (force simp: bt_ordered_def map_of_eq_None_iff)
  with 2 show ?case by (auto simp: bt_ordered_def fun_eq_iff)
qed simp

lemma bt_delete_ordered [intro]: "bt_ordered m \<Longrightarrow> bt_ordered (AList.delete k m)"
  by (simp add: bt_ordered_def delete_keys removeAll_filter_not_eq sorted_wrt_filter)

subsection \<open>What an index promises\<close>

text \<open>An index covers the rows \<open>R\<close> when a lookup returns, once each, exactly the rows whose key is the
  given one.\<close>

definition covers :: "('k \<Rightarrow> 'r list) \<Rightarrow> ('k \<Rightarrow> 'n) \<Rightarrow> ('row \<Rightarrow> 'k) \<Rightarrow> ('r \<rightharpoonup> 'row) \<Rightarrow> bool" where
  "covers look norm key R \<longleftrightarrow>
     (\<forall>k. distinct (look k) \<and> set (look k) = {r. \<exists>row. R r = Some row \<and> norm (key row) = norm k})"

lemma covers_Nil_iff:
  assumes "covers look norm key R"
  shows "look k = [] \<longleftrightarrow> (\<forall>r row. R r = Some row \<longrightarrow> norm (key row) \<noteq> norm k)"
proof -
  have "set (look k) = {r. \<exists>row. R r = Some row \<and> norm (key row) = norm k}"
    using assms by (simp add: covers_def)
  then show ?thesis unfolding set_empty [of "look k", symmetric] by auto
qed

locale row_index =
  fixes look :: "'i \<Rightarrow> 'k \<Rightarrow> 'r list"
    and ins :: "'k \<Rightarrow> 'r \<Rightarrow> 'i \<Rightarrow> 'e + 'i"
    and rem :: "'k \<Rightarrow> 'r \<Rightarrow> 'i \<Rightarrow> 'i"
    and norm :: "'k \<Rightarrow> 'n"
    and uniq :: "'i \<Rightarrow> bool"
    and inv :: "'i \<Rightarrow> bool"
  assumes ins_inv: "inv i \<Longrightarrow> ins k r i = Inr i' \<Longrightarrow> inv i'"
    and rem_inv: "inv i \<Longrightarrow> inv (rem k r i)"
    and ins_uniq: "ins k r i = Inr i' \<Longrightarrow> uniq i' = uniq i"
    and rem_uniq: "uniq (rem k r i) = uniq i"
    and look_ins: "inv i \<Longrightarrow> ins k r i = Inr i' \<Longrightarrow>
      look i' k' = (if norm k' = norm k then look i k' @ [r] else look i k')"
    and look_rem: "inv i \<Longrightarrow>
      look (rem k r i) k' =
        (if norm k' = norm k then filter (\<lambda>x. x \<noteq> r) (look i k') else look i k')"
    and ins_fails: "inv i \<Longrightarrow> (\<exists>e. ins k r i = Inl e) \<longleftrightarrow> uniq i \<and> look i k \<noteq> []"
begin

lemma covers_ins:
  assumes "inv i" "covers (look i) norm key R" "R r = None" "ins (key row) r i = Inr i'"
  shows "covers (look i') norm key (R(r \<mapsto> row))"
proof -
  have "r \<notin> set (look i k)" for k
    using assms(2,3) by (auto simp: covers_def)
  then show ?thesis
    using assms look_ins [OF assms(1,4)] by (auto simp: covers_def)
qed

lemma covers_rem:
  assumes "inv i" "covers (look i) norm key R" "R r = Some row"
  shows "covers (look (rem (key row) r i)) norm key (R(r := None))"
  using assms look_rem [OF assms(1)] by (auto simp: covers_def)

text \<open>In a unique index two rows never have the same key.\<close>

lemma ins_unique_key:
  assumes "inv i" "covers (look i) norm key R" "uniq i" "ins (key row) r i = Inr i'"
  shows "\<forall>r' row'. R r' = Some row' \<longrightarrow> norm (key row') \<noteq> norm (key row)"
proof -
  have "look i (key row) = []" using ins_fails [OF assms(1)] assms(3,4) by (metis Inl_Inr_False)
  then show ?thesis using covers_Nil_iff [OF assms(2)] by simp
qed

lemma ins_succeeds:
  assumes "inv i" "covers (look i) norm key R"
    and "\<forall>r' row'. R r' = Some row' \<longrightarrow> norm (key row') \<noteq> norm (key row)"
  shows "\<exists>i'. ins (key row) r i = Inr i'"
proof -
  have "look i (key row) = []" using covers_Nil_iff [OF assms(2)] assms(3) by simp
  then show ?thesis using ins_fails [OF assms(1), of "key row" r] by (cases "ins (key row) r i") auto
qed

end

text \<open>Well-formed indexes: ascending keys, no key without rows, one row per key of a unique index.\<close>

definition index_wf :: "btree_index \<Rightarrow> bool" where
  "index_wf idx \<longleftrightarrow> bt_ordered (idx_tree idx)
     \<and> (\<forall>e \<in> set (idx_tree idx). snd e \<noteq> [] \<and> (idx_unique idx \<longrightarrow> length (snd e) \<le> 1))"

lemma index_wf_iff:
  "index_wf idx \<longleftrightarrow> bt_ordered (idx_tree idx) \<and> (\<forall>k. map_of (idx_tree idx) k \<noteq> Some [])
     \<and> (idx_unique idx \<longrightarrow> (\<forall>k ids. map_of (idx_tree idx) k = Some ids \<longrightarrow> length ids \<le> 1))"
proof (cases "bt_ordered (idx_tree idx)")
  case True
  then have "map_of (idx_tree idx) k = Some ids \<longleftrightarrow> (k, ids) \<in> set (idx_tree idx)" for k ids
    by (simp add: bt_ordered_distinct)
  then show ?thesis using True by (auto simp: index_wf_def)
qed (simp add: index_wf_def)

lemma index_lookup_wf: "index_wf idx \<Longrightarrow>
    index_lookup idx k \<noteq> [] \<longleftrightarrow> map_of (idx_tree idx) (index_key k) \<noteq> None"
  by (auto simp: index_wf_iff index_lookup_def split: option.splits)

interpretation bt: row_index index_lookup index_insert index_remove index_key idx_unique index_wf
proof
  fix i i' :: btree_index and k k' :: "db_value list" and r :: u64
  show "index_wf i \<Longrightarrow> index_insert k r i = Inr i' \<Longrightarrow> index_wf i'"
    by (auto simp: index_wf_iff index_insert_def Let_def map_of_bt_insert split: if_splits)
  show "index_wf i \<Longrightarrow> index_wf (index_remove k r i)"
    by (auto simp: index_wf_iff index_remove_def Let_def map_of_bt_insert delete_conv'
        split: option.splits if_splits intro: order.trans [OF length_filter_le])
  show "index_insert k r i = Inr i' \<Longrightarrow> idx_unique i' = idx_unique i"
    by (auto simp: index_insert_def Let_def split: if_splits)
  show "idx_unique (index_remove k r i) = idx_unique i"
    by (auto simp: index_remove_def Let_def split: option.splits)
  show "index_wf i \<Longrightarrow> index_insert k r i = Inr i' \<Longrightarrow> index_lookup i' k' =
      (if index_key k' = index_key k then index_lookup i k' @ [r] else index_lookup i k')"
    by (auto simp: index_wf_iff index_insert_def index_lookup_def Let_def map_of_bt_insert
        split: if_splits option.splits)
  show "index_wf i \<Longrightarrow> index_lookup (index_remove k r i) k' =
      (if index_key k' = index_key k then filter (\<lambda>x. x \<noteq> r) (index_lookup i k')
       else index_lookup i k')"
    by (auto simp: index_wf_iff index_remove_def index_lookup_def Let_def map_of_bt_insert
        delete_conv' split: if_splits option.splits)
  show "index_wf i \<Longrightarrow> (\<exists>e. index_insert k r i = Inl e) \<longleftrightarrow> idx_unique i \<and> index_lookup i k \<noteq> []"
    by (auto simp: index_lookup_wf index_insert_def Let_def)
qed

subsection \<open>The indexes of a table\<close>

text \<open>The indexes of a table agree with its rows \<open>R\<close> (row id to column values): each is stored under
  its name, well formed and covers the rows by the values of its columns.\<close>

definition row_key :: "string list \<Rightarrow> btree_index \<Rightarrow> db_value list \<Rightarrow> db_value list" where
  "row_key names idx = key_of_row (idx_columns idx) names"

definition index_agrees :: "string list \<Rightarrow> (u64 \<rightharpoonup> db_value list) \<Rightarrow> string \<Rightarrow> btree_index \<Rightarrow> bool" where
  "index_agrees names R n idx \<longleftrightarrow>
     idx_name idx = n \<and> index_wf idx \<and> covers (index_lookup idx) index_key (row_key names idx) R"

definition indexes_agree :: "string list \<Rightarrow> (u64 \<rightharpoonup> db_value list) \<Rightarrow> table_index_map \<Rightarrow> bool" where
  "indexes_agree names R t \<longleftrightarrow> amap_inv (index_agrees names R) t"

lemma index_insert_fields [simp]:
  "index_insert k r i = Inr i' \<Longrightarrow> idx_name i' = idx_name i"
  "index_insert k r i = Inr i' \<Longrightarrow> idx_columns i' = idx_columns i"
  by (auto simp: index_insert_def Let_def split: if_splits)

lemma index_remove_fields [simp]:
  "idx_name (index_remove k r i) = idx_name i"
  "idx_columns (index_remove k r i) = idx_columns i"
  by (auto simp: index_remove_def Let_def split: option.splits)

lemma row_key_cong: "idx_columns i = idx_columns j \<Longrightarrow> row_key names i = row_key names j"
  by (simp add: row_key_def)

lemma index_agrees_insert:
  assumes "index_agrees names R n idx" "R r = None"
    and "index_insert (row_key names idx vals) r idx = Inr idx'"
  shows "index_agrees names (R(r \<mapsto> vals)) n idx'"
  using assms bt.covers_ins [of idx "row_key names idx" R r vals idx']
    row_key_cong [of idx' idx names]
  by (auto simp: index_agrees_def intro: bt.ins_inv)

lemma index_agrees_remove:
  assumes "index_agrees names R n idx" "R r = Some vals"
  shows "index_agrees names (R(r := None)) n (index_remove (row_key names idx vals) r idx)"
  using assms bt.covers_rem [of idx "row_key names idx" R r vals]
    row_key_cong [of "index_remove (row_key names idx vals) r idx" idx names]
  by (auto simp: index_agrees_def intro: bt.rem_inv)

lemma insert_each_agrees:
  assumes "insert_each vals names r t = (Inr (), t')"
    and "\<forall>e \<in> set t. index_agrees names R (fst e) (snd e)" and "R r = None"
  shows "map fst t' = map fst t \<and> (\<forall>e \<in> set t'. index_agrees names (R(r \<mapsto> vals)) (fst e) (snd e))"
  using assms
proof (induction vals names r t arbitrary: t' rule: insert_each.induct)
  case (2 vals names r n idx rest)
  from 2(2) obtain idx' rest' where
    ins: "index_insert (row_key names idx vals) r idx = Inr idx'"
    and rest: "insert_each vals names r rest = (Inr (), rest')" "t' = (n, idx') # rest'"
    by (auto simp: row_key_def apsnd_def map_prod_def split: sum.splits prod.splits)
  have new: "index_agrees names (R(r \<mapsto> vals)) n idx'"
    by (rule index_agrees_insert [where R = R, OF _ 2(4) ins]) (use 2(3) in simp)
  have "map fst rest' = map fst rest
      \<and> (\<forall>e \<in> set rest'. index_agrees names (R(r \<mapsto> vals)) (fst e) (snd e))"
    by (rule 2(1) [OF ins [unfolded row_key_def] rest(1) _ 2(4)]) (use 2(3) in simp)
  with new show ?case unfolding rest(2) by (simp del: fun_upd_apply)
qed simp

text \<open>A row can be entered exactly when no unique index already has a row with its key; otherwise the
  error is a duplicate key.\<close>

definition key_clash :: "string list \<Rightarrow> (u64 \<rightharpoonup> db_value list) \<Rightarrow> db_value list \<Rightarrow> btree_index \<Rightarrow> bool" where
  "key_clash names R vals idx \<longleftrightarrow> idx_unique idx \<and>
     (\<exists>r' vals'. R r' = Some vals' \<and>
        index_key (row_key names idx vals') = index_key (row_key names idx vals))"

lemma index_insert_fails_iff:
  assumes "index_agrees names R n idx"
  shows "(\<exists>e. index_insert (row_key names idx vals) r idx = Inl e) \<longleftrightarrow> key_clash names R vals idx"
proof -
  have "covers (index_lookup idx) index_key (row_key names idx) R"
    using assms by (simp add: index_agrees_def)
  from covers_Nil_iff [OF this, of "row_key names idx vals"]
  show ?thesis
    using assms bt.ins_fails [of idx "row_key names idx vals" r]
    by (simp add: index_agrees_def key_clash_def)
qed

lemma insert_each_fails_iff:
  assumes "\<forall>e \<in> set t. index_agrees names R (fst e) (snd e)"
  shows "(\<exists>e. fst (insert_each vals names r t) = Inl e) \<longleftrightarrow>
    (\<exists>e \<in> set t. key_clash names R vals (snd e))"
  using assms
proof (induction vals names r t rule: insert_each.induct)
  case (2 vals names r n idx rest)
  have fails: "(\<exists>e. index_insert (row_key names idx vals) r idx = Inl e) \<longleftrightarrow> key_clash names R vals idx"
    using 2(2) by (intro index_insert_fails_iff [where n = n]) simp
  show ?case
  proof (cases "index_insert (row_key names idx vals) r idx")
    case (Inl e)
    then show ?thesis using fails by (auto simp: row_key_def)
  next
    case (Inr idx')
    then show ?thesis using fails 2(1) [of idx'] 2(2) by (simp add: row_key_def)
  qed
qed simp

lemma index_insert_error: "index_insert k r i = Inl e \<Longrightarrow> \<exists>msg. e = DuplicateKey msg"
  unfolding index_insert_def Let_def by (metis Inl_Inr_False sum.inject(1))

lemma insert_each_error: "fst (insert_each vals names r t) = Inl e \<Longrightarrow> \<exists>msg. e = DuplicateKey msg"
proof (induction vals names r t rule: insert_each.induct)
  case (2 vals names r n idx rest)
  show ?case
  proof (cases "index_insert (key_of_row (idx_columns idx) names vals) r idx")
    case (Inl e')
    with 2(2) index_insert_error show ?thesis by simp
  next
    case (Inr idx')
    with 2(1) [OF Inr] 2(2) show ?thesis by simp
  qed
qed simp

text \<open>The manager: the indexes of table \<open>table\<close> agree with its rows; a table without entry has no
  index.\<close>

definition manager_agrees :: "index_manager \<Rightarrow> string \<Rightarrow> string list \<Rightarrow> (u64 \<rightharpoonup> db_value list) \<Rightarrow> bool" where
  "manager_agrees m table names R \<longleftrightarrow>
     (case map_of m table of None \<Rightarrow> True | Some t \<Rightarrow> indexes_agree names R t)"

lemma im_insert_row_law:
  assumes "manager_agrees m table names R" and "R r = None"
    and "im_insert_row table vals names r m = (res, m')"
  shows "case res of
      Inr _ \<Rightarrow> manager_agrees m' table names (R(r \<mapsto> vals))
          \<and> \<not> (\<exists>idx \<in> set (table_indexes m table). key_clash names R vals idx)
    | Inl e \<Rightarrow> (\<exists>msg. e = DuplicateKey msg)
          \<and> (\<exists>idx \<in> set (table_indexes m table). key_clash names R vals idx)"
proof (cases "map_of m table")
  case None
  then show ?thesis using assms by (auto simp: im_insert_row_def manager_agrees_def table_indexes_def)
next
  case (Some t)
  have agree: "\<forall>e \<in> set t. index_agrees names R (fst e) (snd e)" and dist: "distinct (map fst t)"
    using assms(1) Some by (auto simp: manager_agrees_def indexes_agree_def amap_inv_def)
  obtain t' where t': "insert_each vals names r t = (res, t')" "m' = AList.update table t' m"
    using assms(3) Some by (cases "insert_each vals names r t") (auto simp: im_insert_row_def)
  note fails = insert_each_fails_iff [OF agree, of vals r, unfolded t' fst_conv]
  show ?thesis
  proof (cases res)
    case (Inl e)
    with fails insert_each_error [of vals names r t e] t'(1) Some show ?thesis
      by (auto simp: table_indexes_def)
  next
    case (Inr u)
    with insert_each_agrees [OF _ agree assms(2), of vals t'] t' have
      "map fst t' = map fst t" "\<forall>e \<in> set t'. index_agrees names (R(r \<mapsto> vals)) (fst e) (snd e)"
      by auto
    with dist have "indexes_agree names (R(r \<mapsto> vals)) t'"
      by (simp add: indexes_agree_def amap_inv_def)
    with Inr fails t'(2) Some show ?thesis
      by (auto simp: manager_agrees_def update_conv' table_indexes_def)
  qed
qed

lemma im_remove_row_law:
  assumes "manager_agrees m table names R" and "R r = Some vals"
  shows "manager_agrees (im_remove_row table vals names r m) table names (R(r := None))"
proof (cases "map_of m table")
  case None
  then show ?thesis by (simp add: manager_agrees_def im_remove_row_def)
next
  case (Some t)
  then have "indexes_agree names R t" using assms(1) by (simp add: manager_agrees_def)
  then have "amap_inv (index_agrees names (R(r := None)))
      (map (apsnd (\<lambda>idx. index_remove (row_key names idx vals) r idx)) t)"
    unfolding indexes_agree_def
    by (rule amap_inv_map_snd) (rule index_agrees_remove [where R = R, OF _ assms(2)])
  with Some show ?thesis
    by (simp add: manager_agrees_def im_remove_row_def update_conv' indexes_agree_def row_key_def)
qed

text \<open>Other tables keep their indexes, and no index changes its columns or its uniqueness.\<close>

definition shape_of :: "btree_index \<Rightarrow> string \<times> string list \<times> bool" where
  "shape_of idx = (idx_name idx, idx_columns idx, idx_unique idx)"

definition index_shape :: "index_manager \<Rightarrow> string \<Rightarrow> (string \<times> string list \<times> bool) list" where
  "index_shape m table = map shape_of (table_indexes m table)"

lemma insert_each_shape:
  "map (\<lambda>e. shape_of (snd e)) (snd (insert_each vals names r t)) = map (\<lambda>e. shape_of (snd e)) t"
proof (induction vals names r t rule: insert_each.induct)
  case (2 vals names r n idx rest)
  then show ?case by (auto simp: shape_of_def bt.ins_uniq split: sum.splits)
qed simp

lemma im_insert_row_frame:
  assumes "im_insert_row table vals names r m = (res, m')"
  shows "index_shape m' t = index_shape m t"
    and "t \<noteq> table \<Longrightarrow> map_of m' t = map_of m t"
proof -
  show "index_shape m' t = index_shape m t"
  proof (cases "map_of m table")
    case None
    then show ?thesis using assms by (simp add: im_insert_row_def)
  next
    case (Some ts)
    then have "m' = AList.update table (snd (insert_each vals names r ts)) m"
      using assms by (cases "insert_each vals names r ts") (simp add: im_insert_row_def)
    then show ?thesis using Some insert_each_shape [of vals names r ts]
      by (simp add: index_shape_def table_indexes_def update_conv' comp_def)
  qed
  show "t \<noteq> table \<Longrightarrow> map_of m' t = map_of m t"
    using assms by (auto simp: im_insert_row_def update_conv' apsnd_def map_prod_def
        split: option.splits prod.splits)
qed

lemma im_remove_row_frame:
  "index_shape (im_remove_row table vals names r m) t = index_shape m t"
  "t \<noteq> table \<Longrightarrow> map_of (im_remove_row table vals names r m) t = map_of m t"
  by (auto simp: index_shape_def shape_of_def table_indexes_def im_remove_row_def update_conv' bt.rem_uniq
      comp_def split: option.splits)

lemma im_row_dom:
  "im_insert_row table vals names r m = (res, m') \<Longrightarrow> dom (map_of m') = dom (map_of m)"
  "dom (map_of (im_remove_row table vals names r m)) = dom (map_of m)"
  by (auto simp: im_insert_row_def im_remove_row_def update_conv' apsnd_def map_prod_def
      split: option.splits prod.splits if_splits)

text \<open>A unique index holds no two rows with the same key.\<close>

definition uniq_keys :: "string list \<Rightarrow> string list \<Rightarrow> (u64 \<rightharpoonup> db_value list) \<Rightarrow> bool" where
  "uniq_keys names cols R \<longleftrightarrow> (\<forall>i j v w. R i = Some v \<longrightarrow> R j = Some w \<longrightarrow>
     index_key (key_of_row cols names v) = index_key (key_of_row cols names w) \<longrightarrow> i = j)"

lemma index_agrees_uniq:
  assumes "index_agrees names R n idx" "idx_unique idx"
  shows "uniq_keys names (idx_columns idx) R"
  unfolding uniq_keys_def
proof (intro allI impI)
  fix i j v w
  assume R: "R i = Some v" "R j = Some w"
    and k: "index_key (key_of_row (idx_columns idx) names v) = index_key (key_of_row (idx_columns idx) names w)"
  let ?ids = "index_lookup idx (row_key names idx v)"
  have "set ?ids = {r. \<exists>row. R r = Some row \<and>
      index_key (row_key names idx row) = index_key (row_key names idx v)}"
    using assms(1) by (simp add: index_agrees_def covers_def)
  then have "i \<in> set ?ids" "j \<in> set ?ids" using R k by (auto simp: row_key_def)
  moreover have "length ?ids \<le> 1"
    using assms by (auto simp: index_agrees_def index_wf_iff index_lookup_def split: option.splits)
  ultimately show "i = j" by (cases ?ids) auto
qed

lemma manager_agrees_uniq:
  assumes "manager_agrees m table names R" "(n, cols, True) \<in> set (index_shape m table)"
  shows "uniq_keys names cols R"
  using assms index_agrees_uniq [of names R]
  by (auto simp: manager_agrees_def index_shape_def shape_of_def table_indexes_def indexes_agree_def
      amap_inv_def split: option.splits)

text \<open>A row enters without an error when the rows stay unique with it.\<close>

lemma im_insert_row_succeeds:
  assumes "manager_agrees m table names R" "R r = None"
    and "\<forall>n cols. (n, cols, True) \<in> set (index_shape m table) \<longrightarrow> uniq_keys names cols (R(r \<mapsto> vals))"
  shows "\<exists>m'. im_insert_row table vals names r m = (Inr (), m') \<and> manager_agrees m' table names (R(r \<mapsto> vals))"
proof -
  obtain res m' where run: "im_insert_row table vals names r m = (res, m')" by fastforce
  have "\<not> key_clash names R vals idx" if "idx \<in> set (table_indexes m table)" for idx
  proof
    assume clash: "key_clash names R vals idx"
    then obtain r' v where v: "idx_unique idx" "R r' = Some v"
      "index_key (row_key names idx v) = index_key (row_key names idx vals)"
      by (auto simp: key_clash_def)
    then have "uniq_keys names (idx_columns idx) (R(r \<mapsto> vals))"
      using assms(3) that by (force simp: index_shape_def shape_of_def)
    moreover have "r' \<noteq> r" using assms(2) v(2) by auto
    ultimately show False using v(2,3) unfolding uniq_keys_def row_key_def
      by (metis fun_upd_other fun_upd_same)
  qed
  with im_insert_row_law [OF assms(1,2) run] run show ?thesis by (cases res) auto
qed

text \<open>Entering a row in the indexes of its table. It fails exactly when some unique index already
  holds a row with the same key, the error being a duplicate key; otherwise every index of the table
  afterwards covers the old rows and the new one.\<close>

theorem im_insert_row_correct:
  assumes "manager_agrees m table names R" and "R r = None"
    and "im_insert_row table vals names r m = (res, m')"
  shows "case res of
      Inr _ \<Rightarrow> manager_agrees m' table names (R(r \<mapsto> vals))
          \<and> \<not> (\<exists>idx \<in> set (table_indexes m table). key_clash names R vals idx)
    | Inl e \<Rightarrow> (\<exists>msg. e = DuplicateKey msg)
          \<and> (\<exists>idx \<in> set (table_indexes m table). key_clash names R vals idx)"
  by (rule im_insert_row_law [OF assms])

text \<open>Removing a row of the table from its indexes leaves them covering exactly the other rows.\<close>

theorem im_remove_row_correct:
  assumes "manager_agrees m table names R" and "R r = Some vals"
  shows "manager_agrees (im_remove_row table vals names r m) table names (R(r := None))"
  by (rule im_remove_row_law [OF assms])

subsection \<open>Range scans\<close>

text \<open>The key of a row that the index has.\<close>

definition key_in :: "(db_value list \<Rightarrow> db_value list) \<Rightarrow> (u64 \<rightharpoonup> db_value list) \<Rightarrow> u64 \<Rightarrow> ikey option" where
  "key_in key R r = map_option (\<lambda>row. index_key (key row)) (R r)"

definition in_range :: "db_value list option \<Rightarrow> db_value list option \<Rightarrow> ikey \<Rightarrow> bool" where
  "in_range mn mx k \<longleftrightarrow> (case mn of None \<Rightarrow> True | Some lo \<Rightarrow> index_key lo \<le> k)
     \<and> (case mx of None \<Rightarrow> True | Some hi \<Rightarrow> k \<le> index_key hi)"

lemma comparable_surj: "\<exists>v. comparable v = c"
proof (cases c)
  case (CText s)
  then have "comparable (Text s) = c" by simp
  then show ?thesis ..
qed (use comparable.simps in \<open>metis\<close>)+

lemma index_key_surj: "\<exists>vs. index_key vs = k"
proof (induction k)
  case (Cons c k)
  then obtain vs v where "index_key vs = k" "comparable v = c" using comparable_surj by blast
  then have "index_key (v # vs) = c # k" by (simp add: index_key_def)
  then show ?case ..
qed (simp add: index_key_def)

lemma tree_entries:
  assumes "covers (index_lookup idx) index_key key R" "index_wf idx" "(k, ids) \<in> set (idx_tree idx)"
  shows "distinct ids \<and> (\<forall>r. r \<in> set ids \<longleftrightarrow> key_in key R r = Some k)"
proof -
  obtain vs where k: "index_key vs = k" using index_key_surj by blast
  have "index_lookup idx vs = ids"
    using assms(2,3) k by (simp add: index_lookup_def index_wf_def bt_ordered_distinct)
  then show ?thesis using assms(1) k by (auto simp: covers_def key_in_def)
qed

lemma concat_entries:
  assumes "bt_ordered m"
    and "\<forall>e \<in> set m. distinct (snd e) \<and> (\<forall>r. r \<in> set (snd e) \<longleftrightarrow> K r = Some (fst e))"
  shows "distinct (concat (map snd m)) \<and> sorted (map (\<lambda>r. the (K r)) (concat (map snd m)))
    \<and> (\<forall>r. r \<in> set (concat (map snd m)) \<longleftrightarrow> (\<exists>e \<in> set m. K r = Some (fst e)))"
  using assms
proof (induction m)
  case (Cons e m)
  have IH: "distinct (concat (map snd m))" "sorted (map (\<lambda>r. the (K r)) (concat (map snd m)))"
    "\<And>r. r \<in> set (concat (map snd m)) \<longleftrightarrow> (\<exists>e \<in> set m. K r = Some (fst e))"
    using Cons by (simp_all add: bt_ordered_def)
  have less: "\<And>e'. e' \<in> set m \<Longrightarrow> fst e < fst e'"
    using Cons.prems(1) by (auto simp: bt_ordered_def)
  have keys: "\<And>r. r \<in> set (snd e) \<longleftrightarrow> K r = Some (fst e)" using Cons.prems(2) by simp
  have "set (snd e) \<inter> set (concat (map snd m)) = {}"
    using less keys IH(3) by fastforce
  moreover have "map (\<lambda>r. the (K r)) (snd e) = replicate (length (snd e)) (fst e)"
    using keys by (intro replicate_eqI) auto
  moreover have "\<forall>r \<in> set (concat (map snd m)). fst e \<le> the (K r)"
  proof
    fix r assume "r \<in> set (concat (map snd m))"
    then obtain e' where "e' \<in> set m" "K r = Some (fst e')" using IH(3) by auto
    then show "fst e \<le> the (K r)" using less [of e'] by simp
  qed
  ultimately show ?case
    using IH keys Cons.prems(2) by (simp add: sorted_append)
qed simp

text \<open>C35: a range scan over an index that covers the rows returns each row whose key lies between the
  bounds exactly once, and in ascending order of the keys.\<close>

theorem range_scan_correct:
  assumes "covers (index_lookup idx) index_key key R" and "index_wf idx"
    and "\<And>lo hi. mn = Some lo \<Longrightarrow> mx = Some hi \<Longrightarrow> index_key lo \<le> index_key hi"
  shows "\<exists>ids. range_scan idx mn mx = Some ids \<and> distinct ids
    \<and> (\<forall>r. r \<in> set ids \<longleftrightarrow> (\<exists>k. key_in key R r = Some k \<and> in_range mn mx k))
    \<and> sorted (map (\<lambda>r. the (key_in key R r)) ids)"
proof -
  let ?m = "filter (\<lambda>e. in_range mn mx (fst e)) (idx_tree idx)"
  have scan: "range_scan idx mn mx = Some (concat (map snd ?m))"
    using assms(3) by (cases mn; cases mx)
      (force simp: range_scan_def in_range_def Let_def case_prod_beta' not_less)+
  have ordered: "bt_ordered ?m" using assms(2) sorted_wrt_filter
    by (auto simp: index_wf_def bt_ordered_def sorted_wrt_map)
  have entries: "\<forall>e \<in> set (idx_tree idx). distinct (snd e)
      \<and> (\<forall>r. r \<in> set (snd e) \<longleftrightarrow> key_in key R r = Some (fst e))"
    using tree_entries [OF assms(1,2)] by auto
  have found: "\<exists>e \<in> set (idx_tree idx). fst e = k" if K: "key_in key R r = Some k" for r k
  proof -
    obtain vs where k: "index_key vs = k" using index_key_surj by blast
    have "r \<in> set (index_lookup idx vs)" using assms(1) K k by (auto simp: covers_def key_in_def)
    then obtain ids where "map_of (idx_tree idx) k = Some ids"
      using k by (cases "map_of (idx_tree idx) k") (auto simp: index_lookup_def)
    then show ?thesis by (force dest: map_of_SomeD)
  qed
  from concat_entries [OF ordered, of "key_in key R"] entries have
    "distinct (concat (map snd ?m))" "sorted (map (\<lambda>r. the (key_in key R r)) (concat (map snd ?m)))"
    "\<And>r. r \<in> set (concat (map snd ?m)) \<longleftrightarrow> (\<exists>e \<in> set ?m. key_in key R r = Some (fst e))"
    by simp_all
  moreover have "(\<exists>e \<in> set ?m. key_in key R r = Some (fst e))
      \<longleftrightarrow> (\<exists>k. key_in key R r = Some k \<and> in_range mn mx k)" for r
    using found [of r] by (cases "key_in key R r") auto
  ultimately show ?thesis using scan by simp
qed

subsection \<open>A concrete table\<close>

lemma index_agrees_new: "index_agrees names Map.empty n (index_new n cols uniq)"
  by (simp add: index_agrees_def index_wf_def covers_def index_new_def index_lookup_def bt_ordered_def)

definition example_index :: btree_index where
  "example_index = \<lparr>idx_name = ''i'', idx_columns = [''a''], idx_unique = True,
     idx_tree = [([CInt 5], [1])]\<rparr>"

definition example_rows :: "u64 \<rightharpoonup> db_value list" where
  "example_rows = [1 \<mapsto> [Int8 5]]"

lemma example_key: "row_key [''a''] example_index [v] = [v]"
  by (simp add: row_key_def key_of_row_def example_index_def get_or_def)

lemma example_agrees: "index_agrees [''a''] example_rows ''i'' example_index"
proof -
  have "index_insert [Int8 5] 1 (index_new ''i'' [''a''] True) = Inr example_index"
    by (simp add: index_insert_def index_new_def example_index_def index_key_def Let_def)
  moreover have "row_key [''a''] (index_new ''i'' [''a''] True) [Int8 5] = [Int8 5]"
    by (simp add: row_key_def key_of_row_def index_new_def get_or_def)
  ultimately show ?thesis unfolding example_rows_def
    by (intro index_agrees_insert [OF index_agrees_new [of _ _ "[''a'']" True]]) simp_all
qed

lemma example_manager: "manager_agrees [(''t'', [(''i'', example_index)])] ''t'' [''a''] example_rows"
  using example_agrees by (simp add: manager_agrees_def indexes_agree_def amap_inv_def)

theorem im_insert_row_correct_witness:
  "\<exists>e. fst (im_insert_row ''t'' [Int4 5] [''a''] 2 [(''t'', [(''i'', example_index)])]) = Inl e
    \<and> (\<exists>msg. e = DuplicateKey msg)"
proof -
  let ?m = "[(''t'', [(''i'', example_index)])]"
  have clash: "key_clash [''a''] example_rows [Int4 5] example_index"
    by (auto simp: key_clash_def example_key index_key_def example_rows_def)
      (simp add: example_index_def)
  obtain res m' where run: "im_insert_row ''t'' [Int4 5] [''a''] 2 ?m = (res, m')" by fastforce
  have "example_rows 2 = None" by (simp add: example_rows_def)
  from im_insert_row_correct [OF example_manager this run] clash show ?thesis
    using run by (cases res) (auto simp: table_indexes_def)
qed

theorem im_remove_row_correct_witness:
  "manager_agrees (im_remove_row ''t'' [Int8 5] [''a''] 1 [(''t'', [(''i'', example_index)])])
     ''t'' [''a''] (example_rows(1 := None))"
  by (rule im_remove_row_correct [OF example_manager]) (simp add: example_rows_def)

theorem range_scan_correct_witness:
  "\<exists>ids. range_scan example_index (Some [Int8 2]) None = Some ids \<and> 1 \<in> set ids"
proof -
  have "covers (index_lookup example_index) index_key (row_key [''a''] example_index) example_rows"
    "index_wf example_index"
    using example_agrees by (simp_all add: index_agrees_def)
  from range_scan_correct [OF this, of "Some [Int8 2]" None] obtain ids where
    "range_scan example_index (Some [Int8 2]) None = Some ids"
    "\<forall>r. r \<in> set ids \<longleftrightarrow> (\<exists>k. key_in (row_key [''a''] example_index) example_rows r = Some k
        \<and> in_range (Some [Int8 2]) None k)"
    by auto
  moreover have "key_in (row_key [''a''] example_index) example_rows 1 = Some [CInt 5]"
    by (simp add: key_in_def example_rows_def example_key index_key_def)
  moreover have "in_range (Some [Int8 2]) None [CInt 5]"
    by (simp add: in_range_def index_key_def less_eq_comparable_value_def less_comparable_value_def)
  ultimately show ?thesis by blast
qed

end
