(* ===== verification/Recovery.thy ===== *)
theory Recovery
  imports Storage Catalog Index
begin

text \<open>
  \<open>moodeng-core/src/recovery.rs\<close> (\<open>checkpoint\<close> is in theory \<open>Storage\<close>) and \<open>IndexManager::rebuild_all\<close>:
  replaying the log into the tables and rebuilding the indexes from them. The hash map of transactions
  is an association list; the theorems hold for every order of it.
\<close>

subsection \<open>Replay\<close>

record txn_state =
  tx_committed :: bool
  tx_aborted :: bool
  tx_data_ops :: "(u64 \<times> wal_op) list"

definition txn_state_default :: txn_state where
  "txn_state_default = \<lparr>tx_committed = False, tx_aborted = False, tx_data_ops = []\<rparr>"

definition entry_or_default :: "(u64 \<times> txn_state) list \<Rightarrow> u64 \<Rightarrow> txn_state" where
  "entry_or_default txns t = (case map_of txns t of None \<Rightarrow> txn_state_default | Some st \<Rightarrow> st)"

fun note_control :: "wal_op \<Rightarrow> txn_state \<Rightarrow> txn_state" where
  "note_control (WCommit _) st = st\<lparr>tx_committed := True, tx_aborted := False\<rparr>"
| "note_control (WAbort _) st = st\<lparr>tx_aborted := True, tx_committed := False\<rparr>"
| "note_control _ st = st"

text \<open>Pass 1: one log record.\<close>

definition note_op :: "u64 \<times> wal_op \<Rightarrow> (u64 \<times> txn_state) list \<Rightarrow> (u64 \<times> txn_state) list" where
  "note_op e txns =
     (case control_txn_id (snd e) of
        Some t \<Rightarrow> AList.update t (note_control (snd e) (entry_or_default txns t)) txns
      | None \<Rightarrow>
          if is_data_op (snd e) then
            (case data_txn_id (snd e) of
               None \<Rightarrow> txns
             | Some t \<Rightarrow> (let st = entry_or_default txns t
                         in AList.update t (st\<lparr>tx_data_ops := tx_data_ops st @ [e]\<rparr>) txns))
          else txns)"

definition group_txns :: "(u64 \<times> wal_op) list \<Rightarrow> (u64 \<times> txn_state) list" where
  "group_txns entries = fold note_op entries []"

text \<open>Pass 2: the operations to apply.\<close>

definition select_ops :: "(u64 \<times> txn_state) list \<Rightarrow> (u64 \<times> wal_op) list" where
  "select_ops txns =
     concat (map (\<lambda>(_, st). if tx_committed st \<and> \<not> tx_aborted st then tx_data_ops st else []) txns)"

fun apply_wal_op :: "storage_codecs \<Rightarrow> wal_op \<Rightarrow> bool \<Rightarrow> (moodeng_error, storage, unit) op" where
  "apply_wal_op C (WInsert _ table row_id r) lg = st_apply_insert C table row_id r lg 0"
| "apply_wal_op C (WUpdate _ table row_id r) lg =
     sbind (st_apply_update C table row_id r lg 0) (\<lambda>_. sret ())"
| "apply_wal_op C (WDelete _ table row_id) lg =
     sbind (st_apply_delete C table row_id lg 0) (\<lambda>_. sret ())"
| "apply_wal_op C _ lg = sret ()"

definition apply_all :: "storage_codecs \<Rightarrow> (u64 \<times> wal_op) list \<Rightarrow> (moodeng_error, storage, unit) op" where
  "apply_all C ops = sfold (\<lambda>e _. apply_wal_op C (snd e) False) ops ()"

definition replay_wal :: "storage_codecs \<Rightarrow> (moodeng_error, storage, nat) op" where
  "replay_wal C s =
     (let entries = replay_since (sc_wal C) (st_wal s) (wal_checkpoint_lsn (st_wal s));
          to_apply = sort_key fst (select_ops (group_txns entries))
      in sbind (apply_all C to_apply) (\<lambda>_. sret (length to_apply)) s)"

subsection \<open>Rebuilding the indexes\<close>

definition rebuild_index :: "string list \<Rightarrow> index_meta \<Rightarrow> (u64 \<times> row) list \<Rightarrow> btree_index res" where
  "rebuild_index col_names meta rows =
     fold (\<lambda>(i, r) acc. rbind acc (index_insert (key_of_row (im_columns meta) col_names (row_values r)) i))
       rows (Inr (index_new (im_name meta) (im_columns meta) (im_unique meta)))"

text \<open>The state is the storage engine, whose caches a scan may change, and the index manager.\<close>

definition rebuild_table :: "storage_codecs \<Rightarrow> catalog \<Rightarrow> string \<Rightarrow>
    (moodeng_error, storage \<times> index_manager, unit) op" where
  "rebuild_table C cat table =
     sbind (slift (get_table cat table)) (\<lambda>schema.
       sfold (\<lambda>meta _ sm.
           (case st_scan C table (fst sm) of
              (Inl e, s') \<Rightarrow> (Inl e, (s', snd sm))
            | (Inr rows, s') \<Rightarrow>
                (case rebuild_index (map col_name (ts_columns schema)) meta rows of
                   Inl e \<Rightarrow> (Inl e, (s', snd sm))
                 | Inr idx \<Rightarrow> (case im_create_index table idx (snd sm) of (r, m') \<Rightarrow> (r, (s', m'))))))
         (ts_indexes schema) ())"

definition rebuild_all :: "storage_codecs \<Rightarrow> catalog \<Rightarrow> (moodeng_error, storage \<times> index_manager, unit) op" where
  "rebuild_all C cat sm = sfold (\<lambda>table _. rebuild_table C cat table) (list_tables cat) () (fst sm, [])"

subsection \<open>Which operations are replayed\<close>

text \<open>A transaction counts as committed when the last of its commit and abort records is a commit.\<close>

definition txn_committed :: "u64 \<Rightarrow> wal_op list \<Rightarrow> bool" where
  "txn_committed t ops =
     fold (\<lambda>op c. if op = WCommit t then True else if op = WAbort t then False else c) ops False"

definition txn_aborted :: "u64 \<Rightarrow> wal_op list \<Rightarrow> bool" where
  "txn_aborted t ops =
     fold (\<lambda>op c. if op = WAbort t then True else if op = WCommit t then False else c) ops False"

lemma txn_status_snoc:
  "txn_committed t (ops @ [op]) = (if op = WCommit t then True else if op = WAbort t then False else txn_committed t ops)"
  "txn_aborted t (ops @ [op]) = (if op = WAbort t then True else if op = WCommit t then False else txn_aborted t ops)"
  by (simp_all add: txn_committed_def txn_aborted_def)

lemma committed_not_aborted: "txn_committed t ops \<Longrightarrow> \<not> txn_aborted t ops"
  by (induction ops rule: rev_induct)
    (auto simp: txn_status_snoc txn_committed_def [of t "[]"] split: if_splits)

definition txn_ops :: "u64 \<Rightarrow> (u64 \<times> wal_op) list \<Rightarrow> (u64 \<times> wal_op) list" where
  "txn_ops t es = filter (\<lambda>e. data_txn_id (snd e) = Some t) es"

lemma group_txns_snoc: "group_txns (es @ [e]) = note_op e (group_txns es)"
  by (simp add: group_txns_def)

lemma entry_update [simp]:
  "entry_or_default (AList.update t v m) t' = (if t' = t then v else entry_or_default m t')"
  by (simp add: entry_or_default_def update_conv')

lemma group_txns_entry:
  "entry_or_default (group_txns es) t = \<lparr>tx_committed = txn_committed t (map snd es),
     tx_aborted = txn_aborted t (map snd es), tx_data_ops = txn_ops t es\<rparr>"
proof (induction es rule: rev_induct)
  case Nil
  then show ?case
    by (simp add: group_txns_def entry_or_default_def txn_state_default_def txn_committed_def
        txn_aborted_def txn_ops_def)
next
  case (snoc e es)
  obtain l op where e: "e = (l, op)" by fastforce
  show ?case using snoc
    by (cases op)
      (auto simp: e group_txns_snoc note_op_def Let_def txn_status_snoc txn_ops_def)
qed

lemma group_txns_distinct: "distinct (map fst (group_txns es))"
proof (induction es rule: rev_induct)
  case Nil
  then show ?case by (simp add: group_txns_def)
next
  case (snoc e es)
  then show ?case
    by (auto simp: group_txns_snoc note_op_def Let_def distinct_update split: option.splits)
qed

lemma group_txns_has:
  assumes "(l, op) \<in> set es" "data_txn_id op = Some t"
  shows "map_of (group_txns es) t \<noteq> None"
proof
  assume "map_of (group_txns es) t = None"
  then have "entry_or_default (group_txns es) t = txn_state_default" by (simp add: entry_or_default_def)
  then have "txn_ops t es = []" by (simp add: group_txns_entry txn_state_default_def)
  then show False using assms by (auto simp: txn_ops_def filter_empty_conv)
qed

definition committed_ops :: "(u64 \<times> wal_op) list \<Rightarrow> (u64 \<times> wal_op) list" where
  "committed_ops es =
     filter (\<lambda>e. case data_txn_id (snd e) of None \<Rightarrow> False | Some t \<Rightarrow> txn_committed t (map snd es)) es"

lemma concat_single:
  "distinct ks \<Longrightarrow> q \<in> set ks \<Longrightarrow> concat (map (\<lambda>k. if q = k then [x] else []) ks) = [x]"
  by (induction ks) (auto simp: concat_eq_Nil_conv)

lemma mset_concat_partition:
  assumes "distinct ks" "\<And>x. x \<in> set xs \<Longrightarrow> P x \<Longrightarrow> k x \<in> set ks"
  shows "mset (concat (map (\<lambda>q. filter (\<lambda>x. P x \<and> k x = q) xs) ks)) = mset (filter P xs)"
  using assms
proof (induction xs)
  case (Cons x xs)
  show ?case
  proof (cases "P x")
    case True
    have "mset (concat (map (\<lambda>q. filter (\<lambda>x. P x \<and> k x = q) (x # xs)) ks)) =
        mset (concat (map (\<lambda>q. (if k x = q then [x] else []) @ filter (\<lambda>x. P x \<and> k x = q) xs) ks))"
      using True by (intro arg_cong [where f = mset] arg_cong [where f = concat] map_cong) auto
    also have "\<dots> = mset (concat (map (\<lambda>q. if k x = q then [x] else []) ks))
        + mset (concat (map (\<lambda>q. filter (\<lambda>x. P x \<and> k x = q) xs) ks))"
      by (induction ks) auto
    also have "mset (concat (map (\<lambda>q. if k x = q then [x] else []) ks)) = {#x#}"
      using Cons.prems True by (simp add: concat_single)
    finally show ?thesis using Cons True by simp
  next
    case False
    then show ?thesis using Cons by simp
  qed
qed simp

lemma select_ops_mset:
  assumes "mset txns = mset (group_txns es)"
  shows "mset (select_ops txns) = mset (committed_ops es)"
proof -
  let ?G = "group_txns es"
  let ?P = "\<lambda>e. case data_txn_id (snd e) of None \<Rightarrow> False | Some t \<Rightarrow> txn_committed t (map snd es)"
  let ?k = "\<lambda>e. the (data_txn_id (snd e))"
  have "mset (select_ops txns) = mset (select_ops ?G)"
    using assms unfolding select_ops_def mset_concat by (simp flip: sum_mset_sum_list)
  also have "select_ops ?G = concat (map (\<lambda>t. filter (\<lambda>e. ?P e \<and> ?k e = t) es) (map fst ?G))"
    unfolding select_ops_def map_map
  proof (intro arg_cong [where f = concat] map_cong refl)
    fix e assume e: "e \<in> set ?G"
    obtain t st where ts: "e = (t, st)" by fastforce
    have "entry_or_default ?G t = st"
      using e ts group_txns_distinct [of es] by (simp add: entry_or_default_def)
    then have st: "st = \<lparr>tx_committed = txn_committed t (map snd es),
        tx_aborted = txn_aborted t (map snd es), tx_data_ops = txn_ops t es\<rparr>"
      by (simp add: group_txns_entry)
    show "(case e of (_, st) \<Rightarrow> if tx_committed st \<and> \<not> tx_aborted st then tx_data_ops st else []) =
        ((\<lambda>t. filter (\<lambda>e. ?P e \<and> ?k e = t) es) \<circ> fst) e"
      unfolding ts st using committed_not_aborted [of t "map snd es"]
      by (auto simp: txn_ops_def empty_filter_conv intro!: filter_cong split: option.splits)
  qed
  also have "mset \<dots> = mset (filter ?P es)"
  proof (rule mset_concat_partition)
    show "distinct (map fst ?G)" by (rule group_txns_distinct)
    fix e assume e: "e \<in> set es" "?P e"
    then obtain t where t: "data_txn_id (snd e) = Some t" by (auto split: option.splits)
    have "map_of ?G t \<noteq> None" using group_txns_has [of "fst e" "snd e" es t] e(1) t by simp
    then show "?k e \<in> set (map fst ?G)" using t by (simp add: map_of_eq_None_iff)
  qed
  finally show ?thesis by (simp add: committed_ops_def)
qed

lemma replay_order:
  assumes "sorted_wrt (<) (map fst es)" and "mset txns = mset (group_txns es)"
  shows "sort_key fst (select_ops txns) = committed_ops es"
proof (rule sort_key_inj_key_eq)
  have d: "distinct (map fst es)" "sorted (map fst es)" using assms(1) by (simp_all add: strict_sorted_iff)
  show ms: "mset (select_ops txns) = mset (committed_ops es)" by (rule select_ops_mset [OF assms(2)])
  have "set (select_ops txns) = set (committed_ops es)" using ms by (metis set_mset_mset)
  then have "set (select_ops txns) \<subseteq> set es" by (auto simp: committed_ops_def)
  then show "inj_on fst (set (select_ops txns))"
    using d(1) by (auto simp: distinct_map intro: inj_on_subset)
  show "sorted (map fst (committed_ops es))"
    unfolding committed_ops_def by (rule sorted_filter [OF d(2)])
qed

text \<open>Recovery replays exactly the data operations of transactions whose last verdict in the log is
  a commit, in log order, whatever the iteration order of the transaction table; operations of
  aborted and of unfinished transactions are dropped.\<close>

theorem recovery_selects_committed:
  assumes "sorted_wrt (<) (map fst es)" and "mset txns = mset (group_txns es)"
  shows "sort_key fst (select_ops txns) = committed_ops es"
  by (rule replay_order [OF assms])

theorem recovery_selects_committed_witness:
  "sort_key fst (select_ops (group_txns
     [(1, WBegin 1), (2, WDelete 1 ''t'' 5), (3, WDelete 2 ''t'' 6), (4, WCommit 1)])) =
   committed_ops [(1, WBegin 1), (2, WDelete 1 ''t'' 5), (3, WDelete 2 ''t'' 6), (4, WCommit 1)]"
  by (rule recovery_selects_committed) simp_all

subsection \<open>What the replayed operations do\<close>

text \<open>The effect of a log record on the rows of all tables.\<close>

fun op_effect :: "wal_op \<Rightarrow> (string \<Rightarrow> u64 \<rightharpoonup> row) \<Rightarrow> string \<Rightarrow> u64 \<rightharpoonup> row" where
  "op_effect (WInsert _ table i r) R = R(table := (R table)(i \<mapsto> r))"
| "op_effect (WUpdate _ table i r) R =
     (case R table i of None \<Rightarrow> R
      | Some old \<Rightarrow> R(table := (R table)(i \<mapsto> r\<lparr>row_version := row_version old + 1\<rparr>)))"
| "op_effect (WDelete _ table i) R = R(table := (R table)(i := None))"
| "op_effect _ R = R"

text \<open>An engine in the default configuration: all tables in memory.\<close>

definition mem_only :: "storage \<Rightarrow> bool" where
  "mem_only s \<longleftrightarrow> \<not> use_paged s \<and> (\<forall>n b. map_of (st_tables s) n = Some b \<longrightarrow> (\<exists>d. b = Memory d))"

text \<open>The tables a list of records needs: an update or a delete of an unknown table is an error, an
  insert creates its table. Row ids must not be the last 64-bit number.\<close>

fun ops_ok :: "string set \<Rightarrow> wal_op list \<Rightarrow> bool" where
  "ops_ok T [] = True"
| "ops_ok T (WInsert _ n i _ # ops) = (i + 1 \<noteq> 0 \<and> ops_ok (insert n T) ops)"
| "ops_ok T (WUpdate _ n _ _ # ops) = (n \<in> T \<and> ops_ok T ops)"
| "ops_ok T (WDelete _ n _ # ops) = (n \<in> T \<and> ops_ok T ops)"
| "ops_ok T (_ # ops) = ops_ok T ops"

abbreviation tables_of :: "storage \<Rightarrow> string set" where
  "tables_of s \<equiv> dom (map_of (st_tables s))"

lemma on_table_memory: "on_table f g (Memory d) = (r, b) \<Longrightarrow> \<exists>d'. b = Memory d'"
  by (cases "f d") auto

lemma mem_only_put: "mem_only s \<Longrightarrow> mem_only (s\<lparr>st_tables := AList.update n (Memory d) (st_tables s)\<rparr>)"
  by (auto simp: mem_only_def use_paged_def update_conv')

lemma mem_entry:
  assumes "st_inv C s" "mem_only s"
  obtains d s1 where "entry_or_new C n s = (Inr (Memory d), s1)" "map_of (st_tables s1) n = Some (Memory d)"
    "st_inv C s1" "mem_only s1" "st_rows C s1 = st_rows C s" "tables_of s1 = insert n (tables_of s)"
proof (cases "map_of (st_tables s) n")
  case None
  let ?s = "s\<lparr>st_tables := AList.update n (Memory table_data_default) (st_tables s)\<rparr>"
  have "entry_or_new C n s = (Inr (Memory table_data_default), ?s)"
    using None assms(2) by (simp add: entry_or_new_def new_empty_backend_def mem_only_def set_backend_def)
  moreover have "st_rows C s n = Map.empty" using None by (simp add: st_rows_def)
  ultimately show thesis
    using st_put [OF assms(1), of "Memory table_data_default" n] mem_only_put [OF assms(2)]
    by (intro that [of table_data_default ?s])
      (simp_all add: td_inv_def table_data_default_def update_conv' fun_upd_idem)
next
  case (Some b)
  then obtain d where "b = Memory d" using assms(2) by (auto simp: mem_only_def)
  then show thesis using Some assms by (intro that [of d s]) (auto simp: entry_or_new_def)
qed

lemma mem_step:
  assumes "st_inv C s" "mem_only s" "ops_ok (tables_of s) (op # ops)"
  shows "\<exists>s'. apply_wal_op C op False s = (Inr (), s') \<and> st_inv C s' \<and> mem_only s'
    \<and> st_rows C s' = op_effect op (st_rows C s) \<and> ops_ok (tables_of s') ops \<and> st_wal s' = st_wal s"
proof (cases op)
  case (WInsert t n i r)
  obtain d s1 where e: "entry_or_new C n s = (Inr (Memory d), s1)" "map_of (st_tables s1) n = Some (Memory d)"
    "st_inv C s1" "mem_only s1" "st_rows C s1 = st_rows C s" "tables_of s1 = insert n (tables_of s)"
    by (rule mem_entry [OF assms(1,2)])
  let ?d = "d\<lparr>td_next_id := (if td_next_id d \<le> i then i + 1 else td_next_id d),
    td_rows := AList.update i r (td_rows d)\<rparr>"
  let ?s = "s1\<lparr>st_tables := AList.update n (Memory ?d) (st_tables s1)\<rparr>"
  have run: "apply_wal_op C op False s = (Inr (), ?s)"
    using e(1) WInsert by (simp add: st_apply_insert_def sbind_def on_backend_def be_apply_insert_def
        td_apply_insert_def)
  have "td_inv d" using st_inv_backend [OF e(3,2)] by simp
  then have "td_inv ?d" using assms(3) WInsert by (intro td_inv_insert) simp_all
  then have "st_inv C ?s" "st_rows C ?s = op_effect op (st_rows C s)"
    using st_put [OF e(3), of "Memory ?d" n] st_rows_table [OF e(2), of C] e(5) WInsert
    by (simp_all add: update_conv')
  moreover have "st_wal s1 = st_wal s"
    using e(1) by (auto simp: entry_or_new_def set_backend_def split: option.splits sum.splits)
  ultimately show ?thesis
    using run mem_only_put [OF e(4)] e(6) assms(3) WInsert by (simp add: update_conv' insert_absorb)
next
  case (WUpdate t n i r)
  then obtain d where b: "map_of (st_tables s) n = Some (Memory d)"
    using assms(2,3) by (auto simp: mem_only_def)
  note rows = st_rows_table [OF b, of C]
  let ?old = "map_of (td_rows d) i"
  let ?r = "r\<lparr>row_version := row_version (the ?old) + 1\<rparr>"
  let ?d = "if ?old = None then d else d\<lparr>td_rows := AList.update i ?r (td_rows d)\<rparr>"
  let ?s = "s\<lparr>st_tables := AList.update n (Memory ?d) (st_tables s)\<rparr>"
  have run: "apply_wal_op C op False s = (Inr (), ?s)"
    using b WUpdate by (cases ?old) (auto simp: st_apply_update_def be_get_def td_get_def sbind_def
        on_backend_def be_update_def td_update_def Let_def)
  have "td_inv d" using st_inv_backend [OF assms(1) b] by simp
  then have "td_inv ?d" by (auto simp: td_inv_def intro!: amap_inv_update dest: amap_inv_lookup)
  then show ?thesis
    using st_put [OF assms(1), of "Memory ?d" n] rows run mem_only_put [OF assms(2)] assms(3) WUpdate b
    by (cases ?old) (auto simp: update_conv' insert_absorb fun_upd_idem)
next
  case (WDelete t n i)
  then obtain d where b: "map_of (st_tables s) n = Some (Memory d)"
    using assms(2,3) by (auto simp: mem_only_def)
  let ?d = "d\<lparr>td_rows := AList.delete i (td_rows d)\<rparr>"
  let ?s = "s\<lparr>st_tables := AList.update n (Memory ?d) (st_tables s)\<rparr>"
  have run: "apply_wal_op C op False s = (Inr (), ?s)"
    using b WDelete by (simp add: st_apply_delete_def sbind_def on_backend_def be_delete_def td_delete_def)
  have "td_inv d" using st_inv_backend [OF assms(1) b] by simp
  then have "td_inv ?d" by (auto simp: td_inv_def intro!: amap_inv_delete)
  then show ?thesis
    using st_put [OF assms(1), of "Memory ?d" n] st_rows_table [OF b, of C] run mem_only_put [OF assms(2)]
      assms(3) WDelete b
    by (auto simp: update_conv' insert_absorb delete_conv')
qed (use assms in auto)

lemma mem_apply_all:
  assumes "st_inv C s" "mem_only s" "ops_ok (tables_of s) (map snd es)"
  shows "\<exists>s'. apply_all C es s = (Inr (), s') \<and> st_inv C s' \<and> mem_only s'
    \<and> st_rows C s' = fold op_effect (map snd es) (st_rows C s) \<and> st_wal s' = st_wal s"
  using assms
proof (induction es arbitrary: s)
  case Nil
  then show ?case by (simp add: apply_all_def)
next
  case (Cons e es)
  from mem_step [OF Cons.prems(1,2), of "snd e" "map snd es" ] Cons.prems(3) obtain t where
    t: "apply_wal_op C (snd e) False s = (Inr (), t)" "st_inv C t" "mem_only t"
      "st_rows C t = op_effect (snd e) (st_rows C s)" "ops_ok (tables_of t) (map snd es)" "st_wal t = st_wal s"
    by auto
  have "apply_all C (e # es) s = apply_all C es t"
    using t(1) by (simp add: apply_all_def sbind_def)
  then show ?case using Cons.IH [OF t(2,3,5)] t(4,6) by simp
qed

lemma mem_replay:
  assumes "st_inv C s" "mem_only s"
    and "es = replay_since (sc_wal C) (st_wal s) (wal_checkpoint_lsn (st_wal s))"
    and "sorted_wrt (<) (map fst es)" "ops_ok (tables_of s) (map snd (committed_ops es))"
  shows "\<exists>s'. replay_wal C s = (Inr (length (committed_ops es)), s') \<and> st_inv C s'
    \<and> st_rows C s' = fold op_effect (map snd (committed_ops es)) (st_rows C s)"
proof -
  have sel: "sort_key fst (select_ops (group_txns es)) = committed_ops es"
    by (rule replay_order [OF assms(4) refl])
  from mem_apply_all [OF assms(1,2,5)] show ?thesis
    by (auto simp: replay_wal_def Let_def assms(3) [symmetric] sel sbind_def)
qed

text \<open>Recovery of an engine with tables in memory. Replaying a log whose records carry ascending LSNs
  succeeds, leaves every table with the effect of the committed operations after the checkpoint, in
  log order, on what the files held, and reports their number.\<close>

theorem replay_wal_correct:
  assumes "st_inv C s" and "mem_only s"
    and "es = replay_since (sc_wal C) (st_wal s) (wal_checkpoint_lsn (st_wal s))"
    and "sorted_wrt (<) (map fst es)" and "ops_ok (tables_of s) (map snd (committed_ops es))"
  shows "\<exists>s'. replay_wal C s = (Inr (length (committed_ops es)), s') \<and> st_inv C s'
    \<and> st_rows C s' = fold op_effect (map snd (committed_ops es)) (st_rows C s)"
  by (rule mem_replay [OF assms])

text \<open>C2: crash recovery from end to end. Operations are logged to a new log, without a checkpoint in between,
  and updates and deletes are only of rows in tables the engine has; the machine crashes at any
  point that keeps the synced bytes, and the log is opened again by an engine whose tables are in
  memory. Recovery succeeds and leaves exactly the effect of the operations that are committed in a
  prefix of the log that lacks at most the nine last records.\<close>

theorem crash_recovery:
  assumes "w = wal_append_all (sc_wal C) ops wal_fresh" and "length ops < 2 ^ 64"
    and "\<forall>op \<in> set ops. codec_ok (sc_wal C) op \<and> length (ser (sc_wal C) op) + 4 < 2 ^ 32"
    and "f_synced (wal_file w) \<le> n"
    and "wal_open (sc_lsn C) (take n (f_content (wal_file w))) None = Inr w'"
    and "st_inv C s" and "mem_only s" and "st_wal s = w'"
    and "\<forall>k. ops_ok (tables_of s) (map snd (committed_ops (take k (number_from 0 ops))))"
  shows "\<exists>k s'. k \<le> length ops \<and> length ops - k < 10
    \<and> replay_wal C s = (Inr (length (committed_ops (take k (number_from 0 ops)))), s')
    \<and> st_rows C s' = fold op_effect (map snd (committed_ops (take k (number_from 0 ops)))) (st_rows C s)"
proof -
  obtain k where k: "k \<le> length ops" "length ops - k < 10"
    "replay_from_bytes (sc_wal C) (take n (f_content (wal_file w))) 0 = take k (number_from 0 ops)"
    using wal_crash_replay [OF assms(1-4)] by blast
  have "f_content (wal_file w') = take n (f_content (wal_file w))" "wal_checkpoint_lsn w' = 0"
    using assms(5) by (auto simp: wal_open_def)
  then have es: "take k (number_from 0 ops) =
      replay_since (sc_wal C) (st_wal s) (wal_checkpoint_lsn (st_wal s))"
    using k(3) assms(8) by (simp add: replay_since_def)
  have sorted: "sorted_wrt (<) (map fst (take k (number_from 0 ops)))"
    using number_from_sorted [of 0 ops] assms(2) by (simp add: sorted_wrt_take flip: take_map)
  from mem_replay [OF assms(6,7) es sorted] assms(9) k show ?thesis by blast
qed

subsection \<open>Rebuilt indexes\<close>

text \<open>The column values of the rows, what the indexes are about.\<close>

definition row_vals :: "(u64 \<rightharpoonup> row) \<Rightarrow> u64 \<rightharpoonup> db_value list" where
  "row_vals R i = map_option row_values (R i)"

lemma row_vals_simps [simp]:
  "row_vals Map.empty = Map.empty"
  "row_vals (R(i \<mapsto> r)) = (row_vals R)(i \<mapsto> row_values r)"
  "row_vals (R(i := None)) = (row_vals R)(i := None)"
  by (auto simp: row_vals_def fun_eq_iff)

lemma rebuild_index_agrees:
  assumes "distinct (map fst rows)"
    and "rebuild_index names meta rows = Inr idx"
  shows "index_agrees names (row_vals (map_of rows)) (im_name meta) idx
    \<and> idx_columns idx = im_columns meta \<and> idx_unique idx = im_unique meta"
  using assms
proof (induction rows arbitrary: idx rule: rev_induct)
  case Nil
  then show ?case using index_agrees_new [of names "im_name meta"]
    by (auto simp: rebuild_index_def index_new_def)
next
  case (snoc e rows)
  obtain i r where e: "e = (i, r)" by fastforce
  from snoc.prems(2) obtain idx0 where idx0: "rebuild_index names meta rows = Inr idx0"
    and ins: "index_insert (key_of_row (im_columns meta) names (row_values r)) i idx0 = Inr idx"
    by (auto simp: rebuild_index_def e rbind_eq_Inr)
  have IH: "index_agrees names (row_vals (map_of rows)) (im_name meta) idx0"
    "idx_columns idx0 = im_columns meta" "idx_unique idx0 = im_unique meta"
    using snoc.IH [OF _ idx0] snoc.prems(1) by auto
  have new: "map_of rows i = None" using snoc.prems(1) e by (auto simp: map_of_eq_None_iff)
  have upd: "row_vals (map_of (rows @ [e])) =
      (row_vals (map_of rows))(i \<mapsto> row_values r)"
    using new e by (auto simp: fun_eq_iff map_add_def row_vals_def split: option.splits)
  have "index_insert (row_key names idx0 (row_values r)) i idx0 = Inr idx"
    using ins IH(2) by (simp add: row_key_def)
  moreover have "row_vals (map_of rows) i = None" using new by (simp add: row_vals_def)
  ultimately show ?case
    using index_agrees_insert [OF IH(1), of i "row_values r" idx] IH(2,3) ins bt.ins_uniq [OF ins]
    unfolding upd by (simp del: fun_upd_apply)
qed

text \<open>An index rebuilt from the rows of a table is well formed and covers exactly these rows.\<close>

theorem rebuilt_index_covers_table:
  assumes "st_inv C s" and "st_scan C table s = (Inr rows, s')"
    and "rebuild_index names meta rows = Inr idx"
  shows "index_agrees names (row_vals (st_rows C s table)) (im_name meta) idx"
proof -
  have "lists_rows rows (st_rows C s table)" using st_scan_law [OF assms(1), of table] assms(2) by auto
  then have "distinct (map fst rows)" "map_of rows = st_rows C s table"
    by (simp_all add: lists_rows_def strict_sorted_iff)
  with rebuild_index_agrees [OF this(1) assms(3)] show ?thesis by simp
qed

subsection \<open>A concrete recovery\<close>

definition example_ops :: "wal_op list" where
  "example_ops = [WBegin 1, WInsert 1 ''t'' 2 (row_new [Int8 6]), WCommit 1, WDelete 2 ''t'' 1]"

definition example_crashed :: storage where
  "example_crashed = example_storage\<lparr>st_wal := wal_append_all op_codec example_ops wal_fresh\<rparr>"

lemma example_crashed_inv: "st_inv example_storage_codecs example_crashed" "mem_only example_crashed"
  using example_storage_inv
  by (simp add: example_crashed_def)
    (simp add: example_crashed_def mem_only_def example_storage_def use_paged_def storage_options_default_def)

lemma example_ops_ok:
  "\<forall>op \<in> set example_ops. codec_ok op_codec op \<and> length (ser op_codec op) + 4 < 2 ^ 32"
  by (simp add: example_ops_def op_codec_ok)
    (simp add: op_codec_def codec_of_def enc_str_def enc_char_def enc_row_def enc_pair_def row_new_def)

lemma example_log_replay:
  "replay_since op_codec (st_wal example_crashed) (wal_checkpoint_lsn (st_wal example_crashed)) =
     number_from 0 example_ops"
proof -
  have "replay_from_bytes op_codec (encode_entries op_codec (number_from 0 example_ops)) 0 =
      filter (\<lambda>e. 0 < fst e) (number_from 0 example_ops)"
    using replay_entries [of "number_from 0 example_ops" op_codec "[]" 0] example_ops_ok
    by (simp add: example_ops_def entry_ok_def)
  then show ?thesis
    using wal_append_all_content [of op_codec example_ops wal_fresh]
    by (simp add: example_crashed_def replay_since_def wal_fresh_def) (simp add: example_ops_def)
qed

lemma example_committed:
  "map snd (committed_ops (number_from 0 example_ops)) = [WInsert 1 ''t'' 2 (row_new [Int8 6])]"
  by (simp add: committed_ops_def example_ops_def txn_committed_def)

theorem replay_wal_correct_witness:
  "\<exists>s'. replay_wal example_storage_codecs example_crashed = (Inr 1, s')
    \<and> st_rows example_storage_codecs s' ''t'' 2 = Some (row_new [Int8 6])"
proof -
  let ?es = "number_from 0 example_ops"
  have sorted: "sorted_wrt (<) (map fst ?es)"
    by (rule number_from_sorted) (simp add: example_ops_def)
  have ok: "ops_ok (tables_of example_crashed) (map snd (committed_ops ?es))"
    by (simp add: example_committed)
  have es: "?es = replay_since (sc_wal example_storage_codecs) (st_wal example_crashed)
      (wal_checkpoint_lsn (st_wal example_crashed))"
    using example_log_replay by (simp add: example_storage_codecs_def)
  have len: "length (committed_ops ?es) = 1" using arg_cong [OF example_committed, of length] by simp
  from replay_wal_correct [OF example_crashed_inv es sorted ok] show ?thesis
    unfolding len example_committed by auto
qed

lemma example_prefixes_ok:
  "ops_ok T (map snd (committed_ops (take k (number_from 0 example_ops))))"
proof -
  consider "k = 0" | "k = 1" | "k = 2" | "k = 3" | "4 \<le> k" by linarith
  then show ?thesis
    by cases (simp_all add: example_ops_def committed_ops_def txn_committed_def)
qed

theorem crash_recovery_witness:
  "\<exists>w' k s'. wal_open lsn_codec (take 1000
        (f_content (wal_file (wal_append_all op_codec example_ops wal_fresh)))) None = Inr w'
    \<and> replay_wal example_storage_codecs (example_storage\<lparr>st_wal := w'\<rparr>) =
        (Inr (length (committed_ops (take k (number_from 0 example_ops)))), s')"
proof -
  let ?w = "wal_append_all op_codec example_ops wal_fresh"
  have codecs: "sc_wal example_storage_codecs = op_codec" "sc_lsn example_storage_codecs = lsn_codec"
    by (simp_all add: example_storage_codecs_def)
  have synced: "f_synced (wal_file ?w) \<le> 1000"
    by (simp add: example_ops_def wal_append_def Let_def wal_fresh_def WAL_SYNC_BATCH_def
        file_append_def word_le_nat_alt)
  obtain w' where w': "wal_open lsn_codec (take 1000 (f_content (wal_file ?w))) None = Inr w'"
    by (simp add: wal_open_def)
  let ?s = "example_storage\<lparr>st_wal := w'\<rparr>"
  have s: "st_inv example_storage_codecs ?s" "mem_only ?s" "st_wal ?s = w'"
    using example_storage_inv
    by simp (simp_all add: mem_only_def example_storage_def use_paged_def storage_options_default_def)
  have "length example_ops < 2 ^ 64" by (simp add: example_ops_def)
  from crash_recovery [of ?w example_storage_codecs example_ops 1000 w' ?s, unfolded codecs,
      OF refl this example_ops_ok synced w' s] example_prefixes_ok w'
  show ?thesis by blast
qed

theorem rebuilt_index_covers_table_witness:
  "\<exists>rows s' idx. st_scan example_storage_codecs ''t'' example_storage = (Inr rows, s')
    \<and> rebuild_index [''a''] \<lparr>im_name = ''i'', im_columns = [''a''], im_unique = True\<rparr> rows = Inr idx
    \<and> index_agrees [''a''] (row_vals (st_rows example_storage_codecs example_storage ''t'')) ''i'' idx"
proof -
  let ?meta = "\<lparr>im_name = ''i'', im_columns = [''a''], im_unique = True\<rparr>"
  have scan: "st_scan example_storage_codecs ''t'' example_storage =
      (Inr [(1, row_new [Int8 5])], example_storage)"
    by (simp add: st_scan_def example_storage_def on_backend_def be_scan_def td_scan_def)
  have "rebuild_index [''a''] ?meta [(1, row_new [Int8 5])] =
      index_insert (key_of_row [''a''] [''a''] [Int8 5]) 1 (index_new ''i'' [''a''] True)"
    by (simp add: rebuild_index_def row_new_def)
  moreover have "\<nexists>e. index_insert (key_of_row [''a''] [''a''] [Int8 5]) 1 (index_new ''i'' [''a''] True) = Inl e"
    using index_agrees_new [of "[''a'']" "''i''" "[''a'']" True] bt.ins_fails
    by (simp add: index_agrees_def index_lookup_def) (simp add: index_new_def)
  ultimately obtain idx where idx: "rebuild_index [''a''] ?meta [(1, row_new [Int8 5])] = Inr idx"
    by (metis sumE)
  from rebuilt_index_covers_table [OF example_storage_inv scan idx] scan idx show ?thesis by auto
qed

end
