(* ===== verification/Transaction.thy ===== *)
theory Transaction
  imports Recovery
begin

text \<open>
  \<open>moodeng-core/src/transaction.rs\<close>: the transaction of a session with its undo log, and the application
  of an undo record to the tables and indexes. The state of \<open>apply_undo\<close> is the storage engine and the
  index manager; the catalog is only read.
\<close>

subsection \<open>State\<close>

datatype undo_record =
    UInsert string u64
  | UUpdate string u64 row
  | UDelete string u64 row

record transaction =
  tr_active :: bool
  tr_txn_id :: "u64 option"
  tr_undo :: "undo_record list"

definition transaction_default :: transaction where
  "transaction_default = \<lparr>tr_active = False, tr_txn_id = None, tr_undo = []\<rparr>"

record session =
  se_transaction :: transaction
  se_auto_commit :: bool

definition session_new :: session where
  "session_new = \<lparr>se_transaction = transaction_default, se_auto_commit = False\<rparr>"

subsection \<open>Operations\<close>

definition txn_begin :: "wal_op codec \<Rightarrow> (moodeng_error, transaction \<times> wal, unit) op" where
  "txn_begin C tw =
     (case tw of (t, w) \<Rightarrow>
        if tr_active t then (Inl (Execution ''transaction already active''), (t, w))
        else let (txn_id, w1) = alloc_txn_id w;
                 (_, w2) = wal_append C (WBegin txn_id) w1
             in (Inr (), (t\<lparr>tr_txn_id := Some txn_id, tr_active := True, tr_undo := []\<rparr>, w2)))"

definition txn_commit :: "wal_op codec \<Rightarrow> (moodeng_error, transaction \<times> wal, unit) op" where
  "txn_commit C tw =
     (case tw of (t, w) \<Rightarrow>
        (case tr_txn_id t of
           None \<Rightarrow> (Inl (Execution ''no active transaction''), (t, w))
         | Some txn_id \<Rightarrow>
             let (_, w1) = wal_append C (WCommit txn_id) w
             in (Inr (), (t\<lparr>tr_txn_id := None, tr_active := False, tr_undo := []\<rparr>, w1))))"

text \<open>Rolling back returns the undo records, the last one first.\<close>

definition txn_rollback :: "wal_op codec \<Rightarrow> (moodeng_error, transaction \<times> wal, undo_record list) op" where
  "txn_rollback C tw =
     (case tw of (t, w) \<Rightarrow>
        (case tr_txn_id t of
           None \<Rightarrow> (Inl (Execution ''no active transaction''), (t, w))
         | Some txn_id \<Rightarrow>
             let (_, w1) = wal_append C (WAbort txn_id) w
             in (Inr (rev (tr_undo t)), (t\<lparr>tr_txn_id := None, tr_active := False, tr_undo := []\<rparr>, w1))))"

definition txn_record :: "undo_record \<Rightarrow> transaction \<Rightarrow> transaction" where
  "txn_record u t = (if tr_active t then t\<lparr>tr_undo := tr_undo t @ [u]\<rparr> else t)"

definition is_active :: "transaction \<Rightarrow> bool" where
  "is_active t = tr_active t"

definition current_txn_id :: "transaction \<Rightarrow> u64 option" where
  "current_txn_id t = tr_txn_id t"

fun apply_undo :: "storage_codecs \<Rightarrow> catalog \<Rightarrow> undo_record \<Rightarrow>
    (moodeng_error, storage \<times> index_manager, unit) op" where
  "apply_undo C cat (UInsert table i) =
     sbind (on_fst (st_get C table i)) (\<lambda>found.
       case found of
         None \<Rightarrow> sret ()
       | Some r \<Rightarrow>
           sbind (slift (get_table cat table)) (\<lambda>schema.
           sbind (on_snd (\<lambda>m. (Inr (), im_remove_row table (row_values r) (schema_names schema) i m))) (\<lambda>_.
           sbind (on_fst (st_apply_delete C table i False 0)) (\<lambda>_. sret ()))))"
| "apply_undo C cat (UUpdate table i old_row) =
     sbind (slift (get_table cat table)) (\<lambda>schema.
     sbind (on_fst (st_get C table i)) (\<lambda>found.
     sbind (case found of
              None \<Rightarrow> sret ()
            | Some current \<Rightarrow>
                on_snd (\<lambda>m. (Inr (), im_remove_row table (row_values current) (schema_names schema) i m))) (\<lambda>_.
     sbind (on_fst (st_apply_update C table i old_row False 0)) (\<lambda>_.
       on_snd (im_insert_row table (row_values old_row) (schema_names schema) i)))))"
| "apply_undo C cat (UDelete table i old_row) =
     sbind (slift (get_table cat table)) (\<lambda>schema.
     sbind (on_fst (st_apply_insert C table i old_row False 0)) (\<lambda>_.
       on_snd (im_insert_row table (row_values old_row) (schema_names schema) i)))"

subsection \<open>Tables and indexes in agreement\<close>

text \<open>The column values of all rows, without the versions.\<close>

type_synonym table_values = "string \<Rightarrow> u64 \<rightharpoonup> db_value list"

definition table_vals :: "storage_codecs \<Rightarrow> storage \<Rightarrow> table_values" where
  "table_vals C s table = row_vals (st_rows C s table)"

text \<open>Every table of the catalog has a backend, and its indexes cover exactly its rows.\<close>

definition tables_agree :: "storage_codecs \<Rightarrow> catalog \<Rightarrow> storage \<times> index_manager \<Rightarrow> bool" where
  "tables_agree C cat p \<longleftrightarrow> st_inv C (fst p) \<and>
     (\<forall>table schema. map_of (cat_tables cat) table = Some schema \<longrightarrow>
        table \<in> tables_of (fst p) \<and>
        manager_agrees (snd p) table (schema_names schema) (table_vals C (fst p) table))"

lemma tables_agreeD:
  assumes "tables_agree C cat (s, m)"
  shows "st_inv C s"
    and "map_of (cat_tables cat) table = Some schema \<Longrightarrow> table \<in> tables_of s"
    and "map_of (cat_tables cat) table = Some schema \<Longrightarrow>
      manager_agrees m table (schema_names schema) (table_vals C s table)"
  using assms by (auto simp: tables_agree_def)

lemma table_vals_changed:
  "st_changed C s table R s' \<Longrightarrow> table_vals C s' = (table_vals C s)(table := row_vals R)"
  by (rule ext) (simp add: table_vals_def st_changed_def)

lemma table_vals_same: "st_same C s s' \<Longrightarrow> table_vals C s' = table_vals C s"
  by (rule ext) (simp add: table_vals_def st_same_def)

lemma tables_agree_same:
  "tables_agree C cat (s, m) \<Longrightarrow> st_same C s s' \<Longrightarrow> tables_agree C cat (s', m)"
  using table_vals_same [of C s s'] by (auto simp: tables_agree_def st_same_def)

text \<open>A change of one table whose indexes are changed with it.\<close>

lemma tables_agree_change:
  assumes "tables_agree C cat (s, m)" "map_of (cat_tables cat) table = Some schema"
    and "st_changed C s table R s'" "manager_agrees m' table (schema_names schema) (row_vals R)"
    and "\<And>t. t \<noteq> table \<Longrightarrow> map_of m' t = map_of m t"
  shows "tables_agree C cat (s', m')"
  unfolding tables_agree_def fst_conv snd_conv
proof (intro conjI allI impI)
  show "st_inv C s'" using assms(3) by (simp add: st_changed_def)
  fix t sch assume t: "map_of (cat_tables cat) t = Some sch"
  show "t \<in> tables_of s'" using tables_agreeD(2) [OF assms(1) t] assms(3) by (simp add: st_changed_def)
  show "manager_agrees m' t (schema_names sch) (table_vals C s' t)"
  proof (cases "t = table")
    case True
    then show ?thesis using t assms(2,4) table_vals_changed [OF assms(3)] by simp
  next
    case False
    then show ?thesis using tables_agreeD(3) [OF assms(1) t] assms(5) [OF False] table_vals_changed [OF assms(3)]
      by (simp add: manager_agrees_def)
  qed
qed

subsection \<open>What an undo record restores\<close>

fun undo_table :: "undo_record \<Rightarrow> string" where
  "undo_table (UInsert t _) = t"
| "undo_table (UUpdate t _ _) = t"
| "undo_table (UDelete t _ _) = t"

fun undo_value :: "undo_record \<Rightarrow> table_values \<Rightarrow> table_values" where
  "undo_value (UInsert t i) V = V(t := (V t)(i := None))"
| "undo_value (UUpdate t i old) V = V(t := (V t)(i \<mapsto> row_values old))"
| "undo_value (UDelete t i old) V = V(t := (V t)(i \<mapsto> row_values old))"

text \<open>A record fits the current rows: an updated row is still there, a deleted one is not.\<close>

fun undo_fits :: "undo_record \<Rightarrow> table_values \<Rightarrow> bool" where
  "undo_fits (UInsert t i) V = True"
| "undo_fits (UUpdate t i old) V = (V t i \<noteq> None)"
| "undo_fits (UDelete t i old) V = (V t i = None \<and> i + 1 \<noteq> 0)"

text \<open>Engines in the default configuration never fail on these writes.\<close>

lemma mem_get:
  assumes "st_inv C s" "mem_only s"
  shows "\<exists>s'. st_get C table i s = (Inr (st_rows C s table i), s') \<and> st_same C s s' \<and> mem_only s'"
proof (cases "map_of (st_tables s) table")
  case None
  then show ?thesis using assms by (simp add: st_get_def st_rows_def st_same_def)
next
  case (Some b)
  then obtain d where "b = Memory d" using assms(2) by (auto simp: mem_only_def)
  then have "st_get C table i s = (Inr (st_rows C s table i),
      s\<lparr>st_tables := AList.update table (Memory d) (st_tables s)\<rparr>)"
    using Some by (simp add: st_get_def on_backend_def be_get_def td_get_def st_rows_def)
  then show ?thesis using st_get_law [OF assms(1), of table i] mem_only_put [OF assms(2)] by auto
qed

lemma mem_apply_insert:
  assumes "st_inv C s" "mem_only s" "table \<in> tables_of s" "i + 1 \<noteq> 0"
  shows "\<exists>s'. st_apply_insert C table i r False 0 s = (Inr (), s') \<and> mem_only s'
    \<and> st_changed C s table ((st_rows C s table)(i \<mapsto> r)) s'"
proof -
  obtain s' where s': "st_apply_insert C table i r False 0 s = (Inr (), s')" "mem_only s'"
    using mem_step [OF assms(1,2), of "WInsert 0 table i r" "[]"] assms(4) by auto
  obtain d where "map_of (st_tables s) table = Some (Memory d)"
    using assms(2,3) by (auto simp: mem_only_def)
  from st_apply_insert_law [OF assms(1) this _ s'(1)] assms(4) s' show ?thesis by (simp add: td_fits_def)
qed

lemma mem_apply_update:
  assumes "st_inv C s" "mem_only s" "st_rows C s table i = Some old"
  shows "\<exists>s'. st_apply_update C table i r False 0 s = (Inr True, s') \<and> mem_only s'
    \<and> st_changed C s table ((st_rows C s table)(i \<mapsto> r\<lparr>row_version := row_version old + 1\<rparr>)) s'"
proof -
  have "table \<in> tables_of s" using assms(3) by (auto simp: st_rows_def split: option.splits)
  then obtain s' where s': "sbind (st_apply_update C table i r False 0) (\<lambda>_. sret ()) s = (Inr (), s')" "mem_only s'"
    using mem_step [OF assms(1,2), of "WUpdate 0 table i r" "[]"] by auto
  then obtain b where b: "st_apply_update C table i r False 0 s = (Inr b, s')" by (auto simp: sbind_split)
  from st_apply_update_law [OF assms(1) b] assms(3) s'(2) b show ?thesis by (cases b) auto
qed

lemma mem_apply_delete:
  assumes "st_inv C s" "mem_only s" "table \<in> tables_of s"
  shows "\<exists>d s'. st_apply_delete C table i False 0 s = (Inr d, s') \<and> mem_only s'
    \<and> st_changed C s table ((st_rows C s table)(i := None)) s'"
proof -
  obtain s' where s': "sbind (st_apply_delete C table i False 0) (\<lambda>_. sret ()) s = (Inr (), s')" "mem_only s'"
    using mem_step [OF assms(1,2), of "WDelete 0 table i" "[]"] assms(3) by auto
  then obtain d where d: "st_apply_delete C table i False 0 s = (Inr d, s')" by (auto simp: sbind_split)
  from st_apply_delete_law [OF assms(1) d] s'(2) d show ?thesis by auto
qed

text \<open>Applying a record that fits, to tables and indexes in agreement, succeeds and restores the values,
  provided the restored table satisfies its unique indexes.\<close>

definition uniques_hold :: "index_manager \<Rightarrow> string \<Rightarrow> table_schema \<Rightarrow> (u64 \<rightharpoonup> db_value list) \<Rightarrow> bool" where
  "uniques_hold m table schema R \<longleftrightarrow>
     (\<forall>n cols. (n, cols, True) \<in> set (index_shape m table) \<longrightarrow> uniq_keys (schema_names schema) cols R)"

lemma uniques_hold_cong: "index_shape m' = index_shape m \<Longrightarrow> uniques_hold m' = uniques_hold m"
  by (simp add: uniques_hold_def fun_eq_iff)

definition undo_done :: "storage_codecs \<Rightarrow> catalog \<Rightarrow> undo_record \<Rightarrow> storage \<times> index_manager \<Rightarrow>
    storage \<times> index_manager \<Rightarrow> bool" where
  "undo_done C cat u p p' \<longleftrightarrow> tables_agree C cat p' \<and> mem_only (fst p')
     \<and> table_vals C (fst p') = undo_value u (table_vals C (fst p))
     \<and> index_shape (snd p') = index_shape (snd p) \<and> tables_of (fst p') = tables_of (fst p)
     \<and> dom (map_of (snd p')) = dom (map_of (snd p))"

lemma undo_insert:
  assumes "tables_agree C cat (s, m)" "mem_only s" "map_of (cat_tables cat) table = Some schema"
  shows "\<exists>p'. apply_undo C cat (UInsert table i) (s, m) = (Inr (), p') \<and> undo_done C cat (UInsert table i) (s, m) p'"
proof -
  note ag = tables_agreeD [OF assms(1)]
  obtain s1 where s1: "st_get C table i s = (Inr (st_rows C s table i), s1)" "st_same C s s1" "mem_only s1"
    using mem_get [OF ag(1) assms(2)] by blast
  note ag1 = tables_agree_same [OF assms(1) s1(2)] and V1 = table_vals_same [OF s1(2)]
  show ?thesis
  proof (cases "st_rows C s table i")
    case None
    then have "(table_vals C s)(table := (table_vals C s table)(i := None)) = table_vals C s"
      by (simp add: table_vals_def row_vals_def fun_upd_idem)
    then show ?thesis using s1 None ag1 V1 by (simp add: sbind_def on_fst_def undo_done_def st_same_def)
  next
    case (Some r)
    let ?m = "im_remove_row table (row_values r) (schema_names schema) i m"
    obtain d s2 where s2: "st_apply_delete C table i False 0 s1 = (Inr d, s2)" "mem_only s2"
      "st_changed C s1 table ((st_rows C s1 table)(i := None)) s2"
      using mem_apply_delete [of C s1 table i] tables_agreeD(1,2) [OF ag1] assms(3) s1(3) by blast
    have "table_vals C s1 table i = Some (row_values r)" using V1 Some by (simp add: table_vals_def row_vals_def)
    from im_remove_row_law [OF tables_agreeD(3) [OF ag1 assms(3)] this]
    have "manager_agrees ?m table (schema_names schema) (row_vals ((st_rows C s1 table)(i := None)))"
      by (simp add: table_vals_def)
    from tables_agree_change [OF ag1 assms(3) s2(3) this]
    have "tables_agree C cat (s2, ?m)" by (simp add: im_remove_row_frame(2))
    moreover have "tables_of s2 = tables_of s" using s2(3) s1(2) by (simp add: st_changed_def st_same_def)
    ultimately show ?thesis using s1(1) s2(1,2) Some assms(3) table_vals_changed [OF s2(3)] V1
      by (auto simp: sbind_def on_fst_def on_snd_def undo_done_def get_table_def im_remove_row_frame(1)
          table_vals_def fun_eq_iff im_row_dom(2))
  qed
qed

lemma undo_delete:
  assumes "tables_agree C cat (s, m)" "mem_only s" "map_of (cat_tables cat) table = Some schema"
    and "table_vals C s table i = None" "i + 1 \<noteq> 0"
    and "uniques_hold m table schema ((table_vals C s table)(i \<mapsto> row_values r))"
  shows "\<exists>p'. apply_undo C cat (UDelete table i r) (s, m) = (Inr (), p') \<and> undo_done C cat (UDelete table i r) (s, m) p'"
proof -
  note ag = tables_agreeD [OF assms(1)]
  obtain s2 where s2: "st_apply_insert C table i r False 0 s = (Inr (), s2)" "mem_only s2"
    "st_changed C s table ((st_rows C s table)(i \<mapsto> r)) s2"
    using mem_apply_insert [OF ag(1) assms(2) ag(2) [OF assms(3)] assms(5)] by blast
  obtain m' where m': "im_insert_row table (row_values r) (schema_names schema) i m = (Inr (), m')"
    "manager_agrees m' table (schema_names schema) ((table_vals C s table)(i \<mapsto> row_values r))"
    using im_insert_row_succeeds [OF ag(3) [OF assms(3)] assms(4) assms(6) [unfolded uniques_hold_def]] by blast
  have "tables_agree C cat (s2, m')"
    by (rule tables_agree_change [OF assms(1,3) s2(3)])
      (use m' in \<open>simp_all add: table_vals_def im_insert_row_frame(2)\<close>)
  moreover have "tables_of s2 = tables_of s" using s2(3) by (simp add: st_changed_def)
  ultimately show ?thesis
    using s2(1,2) m' assms(3) table_vals_changed [OF s2(3)] im_insert_row_frame(1) [OF m'(1)] im_row_dom(1) [OF m'(1)]
    by (auto simp: sbind_def on_fst_def on_snd_def undo_done_def get_table_def table_vals_def fun_eq_iff)
qed

lemma undo_update:
  assumes "tables_agree C cat (s, m)" "mem_only s" "map_of (cat_tables cat) table = Some schema"
    and "table_vals C s table i \<noteq> None"
    and "uniques_hold m table schema ((table_vals C s table)(i \<mapsto> row_values r))"
  shows "\<exists>p'. apply_undo C cat (UUpdate table i r) (s, m) = (Inr (), p') \<and> undo_done C cat (UUpdate table i r) (s, m) p'"
proof -
  let ?names = "schema_names schema" and ?R = "table_vals C s table"
  note ag = tables_agreeD [OF assms(1)]
  obtain cur where cur: "st_rows C s table i = Some cur" "?R i = Some (row_values cur)"
    using assms(4) by (auto simp: table_vals_def row_vals_def)
  obtain s1 where s1: "st_get C table i s = (Inr (Some cur), s1)" "st_same C s s1" "mem_only s1"
    using mem_get [OF ag(1) assms(2), of table i] cur(1) by auto
  note ag1 = tables_agree_same [OF assms(1) s1(2)] and V1 = table_vals_same [OF s1(2)]
  have same: "st_inv C s1" "st_rows C s1 = st_rows C s" using s1(2) by (simp_all add: st_same_def)
  let ?r = "r\<lparr>row_version := row_version cur + 1\<rparr>"
  obtain s2 where s2: "st_apply_update C table i r False 0 s1 = (Inr True, s2)" "mem_only s2"
    "st_changed C s1 table ((st_rows C s1 table)(i \<mapsto> ?r)) s2"
    using mem_apply_update [of C s1 table i cur r] same s1(3) cur(1) by auto
  let ?m1 = "im_remove_row table (row_values cur) ?names i m"
  have m1: "manager_agrees ?m1 table ?names (?R(i := None))"
    by (rule im_remove_row_law [OF ag(3) [OF assms(3)] cur(2)])
  have "\<exists>m'. im_insert_row table (row_values r) ?names i ?m1 = (Inr (), m')
      \<and> manager_agrees m' table ?names ((?R(i := None))(i \<mapsto> row_values r))"
    by (rule im_insert_row_succeeds [OF m1])
      (use assms(5) in \<open>simp_all add: uniques_hold_def im_remove_row_frame(1)\<close>)
  then obtain m' where m': "im_insert_row table (row_values r) ?names i ?m1 = (Inr (), m')"
    "manager_agrees m' table ?names (?R(i \<mapsto> row_values r))" by auto
  have "tables_agree C cat (s2, m')"
    by (rule tables_agree_change [OF ag1 assms(3) s2(3)])
      (use m' same in \<open>simp_all add: table_vals_def im_insert_row_frame(2) im_remove_row_frame(2)\<close>)
  moreover have "tables_of s2 = tables_of s" using s2(3) s1(2) by (simp add: st_changed_def st_same_def)
  ultimately show ?thesis
    using s1(1) s2(1,2) m' assms(3) table_vals_changed [OF s2(3)] V1 im_insert_row_frame(1) [OF m'(1)] same
      im_row_dom(1) [OF m'(1)]
    by (auto simp: sbind_def on_fst_def on_snd_def undo_done_def get_table_def table_vals_def fun_eq_iff
        im_remove_row_frame(1) im_row_dom(2))
qed

lemma apply_undo_law:
  assumes "tables_agree C cat p" "mem_only (fst p)" "map_of (cat_tables cat) (undo_table u) = Some schema"
    and "undo_fits u (table_vals C (fst p))"
    and "uniques_hold (snd p) (undo_table u) schema (undo_value u (table_vals C (fst p)) (undo_table u))"
  shows "\<exists>p'. apply_undo C cat u p = (Inr (), p') \<and> undo_done C cat u p p'"
proof (cases p)
  case (Pair s m)
  then show ?thesis using assms undo_insert undo_update undo_delete by (cases u) fastforce+
qed

text \<open>The undo log of a run, the last record first, leads from the current values back to the values
  \<open>V0\<close> at its start; every state in between satisfied the unique indexes.\<close>

fun undo_chain :: "catalog \<Rightarrow> index_manager \<Rightarrow> table_values \<Rightarrow> undo_record list \<Rightarrow> table_values \<Rightarrow> bool" where
  "undo_chain cat m V0 [] V \<longleftrightarrow> V = V0"
| "undo_chain cat m V0 (u # us) V \<longleftrightarrow> undo_fits u V
     \<and> (\<exists>schema. map_of (cat_tables cat) (undo_table u) = Some schema
          \<and> uniques_hold m (undo_table u) schema (undo_value u V (undo_table u)))
     \<and> undo_chain cat m V0 us (undo_value u V)"

lemma undo_chain_cong:
  assumes "index_shape m' = index_shape m"
  shows "undo_chain cat m' V0 us V = undo_chain cat m V0 us V"
  by (induction us arbitrary: V) (simp_all add: uniques_hold_cong [OF assms])

lemma undo_all:
  assumes "tables_agree C cat p" "mem_only (fst p)" "undo_chain cat (snd p) V0 us (table_vals C (fst p))"
  shows "\<exists>p'. sfold (\<lambda>u _. apply_undo C cat u) us () p = (Inr (), p') \<and> tables_agree C cat p'
    \<and> mem_only (fst p') \<and> table_vals C (fst p') = V0 \<and> index_shape (snd p') = index_shape (snd p)
    \<and> tables_of (fst p') = tables_of (fst p) \<and> dom (map_of (snd p')) = dom (map_of (snd p))"
  using assms
proof (induction us arbitrary: p)
  case Nil
  then show ?case by simp
next
  case (Cons u us)
  then obtain schema where u: "undo_fits u (table_vals C (fst p))"
    "map_of (cat_tables cat) (undo_table u) = Some schema"
    "uniques_hold (snd p) (undo_table u) schema (undo_value u (table_vals C (fst p)) (undo_table u))"
    "undo_chain cat (snd p) V0 us (undo_value u (table_vals C (fst p)))"
    by auto
  obtain p1 where p1: "apply_undo C cat u p = (Inr (), p1)" "undo_done C cat u p p1"
    using apply_undo_law [OF Cons.prems(1,2) u(2,1,3)] by blast
  then have "undo_chain cat (snd p1) V0 us (table_vals C (fst p1))"
    using u(4) undo_chain_cong [of "snd p1" "snd p"] by (simp add: undo_done_def)
  with Cons.IH [of p1] p1 show ?case by (auto simp: undo_done_def sbind_def)
qed

end
