(* ===== verification/Planner.thy ===== *)
theory Planner
  imports Sql Index
begin

text \<open>
  \<open>moodeng-core/src/planner.rs\<close>: the choice between a full scan and an index lookup for a query.
\<close>

datatype scan_plan = FullScan | IndexLookup string "db_value list"

fun show_scan_plan :: "scan_plan \<Rightarrow> string" where
  "show_scan_plan FullScan = ''Seq Scan''"
| "show_scan_plan (IndexLookup index_name _) = ''Index Scan using '' @ index_name"

fun extract_equality :: "expr \<Rightarrow> (string \<times> db_value) option" where
  "extract_equality (BinaryOp left op right) =
     (if op = Eq then
        (case (left, right) of
           (Identifier col, ValueE v) \<Rightarrow> Some (col, from_sql_literal v)
         | (ValueE v, Identifier col) \<Rightarrow> Some (col, from_sql_literal v)
         | _ \<Rightarrow> None)
      else None)"
| "extract_equality (Nested inner) = extract_equality inner"
| "extract_equality _ = None"

definition plan_scan :: "string \<Rightarrow> expr option \<Rightarrow> index_manager \<Rightarrow> string list \<Rightarrow> scan_plan" where
  "plan_scan table where_clause indexes col_names =
     (case where_clause of
        None \<Rightarrow> FullScan
      | Some e \<Rightarrow>
          (case extract_equality e of
             None \<Rightarrow> FullScan
           | Some (col, val) \<Rightarrow>
               if list_all (\<lambda>c. \<not> eq_ignore_ascii_case c col) col_names then FullScan
               else (case find_index_for_column indexes table col of
                       Some index_name \<Rightarrow> IndexLookup index_name [val]
                     | None \<Rightarrow> FullScan)))"

subsection \<open>An index lookup finds every match\<close>

fun is_float :: "db_value \<Rightarrow> bool" where
  "is_float (Float4 _) = True"
| "is_float (Float8 _) = True"
| "is_float _ = False"

lemma bare_name_id: "CHR ''.'' \<notin> set col \<Longrightarrow> bare_name col = col"
proof -
  assume "CHR ''.'' \<notin> set col"
  then have "takeWhile (\<lambda>c. c \<noteq> CHR ''.'') (rev col) = rev col" by (auto simp: takeWhile_eq_all_conv)
  then show ?thesis unfolding bare_name_def by (simp only: rev_rev_ident)
qed

lemma values_equal_comparable:
  assumes "values_equal v w" "v \<noteq> Null" "\<not> is_float w"
  shows "comparable v = comparable w"
  using assms by (cases v; cases w) (auto simp: values_equal_def)

lemma values_equal_sym: "\<not> is_float w \<Longrightarrow> values_equal v w = values_equal w v"
  by (cases v; cases w) (auto simp: values_equal_def)

text \<open>What the extracted equality says about the condition.\<close>

lemma extract_equality_eval:
  assumes "extract_equality w = Some (col, val)" "CHR ''.'' \<notin> set col" "\<not> is_float val"
    and "position (\<lambda>c. eq_ignore_ascii_case c col) names = Some i"
  shows "eval_expr w vals names = Inr (eval_binary (get_or Null vals i) Eq val)"
  using assms
proof (induction w)
  case (BinaryOp l op r)
  then have op: "op = Eq" by (auto split: if_splits)
  have col: "column_value col vals names = Inr (get_or Null vals i)"
    using BinaryOp.prems(4) by (simp add: column_value_def bare_name_id [OF BinaryOp.prems(2)])
  from BinaryOp.prems(1) op consider v where "l = Identifier col" "r = ValueE v" "val = from_sql_literal v"
    | v where "l = ValueE v" "r = Identifier col" "val = from_sql_literal v"
    by (auto split: expr.splits)
  then show ?case
  proof cases
    case 1
    then show ?thesis using col op by (simp add: eval_expr_def)
  next
    case 2
    then have "eval_expr (BinaryOp l op r) vals names = Inr (eval_binary val Eq (get_or Null vals i))"
      using col op by (simp add: eval_expr_def)
    then show ?thesis using values_equal_sym [OF BinaryOp.prems(3)] by (simp add: eval_binary_def)
  qed
next
  case (Nested w)
  then show ?case by (simp add: eval_expr_def)
qed simp_all

lemma eq_where_true:
  assumes "eval_expr w vals names = Inr (eval_binary v Eq val)"
  shows "eval_where w vals names = Inr (v \<noteq> Null \<and> val \<noteq> Null \<and> values_equal v val)"
  using assms by (simp add: eval_where_def eval_where_with_excluded_def eval_expr_def eval_binary_def)

lemma found_index:
  assumes "find_index_for_column m table col = Some n" "manager_agrees m table names R"
  obtains idx ic where "get_index m table n = Some idx" "index_agrees names R n idx"
    "idx_columns idx = [ic]" "eq_ignore_ascii_case ic col"
proof -
  from assms(1) obtain t where t: "map_of m table = Some t"
    "map_option fst (find (\<lambda>(_, idx). length (idx_columns idx) = 1
       \<and> eq_ignore_ascii_case (idx_columns idx ! 0) col) t) = Some n"
    by (auto simp: find_index_for_column_def split: option.splits)
  then obtain idx where idx: "(n, idx) \<in> set t" "length (idx_columns idx) = 1"
    "eq_ignore_ascii_case (idx_columns idx ! 0) col"
    by (auto simp: find_Some_iff) (metis nth_mem)
  have "indexes_agree names R t" using assms(2) t(1) by (simp add: manager_agrees_def)
  then have "index_agrees names R n idx" "map_of t n = Some idx"
    using idx(1) by (auto simp: indexes_agree_def amap_inv_def)
  moreover obtain ic where "idx_columns idx = [ic]" using idx(2) by (auto simp: length_Suc_conv)
  ultimately show thesis using that idx(3) t(1) by (simp add: get_index_def)
qed

lemma plan_index:
  assumes "plan_scan table w m names = IndexLookup n key"
  obtains e col val i where "w = Some e" "extract_equality e = Some (col, val)" "key = [val]"
    "find_index_for_column m table col = Some n"
    "position (\<lambda>c. eq_ignore_ascii_case c col) names = Some i"
proof -
  from assms obtain e col val where 1: "w = Some e" "extract_equality e = Some (col, val)" "key = [val]"
    "find_index_for_column m table col = Some n" "\<not> list_all (\<lambda>c. \<not> eq_ignore_ascii_case c col) names"
    by (auto simp: plan_scan_def split: option.splits if_splits)
  then have "position (\<lambda>c. eq_ignore_ascii_case c col) names \<noteq> None" by (simp add: list_all_iff)
  with 1 that show thesis by blast
qed

text \<open>A plan that compares a column whose name has no dot with a literal that is not a float.\<close>

definition exact_plan :: "expr option \<Rightarrow> bool" where
  "exact_plan w = (case w of None \<Rightarrow> True | Some e \<Rightarrow>
     (case extract_equality e of None \<Rightarrow> True
      | Some (col, val) \<Rightarrow> CHR ''.'' \<notin> set col \<and> \<not> is_float val))"

lemma index_lookup_complete:
  assumes "plan_scan table (Some e) m names = IndexLookup n key" "manager_agrees m table names R"
    and "exact_plan (Some e)"
  shows "distinct (im_lookup m table n key)"
    and "i \<in> set (im_lookup m table n key) \<Longrightarrow> R i \<noteq> None"
    and "R i = Some vals \<Longrightarrow> eval_where e vals names = Inr True \<Longrightarrow> i \<in> set (im_lookup m table n key)"
    and "\<exists>b. eval_where e vals names = Inr b"
proof -
  obtain col val k where p: "extract_equality e = Some (col, val)" "key = [val]"
    "find_index_for_column m table col = Some n" "position (\<lambda>c. eq_ignore_ascii_case c col) names = Some k"
    using plan_index [OF assms(1)] by (metis option.inject)
  have ok: "CHR ''.'' \<notin> set col" "\<not> is_float val" using assms(3) p(1) by (simp_all add: exact_plan_def)
  obtain idx ic where idx: "get_index m table n = Some idx" "index_agrees names R n idx"
    "idx_columns idx = [ic]" "eq_ignore_ascii_case ic col"
    by (rule found_index [OF p(3) assms(2)])
  have look: "im_lookup m table n key = index_lookup idx [val]" using idx(1) p(2) by (simp add: im_lookup_def)
  have cov: "covers (index_lookup idx) index_key (row_key names idx) R"
    using idx(2) by (simp add: index_agrees_def)
  have "position (\<lambda>c. eq_ignore_ascii_case c ic) names = Some k"
    using p(4) idx(4) by (simp add: eq_ignore_ascii_case_def)
  then have key: "row_key names idx vals = [get_or Null vals k]" for vals
    using idx(3) by (simp add: row_key_def key_of_row_def)
  note ev = eq_where_true [OF extract_equality_eval [OF p(1) ok p(4)]]
  show "distinct (im_lookup m table n key)" using cov look by (simp add: covers_def)
  show "i \<in> set (im_lookup m table n key) \<Longrightarrow> R i \<noteq> None" using cov look by (auto simp: covers_def)
  show "\<exists>b. eval_where e vals names = Inr b" using ev by blast
  assume R: "R i = Some vals" and t: "eval_where e vals names = Inr True"
  have "comparable (get_or Null vals k) = comparable val"
    using t ev [of vals] values_equal_comparable [OF _ _ ok(2)] by simp
  then show "i \<in> set (im_lookup m table n key)"
    using cov R look key by (auto simp: covers_def index_key_def)
qed

text \<open>An index lookup chosen by the planner misses no row. When the indexes agree with the table and
  the condition is an equality with a literal that is not a float, the lookup returns rows of the table,
  each once, and among them every row on which the condition holds.\<close>

theorem planned_lookup_misses_nothing:
  assumes "plan_scan table (Some e) m names = IndexLookup n key" and "manager_agrees m table names R"
    and "exact_plan (Some e)"
  shows "distinct (im_lookup m table n key) \<and> (\<forall>i \<in> set (im_lookup m table n key). R i \<noteq> None)
    \<and> (\<forall>i vals. R i = Some vals \<and> eval_where e vals names = Inr True \<longrightarrow> i \<in> set (im_lookup m table n key))"
  using index_lookup_complete [OF assms] by blast

theorem planned_lookup_misses_nothing_witness:
  "1 \<in> set (im_lookup [(''t'', [(''i'', example_index)])] ''t'' ''i'' [Int8 5])"
proof -
  let ?e = "BinaryOp (Identifier ''A'') Eq (ValueE (Number ''5'' False))"
  have lit: "from_sql_literal (Number ''5'' False) = Int8 5" by code_simp
  have eqA: "eq_ignore_ascii_case ''a'' ''A''" by code_simp
  have "plan_scan ''t'' (Some ?e) [(''t'', [(''i'', example_index)])] [''a''] = IndexLookup ''i'' [Int8 5]"
    using eqA by (simp add: plan_scan_def lit find_index_for_column_def example_index_def
        del: from_sql_literal.simps)
  moreover have "exact_plan (Some ?e)" by (simp add: exact_plan_def lit del: from_sql_literal.simps)
  moreover have "eval_where ?e [Int8 5] [''a''] = Inr True" by code_simp
  ultimately show ?thesis
    using planned_lookup_misses_nothing [OF _ example_manager, of ?e "''i''" "[Int8 5]"]
    by (auto simp: example_rows_def)
qed

text \<open>For floats the two differ: a scan takes numbers that are closer than the machine epsilon for equal, an index
  compares their bits. Zero and the smallest number above it are equal for a scan and different keys for an
  index, so the answer to a condition on floats depends on the plan.\<close>

theorem float_equality_depends_on_plan:
  "values_equal (Float8 0) (Float8 1) \<and> index_key [Float8 0] \<noteq> index_key [Float8 1]"
proof -
  have "f64_neg 1 = 0x8000000000000001" by (simp add: f64_neg_def)
  moreover have "f64_int 0x8000000000000001 = - 1"
    by (simp add: f64_int_def f64_neg_sign_def f64_units_def f64_mag_def Let_def)
  moreover have "f64_int 0 = 0" by (simp add: f64_int_def f64_neg_sign_def f64_units_def f64_mag_def Let_def)
  moreover have "f64_round True 1 1 = 0x8000000000000001"
    by (simp add: f64_round_def fp_round_def f64_pack_def bitlen.simps f64_inf_mag_def Let_def)
  ultimately have "f64_sub 0 1 = 0x8000000000000001"
    by (simp add: f64_sub_def f64_add_def f64_is_nan_def f64_is_inf_def f64_mag_def f64_inf_mag_def Let_def)
  then have "f64_abs (f64_sub 0 1) = 1" by (simp add: f64_abs_def)
  moreover have "f64_less 1 f64_epsilon"
    by (simp add: f64_less_def f64_partial_cmp_def f64_epsilon_def f64_is_nan_def f64_mag_def f64_inf_mag_def
        f64_int_def f64_neg_sign_def f64_units_def cmp_of_def Let_def)
  ultimately show ?thesis by (simp add: values_equal_def index_key_def)
qed

end
