(* ===== verification/Executor.thy ===== *)
theory Executor
  imports Transaction Planner Query_Util
begin

text \<open>
  \<open>moodeng-core/src/executor.rs\<close>: the execution of statements on the catalog, the storage engine, the
  indexes and the session. One statement runs at a time; the locks of \<open>lock.rs\<close>, which order statements
  of different sessions, have no effect on a single run and are left out.
\<close>

subsection \<open>State\<close>

record exec_state =
  ex_catalog :: catalog
  ex_storage :: storage
  ex_indexes :: index_manager
  ex_active_write_txns :: u64
  ex_session :: session

abbreviation ex_transaction :: "exec_state \<Rightarrow> transaction" where
  "ex_transaction s \<equiv> se_transaction (ex_session s)"

definition on_catalog :: "(moodeng_error, catalog, 'a) op \<Rightarrow> (moodeng_error, exec_state, 'a) op" where
  "on_catalog f s = (case f (ex_catalog s) of (r, c) \<Rightarrow> (r, s\<lparr>ex_catalog := c\<rparr>))"

definition on_storage :: "(moodeng_error, storage, 'a) op \<Rightarrow> (moodeng_error, exec_state, 'a) op" where
  "on_storage f s = (case f (ex_storage s) of (r, st) \<Rightarrow> (r, s\<lparr>ex_storage := st\<rparr>))"

definition on_indexes :: "(moodeng_error, index_manager, 'a) op \<Rightarrow> (moodeng_error, exec_state, 'a) op" where
  "on_indexes f s = (case f (ex_indexes s) of (r, m) \<Rightarrow> (r, s\<lparr>ex_indexes := m\<rparr>))"

definition on_tables :: "(moodeng_error, storage \<times> index_manager, 'a) op \<Rightarrow>
    (moodeng_error, exec_state, 'a) op" where
  "on_tables f s =
     (case f (ex_storage s, ex_indexes s) of (r, (st, m)) \<Rightarrow> (r, s\<lparr>ex_storage := st, ex_indexes := m\<rparr>))"

definition on_txn :: "(moodeng_error, transaction \<times> wal, 'a) op \<Rightarrow> (moodeng_error, exec_state, 'a) op" where
  "on_txn f s =
     (case f (ex_transaction s, st_wal (ex_storage s)) of
        (r, (t, w)) \<Rightarrow> (r, s\<lparr>ex_session := (ex_session s)\<lparr>se_transaction := t\<rparr>,
                            ex_storage := (ex_storage s)\<lparr>st_wal := w\<rparr>\<rparr>))"

definition set_auto_commit :: "bool \<Rightarrow> exec_state \<Rightarrow> exec_state" where
  "set_auto_commit b s = s\<lparr>ex_session := (ex_session s)\<lparr>se_auto_commit := b\<rparr>\<rparr>"

definition track_write_txn_start :: "exec_state \<Rightarrow> exec_state" where
  "track_write_txn_start s = s\<lparr>ex_active_write_txns := ex_active_write_txns s + 1\<rparr>"

definition track_write_txn_end :: "exec_state \<Rightarrow> exec_state" where
  "track_write_txn_end s = s\<lparr>ex_active_write_txns := ex_active_write_txns s - 1\<rparr>"

text \<open>The guard in front of every undo record.\<close>

definition record_undo :: "undo_record \<Rightarrow> exec_state \<Rightarrow> exec_state" where
  "record_undo u s =
     (if is_active (ex_transaction s) \<and> \<not> se_auto_commit (ex_session s)
      then s\<lparr>ex_session := (ex_session s)\<lparr>se_transaction := txn_record u (ex_transaction s)\<rparr>\<rparr>
      else s)"

subsection \<open>Transactions\<close>

definition ex_begin :: "storage_codecs \<Rightarrow> (moodeng_error, exec_state, query_result) op" where
  "ex_begin C s =
     (if is_active (ex_transaction s) then (Inl (Execution ''transaction already active''), s)
      else sbind (smodify (set_auto_commit False)) (\<lambda>_.
           sbind (on_txn (txn_begin (sc_wal C))) (\<lambda>_.
           sbind (smodify track_write_txn_start) (\<lambda>_.
             sret (qr_modified 0 ''BEGIN'')))) s)"

definition ex_commit :: "storage_codecs \<Rightarrow> (moodeng_error, exec_state, query_result) op" where
  "ex_commit C s =
     (if \<not> is_active (ex_transaction s) then (Inl (Execution ''no active transaction''), s)
      else sbind (smodify (set_auto_commit False)) (\<lambda>_.
           sbind (on_txn (txn_commit (sc_wal C))) (\<lambda>_.
           sbind (smodify track_write_txn_end) (\<lambda>_.
             sret (qr_modified 0 ''COMMIT'')))) s)"

definition ex_rollback :: "storage_codecs \<Rightarrow> (moodeng_error, exec_state, query_result) op" where
  "ex_rollback C s =
     (if \<not> is_active (ex_transaction s) then (Inl (Execution ''no active transaction''), s)
      else sbind (smodify (set_auto_commit False)) (\<lambda>_.
           sbind (on_txn (txn_rollback (sc_wal C))) (\<lambda>records.
           sbind (on_tables (sfold (\<lambda>u _. apply_undo C (ex_catalog s) u) records ())) (\<lambda>_.
           sbind (smodify track_write_txn_end) (\<lambda>_.
             sret (qr_modified 0 ''ROLLBACK''))))) s)"

definition begin_write_txn :: "storage_codecs \<Rightarrow> (moodeng_error, exec_state, u64) op" where
  "begin_write_txn C s =
     (case current_txn_id (ex_transaction s) of
        Some txn_id \<Rightarrow> (Inr txn_id, s)
      | None \<Rightarrow>
          sbind (on_txn (txn_begin (sc_wal C))) (\<lambda>_.
          sbind (smodify (set_auto_commit True)) (\<lambda>_.
          sbind (smodify track_write_txn_start) (\<lambda>_.
            sgets (\<lambda>s. the (current_txn_id (ex_transaction s)))))) s)"

definition finish_auto_commit_if_needed :: "storage_codecs \<Rightarrow> (moodeng_error, exec_state, unit) op" where
  "finish_auto_commit_if_needed C s =
     (if se_auto_commit (ex_session s)
      then sbind (on_txn (txn_commit (sc_wal C))) (\<lambda>_.
           sbind (smodify (set_auto_commit False)) (\<lambda>_.
             smodify track_write_txn_end)) s
      else (Inr (), s))"

subsection \<open>Tables\<close>

definition mark_primary_key :: "string list \<Rightarrow> column_def \<Rightarrow> column_def" where
  "mark_primary_key pk_cols col =
     (if list_ex (\<lambda>p. eq_ignore_ascii_case p (col_name col)) pk_cols
      then col\<lparr>col_primary_key := True, col_nullable := False\<rparr> else col)"

definition pk_names :: "column_def list \<Rightarrow> string list" where
  "pk_names columns = map col_name (filter col_primary_key columns)"

definition create_primary_key_index :: "string \<Rightarrow> column_def list \<Rightarrow> (moodeng_error, exec_state, unit) op" where
  "create_primary_key_index table columns =
     (let pk_cols = pk_names columns; index_name = table @ ''_pkey'' in
      if pk_cols = [] then sret ()
      else sbind (on_indexes (im_create_index table (index_new index_name pk_cols True))) (\<lambda>_.
           on_catalog (add_index table \<lparr>im_name = index_name, im_columns = pk_cols, im_unique = True\<rparr>)))"

definition create_table :: "storage_codecs \<Rightarrow> object_name \<Rightarrow> sql_column_def list \<Rightarrow> table_constraint list \<Rightarrow>
    (moodeng_error, exec_state, query_result) op" where
  "create_table C name columns constraints =
     (let table = extract_table_name name; pk_cols = extract_pk_from_constraints constraints in
      sbind (slift (rmapM sql_column_to_def columns)) (\<lambda>defs.
      let col_defs = map (mark_primary_key pk_cols) defs in
      sbind (on_catalog (cat_create_table table col_defs)) (\<lambda>_.
      sbind (on_storage (ensure_table C table)) (\<lambda>_.
      sbind (create_primary_key_index table col_defs) (\<lambda>_.
        sret (qr_ddl (''CREATE TABLE '' @ table)))))))"

definition null_column :: "db_value list \<Rightarrow> nat \<times> column_def \<Rightarrow> bool" where
  "null_column vals c \<longleftrightarrow> \<not> col_nullable (snd c) \<and> is_null (get_or Null vals (fst c))"

definition validate_row :: "table_schema \<Rightarrow> db_value list \<Rightarrow> unit res" where
  "validate_row schema rvals =
     (case find (null_column rvals) (enumerate 0 (ts_columns schema)) of
        None \<Rightarrow> Inr ()
      | Some c \<Rightarrow> Inl (Execution (''null value in column '' @ [CHR 0x27] @ col_name (snd c) @ [CHR 0x27]
                    @ '' violates not-null constraint'')))"

definition drop_table :: "string \<Rightarrow> (moodeng_error, exec_state, query_result) op" where
  "drop_table table =
     sbind (on_catalog (cat_drop_table table)) (\<lambda>_.
     sbind (on_storage (smodify (st_drop_table table))) (\<lambda>_.
     sbind (on_indexes (smodify (im_drop_table table))) (\<lambda>_.
       sret (qr_ddl (''DROP TABLE '' @ table)))))"

subsection \<open>INSERT\<close>

definition coerce_row :: "table_schema \<Rightarrow> db_value list \<Rightarrow> db_value list res" where
  "coerce_row schema vals =
     rmapM (\<lambda>(i, col). coerce_to (get_or Null vals i) (col_type col)) (enumerate 0 (ts_columns schema))"

fun resolve_conflict_columns :: "table_schema \<Rightarrow> conflict_target option \<Rightarrow> string list res" where
  "resolve_conflict_columns schema None =
     (let pk = pk_names (ts_columns schema) in
      if pk = [] then Inl (Execution ''ON CONFLICT requires a PRIMARY KEY or explicit conflict target'')
      else Inr pk)"
| "resolve_conflict_columns schema (Some (TargetColumns idents)) = Inr idents"
| "resolve_conflict_columns schema (Some (OnConstraint _)) =
     Inl (Execution ''ON CONFLICT ON CONSTRAINT is not supported'')"

definition find_unique_index_for_columns :: "table_schema \<Rightarrow> string list \<Rightarrow> string option" where
  "find_unique_index_for_columns schema cols =
     map_option im_name (find (\<lambda>idx. im_unique idx \<and> length (im_columns idx) = length cols
        \<and> list_all (\<lambda>(a, b). eq_ignore_ascii_case a b) (zip (im_columns idx) cols)) (ts_indexes schema))"

definition find_conflict_row :: "index_manager \<Rightarrow> table_schema \<Rightarrow> string \<Rightarrow> on_conflict \<Rightarrow> db_value list \<Rightarrow>
    u64 option res" where
  "find_conflict_row m schema table conflict rvals =
     rbind (resolve_conflict_columns schema (oc_target conflict)) (\<lambda>conflict_cols.
       case find_unique_index_for_columns schema conflict_cols of
         None \<Rightarrow> Inl (Execution (''there is no unique index matching ON CONFLICT specification on ''
                    @ [CHR 0x27] @ join_with '', '' conflict_cols @ [CHR 0x27]))
       | Some index_name \<Rightarrow>
           Inr (case im_lookup m table index_name (key_of_row conflict_cols (schema_names schema) rvals) of
                  [] \<Rightarrow> None | i # _ \<Rightarrow> Some i))"

definition set_value :: "nat \<Rightarrow> db_value \<Rightarrow> db_value list \<Rightarrow> db_value list res" where
  "set_value idx v vals =
     (if idx < length vals then Inr (vals[idx := v]) else Inl (OtherError ''panic: index out of bounds''))"

text \<open>The assignments run in order, each on the values the ones before it left.\<close>

fun apply_assignments :: "table_schema \<Rightarrow> db_value list option \<Rightarrow> assignment list \<Rightarrow> db_value list \<Rightarrow>
    db_value list res" where
  "apply_assignments schema excluded [] vals = Inr vals"
| "apply_assignments schema excluded (assign # assigns) vals =
     rbind (assignment_value_with_excluded assign vals (schema_names schema) excluded) (\<lambda>(col, val).
     rbind (case column_index schema col of
              None \<Rightarrow> Inr vals
            | Some idx \<Rightarrow> rbind (coerce_to val (col_type (ts_columns schema ! idx))) (\<lambda>v. set_value idx v vals))
       (apply_assignments schema excluded assigns))"

text \<open>The change of one row, shared by \<open>update\<close> and \<open>apply_conflict_update\<close>: undo record, removal from the
  indexes, assignments, validation, storage, entry in the indexes.\<close>

definition change_row :: "storage_codecs \<Rightarrow> string \<Rightarrow> table_schema \<Rightarrow> assignment list \<Rightarrow> db_value list option \<Rightarrow>
    u64 \<Rightarrow> u64 \<Rightarrow> row \<Rightarrow> (moodeng_error, exec_state, unit) op" where
  "change_row C table schema assignments excluded txn_id i r =
     sbind (smodify (record_undo (UUpdate table i r))) (\<lambda>_.
     sbind (on_indexes (smodify (im_remove_row table (row_values r) (schema_names schema) i))) (\<lambda>_.
     sbind (slift (apply_assignments schema excluded assignments (row_values r))) (\<lambda>vals.
     sbind (slift (validate_row schema vals)) (\<lambda>_.
     sbind (on_storage (st_update C table i (r\<lparr>row_values := vals\<rparr>) txn_id (row_version r))) (\<lambda>_.
       on_indexes (im_insert_row table vals (schema_names schema) i))))))"

definition apply_conflict_update :: "storage_codecs \<Rightarrow> string \<Rightarrow> table_schema \<Rightarrow> u64 \<Rightarrow> db_value list \<Rightarrow>
    assignment list \<Rightarrow> expr option \<Rightarrow> u64 \<Rightarrow> (moodeng_error, exec_state, unit) op" where
  "apply_conflict_update C table schema i proposed assignments selection txn_id =
     sbind (on_storage (st_get C table i)) (\<lambda>found.
       case found of
         None \<Rightarrow> sfail (Execution ''conflict row vanished'')
       | Some existing \<Rightarrow>
           sbind (slift (case selection of
                    None \<Rightarrow> Inr True
                  | Some w \<Rightarrow> eval_where_with_excluded w (row_values existing) (schema_names schema) (Some proposed)))
             (\<lambda>go. if go then change_row C table schema assignments (Some proposed) txn_id i existing
                   else sret ()))"

definition insert_new_row :: "storage_codecs \<Rightarrow> string \<Rightarrow> table_schema \<Rightarrow> db_value list \<Rightarrow> u64 \<Rightarrow>
    (moodeng_error, exec_state, unit) op" where
  "insert_new_row C table schema rvals txn_id =
     sbind (on_storage (st_insert C table (row_new rvals) txn_id)) (\<lambda>row_id.
     sbind (on_indexes (im_insert_row table rvals (schema_names schema) row_id)) (\<lambda>_.
       smodify (record_undo (UInsert table row_id))))"

text \<open>One row of an INSERT; the result is what it adds to the count.\<close>

definition insert_row :: "storage_codecs \<Rightarrow> string \<Rightarrow> table_schema \<Rightarrow> on_conflict option \<Rightarrow> u64 \<Rightarrow> db_value list \<Rightarrow>
    (moodeng_error, exec_state, u64) op" where
  "insert_row C table schema on_conflict txn_id vals =
     sbind (slift (coerce_row schema vals)) (\<lambda>rvals.
     sbind (slift (validate_row schema rvals)) (\<lambda>_.
     sbind (case on_conflict of
              None \<Rightarrow> sret None
            | Some conflict \<Rightarrow> (\<lambda>s. (find_conflict_row (ex_indexes s) schema table conflict rvals, s)))
       (\<lambda>existing.
       case (existing, on_conflict) of
         (Some i, Some conflict) \<Rightarrow>
           (case oc_action conflict of
              DoNothing \<Rightarrow> sret 0
            | DoUpdate assignments selection \<Rightarrow>
                sbind (apply_conflict_update C table schema i rvals assignments selection txn_id)
                  (\<lambda>_. sret 1))
       | _ \<Rightarrow> sbind (insert_new_row C table schema rvals txn_id) (\<lambda>_. sret 1))))"

fun conflict_clause :: "on_insert option \<Rightarrow> on_conflict option res" where
  "conflict_clause None = Inr None"
| "conflict_clause (Some (OnConflict c)) = Inr (Some c)"
| "conflict_clause (Some DuplicateKeyUpdate) =
     Inl (Execution ''ON DUPLICATE KEY UPDATE is not supported; use ON CONFLICT'')"
| "conflict_clause (Some (OtherOnInsert _)) = Inl (Execution ''unsupported INSERT conflict clause'')"

definition ex_insert :: "storage_codecs \<Rightarrow> insert_stmt \<Rightarrow> query \<Rightarrow> (moodeng_error, exec_state, query_result) op" where
  "ex_insert C ins source =
     (let table = extract_table_name (ins_table ins) in
      sbind (\<lambda>s. (get_table (ex_catalog s) table, s)) (\<lambda>schema.
      sbind (slift (values_from_insert source)) (\<lambda>rows.
      sbind (slift (conflict_clause (ins_on ins))) (\<lambda>on_conflict.
      sbind (begin_write_txn C) (\<lambda>txn_id.
      sbind (sfold (\<lambda>vals count. sbind (insert_row C table schema on_conflict txn_id vals)
               (\<lambda>n. sret (count + n))) rows 0) (\<lambda>count.
      sbind (finish_auto_commit_if_needed C) (\<lambda>_.
        sret (qr_modified count (''INSERT 0 '' @ show_nat (unat count))))))))))"

subsection \<open>SELECT\<close>

fun table_factor_name :: "table_factor \<Rightarrow> string" where
  "table_factor_name (Table name) = extract_table_name name"
| "table_factor_name (OtherFactor _) = []"

fun group_by_exprs :: "group_by_expr \<Rightarrow> expr list" where
  "group_by_exprs GroupByAll = []"
| "group_by_exprs (GroupByExprs exprs) = exprs"

definition project_rows :: "select_item list \<Rightarrow> row list \<Rightarrow> string list \<Rightarrow> bool \<Rightarrow> row list res" where
  "project_rows select_items rows col_names wildcard =
     rmapM (\<lambda>r. rbind (if wildcard then Inr (row_values r)
                       else rmapM (\<lambda>item. case item_expr item of
                                     Some e \<Rightarrow> eval_expr e (row_values r) col_names
                                   | None \<Rightarrow> Inr Null) select_items)
                 (\<lambda>projected. Inr (row_new projected))) rows"

definition finalize_select :: "sql_library \<Rightarrow> query \<Rightarrow> select \<Rightarrow> string list \<Rightarrow> row list \<Rightarrow> string list \<Rightarrow>
    query_result res" where
  "finalize_select L q sel output_cols result_rows col_names =
     rbind (if group_by_exprs (sel_group_by sel) = [] \<and> \<not> is_aggregate_query (sel_projection sel)
            then Inr (output_cols, result_rows)
            else rbind (apply_group_by (lib_show_expr L) (sel_projection sel) (group_by_exprs (sel_group_by sel))
                          result_rows col_names) (\<lambda>(gb_cols, gb_rows).
                 Inr (if gb_cols \<noteq> [] then gb_cols else output_cols, gb_rows)))
       (\<lambda>(output_cols, rows).
     let rows = (case q_order_by q of None \<Rightarrow> rows | Some exprs \<Rightarrow> sort_rows rows exprs col_names) in
     rbind (apply_limit_offset rows (q_limit q) (q_offset q) col_names) (\<lambda>rows.
     rbind (project_rows (sel_projection sel) rows col_names (has_wildcard (sel_projection sel))) (\<lambda>rows.
       Inr (qr_select output_cols rows))))"

text \<open>The rows a condition keeps; the first error stops the loop.\<close>

fun filter_rows :: "expr option \<Rightarrow> string list \<Rightarrow> row list \<Rightarrow> row list res" where
  "filter_rows w col_names [] = Inr []"
| "filter_rows w col_names (r # rows) =
     rbind (case w of None \<Rightarrow> Inr True | Some e \<Rightarrow> eval_where e (row_values r) col_names) (\<lambda>keep.
     rbind (filter_rows w col_names rows) (\<lambda>rest. Inr (if keep then r # rest else rest)))"

definition run_plan :: "storage_codecs \<Rightarrow> string \<Rightarrow> scan_plan \<Rightarrow> (moodeng_error, exec_state, (u64 \<times> row) list) op" where
  "run_plan C table plan =
     (case plan of
        FullScan \<Rightarrow> on_storage (st_scan C table)
      | IndexLookup index_name key_values \<Rightarrow>
          (\<lambda>s. on_storage (fetch_by_ids C table (im_lookup (ex_indexes s) table index_name key_values)) s))"

fun parse_inner_join :: "join \<Rightarrow> (string \<times> expr) res" where
  "parse_inner_join j =
     (case jn_operator j of
        Inner (On e) \<Rightarrow> Inr (table_factor_name (jn_relation j), e)
      | Inner NoConstraint \<Rightarrow> Inl (Parse ''JOIN requires ON clause'')
      | CrossJoin \<Rightarrow> Inl (Parse ''JOIN requires ON clause'')
      | _ \<Rightarrow> Inl (Parse ''only INNER JOIN supported''))"

definition qualified_columns :: "string \<Rightarrow> table_schema \<Rightarrow> string list" where
  "qualified_columns table schema = map (\<lambda>c. table @ ''.'' @ col_name c) (ts_columns schema)"

definition join_rows :: "expr \<Rightarrow> string list \<Rightarrow> row list \<Rightarrow> (u64 \<times> row) list \<Rightarrow> row list res" where
  "join_rows on_expr combined_cols left right =
     filter_rows (Some on_expr) combined_cols
       (concat (map (\<lambda>l. map (\<lambda>(_, r). row_new (row_values l @ row_values r)) right) left))"

definition join_step :: "storage_codecs \<Rightarrow> join \<Rightarrow> string list \<times> row list \<Rightarrow>
    (moodeng_error, exec_state, string list \<times> row list) op" where
  "join_step C j acc =
     sbind (slift (parse_inner_join j)) (\<lambda>(right_table, on_expr).
     sbind (\<lambda>s. (get_table (ex_catalog s) right_table, s)) (\<lambda>right_schema.
     sbind (on_storage (st_scan C right_table)) (\<lambda>right_rows.
       let combined_cols = fst acc @ qualified_columns right_table right_schema in
       sbind (slift (join_rows on_expr combined_cols (snd acc) right_rows)) (\<lambda>rows.
         sret (combined_cols, rows)))))"

definition select_join :: "storage_codecs \<Rightarrow> sql_library \<Rightarrow> query \<Rightarrow> select \<Rightarrow> table_with_joins \<Rightarrow>
    (moodeng_error, exec_state, query_result) op" where
  "select_join C L q sel from_clause =
     (let left_table = table_factor_name (twj_relation from_clause) in
      sbind (\<lambda>s. (get_table (ex_catalog s) left_table, s)) (\<lambda>left_schema.
      sbind (on_storage (st_scan C left_table)) (\<lambda>left_rows.
      sbind (sfold (join_step C) (twj_joins from_clause)
               (qualified_columns left_table left_schema, map (\<lambda>(_, r). row_new (row_values r)) left_rows))
        (\<lambda>(combined_cols, joined_rows).
      let output_cols = (if has_wildcard (sel_projection sel) then combined_cols
                         else select_items_to_columns (lib_show_expr L) (sel_projection sel)) in
      sbind (slift (filter_rows (sel_selection sel) combined_cols joined_rows)) (\<lambda>rows.
        slift (finalize_select L q sel output_cols rows combined_cols))))))"

definition ex_select :: "storage_codecs \<Rightarrow> sql_library \<Rightarrow> query \<Rightarrow> (moodeng_error, exec_state, query_result) op" where
  "ex_select C L q =
     (case q_body q of
        Select sel \<Rightarrow>
          (case sel_from sel of
             [] \<Rightarrow> sfail (Parse ''missing FROM'')
           | from_clause # _ \<Rightarrow>
               if twj_joins from_clause \<noteq> [] then select_join C L q sel from_clause
               else
                 (let table = table_factor_name (twj_relation from_clause) in
                  sbind (\<lambda>s. (get_table (ex_catalog s) table, s)) (\<lambda>schema.
                  let col_names = schema_names schema;
                      output_cols = (if has_wildcard (sel_projection sel) then col_names
                                     else select_items_to_columns (lib_show_expr L) (sel_projection sel)) in
                  sbind (\<lambda>s. run_plan C table (plan_scan table (sel_selection sel) (ex_indexes s) col_names) s)
                    (\<lambda>candidates.
                  sbind (slift (filter_rows (sel_selection sel) col_names (map snd candidates))) (\<lambda>rows.
                    slift (finalize_select L q sel output_cols rows col_names))))))
      | _ \<Rightarrow> sfail (Parse ''unsupported SELECT''))"

definition explain_lines :: "scan_plan \<Rightarrow> string \<Rightarrow> string list" where
  "explain_lines plan table =
     (show_scan_plan plan @ '' on '' @ table) #
     (case plan of
        IndexLookup _ (val # _) \<Rightarrow> [''  Index Cond: (= '' @ to_display_string val @ '')'']
      | _ \<Rightarrow> [])"

definition explain :: "statement \<Rightarrow> (moodeng_error, exec_state, query_result) op" where
  "explain stmt =
     (case stmt of
        Query q \<Rightarrow>
          (case q_body q of
             Select sel \<Rightarrow>
               (case sel_from sel of
                  [] \<Rightarrow> sfail (Execution ''EXPLAIN for JOIN not yet supported'')
                | f # _ \<Rightarrow>
                    if twj_joins f \<noteq> [] then sfail (Execution ''EXPLAIN for JOIN not yet supported'')
                    else
                      (let table = table_factor_name (twj_relation f) in
                       sbind (\<lambda>s. (get_table (ex_catalog s) table, s)) (\<lambda>schema.
                       sgets (\<lambda>s.
                         let plan = plan_scan table (sel_selection sel) (ex_indexes s) (schema_names schema)
                         in qr_select [''QUERY PLAN'']
                              [row_new [Text (join_with [CHR 0x0A] (explain_lines plan table))]]))))
           | _ \<Rightarrow> sfail (Parse ''EXPLAIN only supports simple SELECT''))
      | _ \<Rightarrow> sfail (Execution ''EXPLAIN only supports SELECT queries''))"

subsection \<open>UPDATE and DELETE\<close>

definition row_selected :: "expr option \<Rightarrow> table_schema \<Rightarrow> row \<Rightarrow> bool res" where
  "row_selected where_clause schema r =
     (case where_clause of None \<Rightarrow> Inr True | Some w \<Rightarrow> eval_where w (row_values r) (schema_names schema))"

definition update_row :: "storage_codecs \<Rightarrow> string \<Rightarrow> table_schema \<Rightarrow> assignment list \<Rightarrow> expr option \<Rightarrow> u64 \<Rightarrow>
    u64 \<times> row \<Rightarrow> u64 \<Rightarrow> (moodeng_error, exec_state, u64) op" where
  "update_row C table schema assignments where_clause txn_id e cnt =
     sbind (slift (row_selected where_clause schema (snd e))) (\<lambda>go.
       if go then sbind (change_row C table schema assignments None txn_id (fst e) (snd e)) (\<lambda>_. sret (cnt + 1))
       else sret cnt)"

definition ex_update :: "storage_codecs \<Rightarrow> string \<Rightarrow> assignment list \<Rightarrow> expr option \<Rightarrow>
    (moodeng_error, exec_state, query_result) op" where
  "ex_update C table assignments where_clause =
     sbind (\<lambda>s. (get_table (ex_catalog s) table, s)) (\<lambda>schema.
     sbind (on_storage (st_scan C table)) (\<lambda>all_rows.
     sbind (begin_write_txn C) (\<lambda>txn_id.
     sbind (sfold (update_row C table schema assignments where_clause txn_id) all_rows 0) (\<lambda>count.
     sbind (finish_auto_commit_if_needed C) (\<lambda>_.
       sret (qr_modified count (''UPDATE '' @ show_nat (unat count))))))))"

definition remove_row :: "storage_codecs \<Rightarrow> string \<Rightarrow> table_schema \<Rightarrow> u64 \<Rightarrow> u64 \<Rightarrow> row \<Rightarrow>
    (moodeng_error, exec_state, unit) op" where
  "remove_row C table schema txn_id i r =
     sbind (smodify (record_undo (UDelete table i r))) (\<lambda>_.
     sbind (on_indexes (smodify (im_remove_row table (row_values r) (schema_names schema) i))) (\<lambda>_.
     sbind (on_storage (st_delete C table i txn_id)) (\<lambda>_. sret ())))"

definition delete_row :: "storage_codecs \<Rightarrow> string \<Rightarrow> table_schema \<Rightarrow> expr option \<Rightarrow> u64 \<Rightarrow>
    u64 \<times> row \<Rightarrow> u64 \<Rightarrow> (moodeng_error, exec_state, u64) op" where
  "delete_row C table schema where_clause txn_id e cnt =
     sbind (slift (row_selected where_clause schema (snd e))) (\<lambda>go.
       if go then sbind (remove_row C table schema txn_id (fst e) (snd e)) (\<lambda>_. sret (cnt + 1))
       else sret cnt)"

definition ex_delete :: "storage_codecs \<Rightarrow> string \<Rightarrow> expr option \<Rightarrow> (moodeng_error, exec_state, query_result) op" where
  "ex_delete C table where_clause =
     sbind (\<lambda>s. (get_table (ex_catalog s) table, s)) (\<lambda>schema.
     sbind (on_storage (st_scan C table)) (\<lambda>all_rows.
     sbind (begin_write_txn C) (\<lambda>txn_id.
     sbind (sfold (delete_row C table schema where_clause txn_id) all_rows 0) (\<lambda>count.
     sbind (finish_auto_commit_if_needed C) (\<lambda>_.
       sret (qr_modified count (''DELETE '' @ show_nat (unat count))))))))"

subsection \<open>Indexes and statements\<close>

definition create_index :: "storage_codecs \<Rightarrow> string \<Rightarrow> string \<Rightarrow> string list \<Rightarrow> bool \<Rightarrow>
    (moodeng_error, exec_state, query_result) op" where
  "create_index C table index_name columns unique =
     (let meta = \<lparr>im_name = index_name, im_columns = columns, im_unique = unique\<rparr> in
      sbind (\<lambda>s. (get_table (ex_catalog s) table, s)) (\<lambda>schema.
      sbind (slift (case find (\<lambda>col. column_index schema col = None) columns of
               Some col \<Rightarrow> Inl (ColumnNotFound col) | None \<Rightarrow> Inr ())) (\<lambda>_.
      sbind (on_storage (st_scan C table)) (\<lambda>all_rows.
      sbind (slift (rebuild_index (schema_names schema) meta all_rows)) (\<lambda>index.
      sbind (on_indexes (im_create_index table index)) (\<lambda>_.
      sbind (on_catalog (add_index table meta)) (\<lambda>_.
        sret (qr_ddl (''CREATE INDEX '' @ index_name)))))))))"

fun expr_to_column_name :: "(expr \<Rightarrow> string) \<Rightarrow> expr \<Rightarrow> string" where
  "expr_to_column_name show_expr (Identifier v) = v"
| "expr_to_column_name show_expr e = show_expr e"

definition extract_delete_table :: "table_with_joins list \<Rightarrow> string" where
  "extract_delete_table tables = (case tables of [] \<Rightarrow> [] | t # _ \<Rightarrow> table_factor_name (twj_relation t))"

definition extract_select_info :: "query \<Rightarrow> (string \<times> expr option) res" where
  "extract_select_info q =
     (case q_body q of
        Select sel \<Rightarrow> (case sel_from sel of
                        [] \<Rightarrow> Inl (Parse ''missing FROM'')
                      | t # _ \<Rightarrow> Inr (table_factor_name (twj_relation t), sel_selection sel))
      | _ \<Rightarrow> Inl (Parse ''unsupported query body''))"

fun contains_text :: "string \<Rightarrow> string \<Rightarrow> bool" where
  "contains_text pat [] = (pat = [])"
| "contains_text pat (c # cs) = (starts_with pat (c # cs) \<or> contains_text pat cs)"

fun execute_statement :: "storage_codecs \<Rightarrow> sql_library \<Rightarrow> statement \<Rightarrow>
    (moodeng_error, exec_state, query_result) op" where
  "execute_statement C L StartTransaction = ex_begin C"
| "execute_statement C L Commit = ex_commit C"
| "execute_statement C L Rollback = ex_rollback C"
| "execute_statement C L (CreateTable name columns constraints) = create_table C name columns constraints"
| "execute_statement C L (Drop object_type names) =
     (if contains_text ''TABLE'' object_type
      then (case names of [] \<Rightarrow> sfail (OtherError ''panic: index out of bounds'')
            | n # _ \<Rightarrow> drop_table (extract_table_name n))
      else sfail (Execution (''unsupported DROP: '' @ object_type)))"
| "execute_statement C L (Insert ins) =
     (case ins_source ins of
        None \<Rightarrow> sfail (Parse ''missing INSERT source'')
      | Some source \<Rightarrow> ex_insert C ins source)"
| "execute_statement C L (Query q) = ex_select C L q"
| "execute_statement C L (Update table assignments selection) =
     ex_update C (table_factor_name table) assignments selection"
| "execute_statement C L (Delete tables selection) = ex_delete C (extract_delete_table tables) selection"
| "execute_statement C L (CreateIndex name table columns unique) =
     create_index C (extract_table_name table)
       (case name of None \<Rightarrow> ''idx'' | Some n \<Rightarrow> extract_ident n)
       (map (expr_to_column_name (lib_show_expr L)) columns) unique"
| "execute_statement C L (Explain stmt) = explain stmt"
| "execute_statement C L (OtherStatement txt) = sfail (Execution (''unsupported statement: '' @ txt))"

definition execute :: "storage_codecs \<Rightarrow> sql_library \<Rightarrow> string \<Rightarrow> (moodeng_error, exec_state, query_result) op" where
  "execute C L sql =
     sbind (slift (parse_sql L sql)) (\<lambda>statements.
       if statements = [] then sret (qr_empty ''no statements'')
       else sfold (\<lambda>stmt _. execute_statement C L stmt) statements (qr_empty ''ok''))"

end
