(* ===== verification/Execution.thy ===== *)
theory Execution
  imports Executor
begin

text \<open>
  Invariants of the executor: data statements that succeed, or are refused harmlessly, keep tables and indexes
  in agreement, and the undo log of a transaction leads back to the values the tables had at BEGIN. The engine is in the default configuration, with all
  tables in memory, where storage operations do not fail; \<open>room s n\<close> says that every table can take
  \<open>n\<close> more rows before its 64-bit id counter wraps around.
\<close>

subsection \<open>Storage in memory\<close>

definition room :: "storage \<Rightarrow> nat \<Rightarrow> bool" where
  "room s n \<longleftrightarrow> (\<forall>t d. map_of (st_tables s) t = Some (Memory d) \<longrightarrow> unat (td_next_id d) + n < 2 ^ 64)"

text \<open>The parts of a state these predicates depend on.\<close>

definition mem_same :: "storage \<Rightarrow> storage \<Rightarrow> bool" where
  "mem_same s s' \<longleftrightarrow> map_of (st_tables s') = map_of (st_tables s) \<and> st_options s' = st_options s"

lemma mem_same_trans: "mem_same s t \<Longrightarrow> mem_same t u \<Longrightarrow> mem_same s u"
  by (simp add: mem_same_def)

lemma mem_sameD:
  assumes "mem_same s s'"
  shows "mem_only s' = mem_only s" "room s' n = room s n"
  using assms by (simp_all add: mem_same_def mem_only_def room_def use_paged_def)

lemma room_mono: "room s n \<Longrightarrow> k \<le> n \<Longrightarrow> room s k"
  by (fastforce simp: room_def)

lemma mem_same_update:
  "map_of (st_tables s) table = Some b \<Longrightarrow> mem_same s (s\<lparr>st_tables := AList.update table b (st_tables s)\<rparr>)"
  by (simp add: mem_same_def update_conv' fun_upd_idem)

lemma mem_persist:
  assumes "mem_only s"
  shows "mem_same s (snd (sfold (\<lambda>table _ s. if map_of (st_tables s) table \<noteq> None
    then persist_table C table s else (Inr (), s)) names () s))"
proof (rule sfold_invariant [where I = "mem_same s"])
  show "mem_same s s" by (simp add: mem_same_def)
  fix table and acc :: unit and t assume t: "mem_same s t"
  then have "mem_only t" using assms mem_sameD by blast
  then have "mem_same t (snd (if map_of (st_tables t) table \<noteq> None then persist_table C table t else (Inr (), t)))"
    by (auto simp: persist_table_def mem_same_def mem_only_def split: option.splits table_backend.splits)
  then show "mem_same s (snd (if map_of (st_tables t) table \<noteq> None then persist_table C table t else (Inr (), t)))"
    using t mem_same_trans by blast
qed

lemma mem_log_change:
  assumes "mem_only s"
  shows "mem_same s (snd (log_change C op s))"
proof -
  let ?s = "s\<lparr>st_wal := snd (wal_append (sc_wal C) op (st_wal s))\<rparr>"
  have s: "mem_same s ?s" by (simp add: mem_same_def)
  obtain r t where ck: "checkpoint_all C ?s = (r, t)" by fastforce
  have "mem_only ?s" using assms mem_sameD(1) [OF s] by simp
  from mem_persist [OF this, of C "map fst (st_tables ?s)"] ck have "mem_same ?s t"
    by (simp add: checkpoint_all_def)
  then have "mem_same s (snd (checkpoint C ?s))"
    using mem_same_trans [OF s] ck
    by (auto simp: checkpoint_def sbind_def mem_same_def split: sum.splits)
  then show ?thesis using s by (simp add: log_change_def maybe_checkpoint_def)
qed

text \<open>A write to a table in memory, and the log record that follows it.\<close>

lemma mem_put_log:
  assumes "mem_only s" "log_change C op (s\<lparr>st_tables := AList.update table (Memory d) (st_tables s)\<rparr>) = (res, s')"
  shows "mem_only s'"
    and "room s n \<Longrightarrow> unat (td_next_id d) + n < 2 ^ 64 \<Longrightarrow> room s' n"
proof -
  let ?s = "s\<lparr>st_tables := AList.update table (Memory d) (st_tables s)\<rparr>"
  have "mem_same ?s s'" using mem_log_change [where C = C and op = op, OF mem_only_put [OF assms(1)], of table d] assms(2) by simp
  note m = mem_sameD [OF this]
  show "mem_only s'" using m(1) mem_only_put [OF assms(1)] by simp
  show "room s' n" if "room s n" "unat (td_next_id d) + n < 2 ^ 64"
    using that m(2) [of n] by (auto simp: room_def update_conv' split: if_splits)
qed

lemma mem_scan:
  assumes "st_inv C s" "mem_only s"
  shows "\<exists>xs s'. st_scan C table s = (Inr xs, s') \<and> lists_rows xs (st_rows C s table) \<and> st_same C s s' \<and> mem_same s s'"
proof -
  obtain xs s' where s': "st_scan C table s = (Inr xs, s')" "lists_rows xs (st_rows C s table)" "st_same C s s'"
    using st_scan_law [OF assms(1)] by blast
  have "mem_same s s'"
  proof (cases "map_of (st_tables s) table")
    case None
    then show ?thesis using s'(1) by (simp add: st_scan_def mem_same_def)
  next
    case (Some b)
    then obtain d where "b = Memory d" using assms(2) by (auto simp: mem_only_def)
    then show ?thesis using s'(1) Some mem_same_update [OF Some]
      by (simp add: st_scan_def on_backend_def be_scan_def td_scan_def)
  qed
  with s' show ?thesis by blast
qed

lemma mem_get_same:
  assumes "st_inv C s" "mem_only s"
  shows "\<exists>s'. st_get C table i s = (Inr (st_rows C s table i), s') \<and> st_same C s s' \<and> mem_same s s'"
proof -
  obtain s' where s': "st_get C table i s = (Inr (st_rows C s table i), s')" "st_same C s s'"
    using st_get_law [OF assms(1)] by blast
  have "mem_same s s'"
  proof (cases "map_of (st_tables s) table")
    case None
    then show ?thesis using s'(1) by (simp add: st_get_def mem_same_def)
  next
    case (Some b)
    then obtain d where "b = Memory d" using assms(2) by (auto simp: mem_only_def)
    then show ?thesis using s'(1) Some mem_same_update [OF Some]
      by (simp add: st_get_def on_backend_def be_get_def td_get_def)
  qed
  with s' show ?thesis by blast
qed

lemma mem_fetch:
  assumes "st_inv C s" "mem_only s" "table \<in> tables_of s"
  shows "\<exists>s'. fetch_by_ids C table ids s = (Inr (rows_at (st_rows C s table) ids), s') \<and> st_same C s s' \<and> mem_same s s'"
proof -
  obtain s' where s': "fetch_by_ids C table ids s = (Inr (rows_at (st_rows C s table) ids), s')" "st_same C s s'"
    using fetch_by_ids_law [OF assms(1)] assms(3) by fastforce
  obtain d where d: "map_of (st_tables s) table = Some (Memory d)" using assms(2,3) by (auto simp: mem_only_def)
  have "snd (fetch_rows (be_get (sc_pages C)) ids (Memory d)) = Memory d"
    unfolding fetch_rows_def
    by (rule sfold_invariant [where I = "\<lambda>b. b = Memory d"])
      (auto simp: sbind_def be_get_def td_get_def)
  then have "mem_same s s'" using s'(1) d mem_same_update [OF d]
    by (auto simp: fetch_by_ids_def on_backend_def split: prod.splits)
  with s' show ?thesis by blast
qed

lemma mem_backend:
  assumes "st_inv C s" "mem_only s" "table \<in> tables_of s"
  obtains d where "map_of (st_tables s) table = Some (Memory d)" "td_inv d" "st_rows C s table = map_of (td_rows d)"
proof -
  obtain d where d: "map_of (st_tables s) table = Some (Memory d)" using assms(2,3) by (auto simp: mem_only_def)
  show thesis using that [OF d] st_inv_backend [OF assms(1) d] st_rows_table [OF d, of C] by simp
qed

lemma log_change_runs:
  assumes "st_inv C s" "table \<in> tables_of s" "td_inv d"
  obtains s' where
    "log_change C op (s\<lparr>st_tables := AList.update table (Memory d) (st_tables s)\<rparr>) = (Inr (), s')"
proof -
  have "st_inv C (s\<lparr>st_tables := AList.update table (Memory d) (st_tables s)\<rparr>)"
    by (rule st_put(1) [OF assms(1)]) (simp add: assms(3))
  from log_change_law [OF this] that show thesis by blast
qed

lemma mem_insert:
  assumes "st_inv C s" "mem_only s" "table \<in> tables_of s" "room s (Suc n)"
  shows "\<exists>i s'. st_insert C table r txn s = (Inr i, s') \<and> mem_only s' \<and> room s' n
    \<and> st_rows C s table i = None \<and> st_changed C s table ((st_rows C s table)(i \<mapsto> r)) s'"
proof -
  obtain d where d: "map_of (st_tables s) table = Some (Memory d)" "td_inv d"
    by (rule mem_backend [OF assms(1-3)])
  let ?i = "td_next_id d"
  let ?d = "d\<lparr>td_next_id := ?i + 1, td_rows := AList.update ?i r (td_rows d)\<rparr>"
  have lt: "unat ?i + Suc n < 2 ^ 64" using assms(4) d(1) by (auto simp: room_def)
  have next_id: "?i + 1 \<noteq> 0"
  proof
    assume "?i + 1 = 0"
    then have "?i = - 1" by (simp add: eq_neg_iff_add_eq_0)
    then show False using lt by (simp add: unsigned_minus_1_eq_mask mask_eq_exp_minus_1)
  qed
  have "td_inv ?d" using td_inv_insert [OF d(2) next_id, of r] by simp
  then obtain s' where s': "log_change C (WInsert txn table ?i r)
      (s\<lparr>st_tables := AList.update table (Memory ?d) (st_tables s)\<rparr>) = (Inr (), s')"
    using log_change_runs [OF assms(1,3)] by blast
  have run: "st_insert C table r txn s = (Inr ?i, s')"
    using d(1) s' by (simp add: st_insert_def entry_or_new_def sbind_def on_backend_def be_insert_def
        td_insert_def Let_def)
  note law = st_insert_law [OF assms(1) d(1) _ run]
  have "unat (td_next_id ?d) + n < 2 ^ 64" using lt unat_add_one [OF next_id] by simp
  moreover have "room s n" using room_mono [OF assms(4)] by simp
  ultimately show ?thesis using run law next_id mem_put_log [OF assms(2) s'] by (auto simp: td_fits_def)
qed

lemma mem_update:
  assumes "st_inv C s" "mem_only s" "st_rows C s table i = Some old" "room s n"
  shows "\<exists>s'. st_update C table i r txn (row_version old) s = (Inr True, s') \<and> mem_only s' \<and> room s' n
    \<and> st_changed C s table ((st_rows C s table)(i \<mapsto> r\<lparr>row_version := row_version old + 1\<rparr>)) s'"
proof -
  have tab: "table \<in> tables_of s" using assms(3) by (auto simp: st_rows_def split: option.splits)
  obtain d where d: "map_of (st_tables s) table = Some (Memory d)" "td_inv d"
    "st_rows C s table = map_of (td_rows d)"
    by (rule mem_backend [OF assms(1,2) tab])
  let ?r = "r\<lparr>row_version := row_version old + 1\<rparr>"
  let ?d = "d\<lparr>td_rows := AList.update i ?r (td_rows d)\<rparr>"
  have "td_inv ?d" using d(2,3) assms(3) by (auto simp: td_inv_def intro!: amap_inv_update dest: amap_inv_lookup)
  then obtain s' where s': "log_change C (WUpdate txn table i ?r)
      (s\<lparr>st_tables := AList.update table (Memory ?d) (st_tables s)\<rparr>) = (Inr (), s')"
    using log_change_runs [OF assms(1) tab] by blast
  have run: "st_update C table i r txn (row_version old) s = (Inr True, s')"
    using d(1,3) assms(3) s' by (simp add: st_update_def be_get_def td_get_def sbind_def on_backend_def
        be_update_def td_update_def Let_def)
  have "unat (td_next_id ?d) + n < 2 ^ 64" using assms(4) d(1) by (auto simp: room_def)
  then show ?thesis using run st_update_law(1) [OF assms(1) run] mem_put_log [OF assms(2) s'] assms(4) by auto
qed

lemma mem_delete:
  assumes "st_inv C s" "mem_only s" "st_rows C s table i = Some old" "room s n"
  shows "\<exists>s'. st_delete C table i txn s = (Inr True, s') \<and> mem_only s' \<and> room s' n
    \<and> st_changed C s table ((st_rows C s table)(i := None)) s'"
proof -
  have tab: "table \<in> tables_of s" using assms(3) by (auto simp: st_rows_def split: option.splits)
  obtain d where d: "map_of (st_tables s) table = Some (Memory d)" "td_inv d"
    "st_rows C s table = map_of (td_rows d)"
    by (rule mem_backend [OF assms(1,2) tab])
  let ?d = "d\<lparr>td_rows := AList.delete i (td_rows d)\<rparr>"
  have "td_inv ?d" using d(2) by (auto simp: td_inv_def intro!: amap_inv_delete)
  then obtain s' where s': "log_change C (WDelete txn table i)
      (s\<lparr>st_tables := AList.update table (Memory ?d) (st_tables s)\<rparr>) = (Inr (), s')"
    using log_change_runs [OF assms(1) tab] by blast
  have run: "st_delete C table i txn s = (Inr True, s')"
    using d(1,3) assms(3) s' by (simp add: st_delete_def sbind_def on_backend_def be_delete_def td_delete_def)
  have "unat (td_next_id ?d) + n < 2 ^ 64" using assms(4) d(1) by (auto simp: room_def)
  then show ?thesis using run st_delete_law [OF assms(1) run] mem_put_log [OF assms(2) s'] assms(4) by auto
qed

subsection \<open>The invariant\<close>

abbreviation cat_dom :: "exec_state \<Rightarrow> string set" where
  "cat_dom s \<equiv> dom (map_of (cat_tables (ex_catalog s)))"

abbreviation ex_vals :: "storage_codecs \<Rightarrow> exec_state \<Rightarrow> table_values" where
  "ex_vals C s \<equiv> table_vals C (ex_storage s)"

text \<open>Tables and indexes agree, and there is no backend and no index without a table in the catalog.\<close>

definition ex_inv :: "storage_codecs \<Rightarrow> nat \<Rightarrow> exec_state \<Rightarrow> bool" where
  "ex_inv C n s \<longleftrightarrow> tables_agree C (ex_catalog s) (ex_storage s, ex_indexes s)
     \<and> mem_only (ex_storage s) \<and> room (ex_storage s) n
     \<and> tables_of (ex_storage s) \<subseteq> cat_dom s \<and> dom (map_of (ex_indexes s)) \<subseteq> cat_dom s"

lemma ex_invD:
  assumes "ex_inv C n s"
  shows "tables_agree C (ex_catalog s) (ex_storage s, ex_indexes s)" "st_inv C (ex_storage s)"
    "mem_only (ex_storage s)" "room (ex_storage s) n"
    "map_of (cat_tables (ex_catalog s)) table = Some schema \<Longrightarrow> table \<in> tables_of (ex_storage s)"
    "map_of (cat_tables (ex_catalog s)) table = Some schema \<Longrightarrow>
      manager_agrees (ex_indexes s) table (schema_names schema) (ex_vals C s table)"
  using assms tables_agreeD [of C "ex_catalog s" "ex_storage s" "ex_indexes s"]
  by (auto simp: ex_inv_def)

lemma ex_inv_mono: "ex_inv C n s \<Longrightarrow> k \<le> n \<Longrightarrow> ex_inv C k s"
  by (auto simp: ex_inv_def intro: room_mono)

lemma ex_inv_session [simp]:
  "ex_inv C n (s\<lparr>ex_session := se\<rparr>) = ex_inv C n s"
  "ex_inv C n (s\<lparr>ex_active_write_txns := k\<rparr>) = ex_inv C n s"
  by (simp_all add: ex_inv_def)

lemma ex_inv_same:
  assumes "ex_inv C n s" "st_same C (ex_storage s) st" "mem_same (ex_storage s) st"
  shows "ex_inv C n (s\<lparr>ex_storage := st\<rparr>)"
  using assms tables_agree_same [of C "ex_catalog s" "ex_storage s" "ex_indexes s" st] mem_sameD [OF assms(3)]
  by (auto simp: ex_inv_def st_same_def)

lemma ex_inv_change:
  assumes "ex_inv C k s" "map_of (cat_tables (ex_catalog s)) table = Some schema"
    and "st_changed C (ex_storage s) table R st" "mem_only st" "room st n"
    and "manager_agrees m table (schema_names schema) (row_vals R)"
    and "\<And>t. t \<noteq> table \<Longrightarrow> map_of m t = map_of (ex_indexes s) t"
  shows "ex_inv C n (s\<lparr>ex_storage := st, ex_indexes := m\<rparr>)"
proof -
  have "dom (map_of m) \<subseteq> cat_dom s"
  proof
    fix t assume "t \<in> dom (map_of m)"
    then have "t = table \<or> t \<in> dom (map_of (ex_indexes s))" using assms(7) [of t]
      by (cases "t = table") (simp_all add: domIff)
    then show "t \<in> cat_dom s" using assms(1,2) unfolding ex_inv_def by blast
  qed
  then show ?thesis
    using tables_agree_change [OF ex_invD(1) [OF assms(1)] assms(2,3,6,7)] assms(1,3,4,5)
    by (auto simp: ex_inv_def st_changed_def)
qed

lemma on_state_wp [wp_simps]:
  "wp (on_catalog f) Q E = (\<lambda>s. wp f (\<lambda>x c. Q x (s\<lparr>ex_catalog := c\<rparr>)) (\<lambda>e c. E e (s\<lparr>ex_catalog := c\<rparr>)) (ex_catalog s))"
  "wp (on_storage g) Q' E = (\<lambda>s. wp g (\<lambda>x c. Q' x (s\<lparr>ex_storage := c\<rparr>)) (\<lambda>e c. E e (s\<lparr>ex_storage := c\<rparr>)) (ex_storage s))"
  "wp (on_indexes h) Q'' E = (\<lambda>s. wp h (\<lambda>x c. Q'' x (s\<lparr>ex_indexes := c\<rparr>)) (\<lambda>e c. E e (s\<lparr>ex_indexes := c\<rparr>)) (ex_indexes s))"
  by (auto simp: wp_def on_catalog_def on_storage_def on_indexes_def fun_eq_iff split: prod.splits sum.splits)

text \<open>Reading a part of the state that may be an error.\<close>

lemma wp_read [wp_simps]: "wp (\<lambda>s. (f s, s)) Q E = (\<lambda>s. case f s of Inr x \<Rightarrow> Q x s | Inl e \<Rightarrow> E e s)"
  by (auto simp: wp_def fun_eq_iff split: sum.splits)

subsection \<open>Changes of one row\<close>

text \<open>A change of one row that \<open>u\<close> undoes: the session records \<open>u\<close>, nothing else but the row and its
  index entries changes, and undoing \<open>u\<close> gives back the old values.\<close>

definition row_change :: "storage_codecs \<Rightarrow> undo_record \<Rightarrow> exec_state \<Rightarrow> exec_state \<Rightarrow> bool" where
  "row_change C u s s' \<longleftrightarrow> ex_catalog s' = ex_catalog s
     \<and> ex_session s' = ex_session (record_undo u s) \<and> ex_active_write_txns s' = ex_active_write_txns s
     \<and> index_shape (ex_indexes s') = index_shape (ex_indexes s)
     \<and> undo_fits u (ex_vals C s') \<and> undo_value u (ex_vals C s') = ex_vals C s"

lemma record_undo_frame [simp]:
  "ex_catalog (record_undo u s) = ex_catalog s" "ex_storage (record_undo u s) = ex_storage s"
  "ex_indexes (record_undo u s) = ex_indexes s"
  "ex_active_write_txns (record_undo u s) = ex_active_write_txns s"
  "ex_inv C n (record_undo u s) = ex_inv C n s"
  by (simp_all add: record_undo_def)

text \<open>The only error of the index manager.\<close>

fun duplicate_key :: "moodeng_error \<Rightarrow> bool" where
  "duplicate_key (DuplicateKey _) = True"
| "duplicate_key _ = False"

lemma im_insert_row_refused: "im_insert_row table vals names i m = (Inl e, m') \<Longrightarrow> duplicate_key e"
  using insert_each_error [of vals names i "the (map_of m table)" e]
  by (auto simp: im_insert_row_def apsnd_def map_prod_def split: option.splits prod.splits)

lemma insert_new_row_wp:
  assumes "ex_inv C (Suc n) s" "map_of (cat_tables (ex_catalog s)) table = Some schema"
  shows "wp (insert_new_row C table schema rvals txn)
    (\<lambda>_ s'. \<exists>i. row_change C (UInsert table i) s s' \<and> ex_inv C n s'
       \<and> st_rows C (ex_storage s) table i = None
       \<and> st_rows C (ex_storage s') =
          (st_rows C (ex_storage s))(table := (st_rows C (ex_storage s) table)(i \<mapsto> row_new rvals)))
    (\<lambda>e _. duplicate_key e) s"
proof -
  note inv = ex_invD [OF assms(1)]
  obtain i st where ins: "st_insert C table (row_new rvals) txn (ex_storage s) = (Inr i, st)" "mem_only st" "room st n"
    "st_rows C (ex_storage s) table i = None"
    "st_changed C (ex_storage s) table ((st_rows C (ex_storage s) table)(i \<mapsto> row_new rvals)) st"
    using mem_insert [OF inv(2,3) inv(5) [OF assms(2)] inv(4)] by blast
  have fresh: "ex_vals C s table i = None" using ins(4) by (simp add: table_vals_def row_vals_def)
  obtain res m where run: "im_insert_row table rvals (schema_names schema) i (ex_indexes s) = (res, m)" by fastforce
  note frame = im_insert_row_frame [OF run]
  show ?thesis
  proof (cases res)
    case (Inl e)
    then show ?thesis using ins(1) run im_insert_row_refused [of table rvals "schema_names schema" i "ex_indexes s" e m]
      by (simp add: insert_new_row_def wp_simps) (simp add: wp_def)
  next
    case (Inr u)
    let ?s = "s\<lparr>ex_storage := st, ex_indexes := m\<rparr>"
    have "manager_agrees m table (schema_names schema)
        (row_vals ((st_rows C (ex_storage s) table)(i \<mapsto> row_new rvals)))"
      using im_insert_row_law [OF inv(6) [OF assms(2)] fresh run] Inr by (simp add: table_vals_def row_new_def)
    then have "ex_inv C n ?s" by (rule ex_inv_change [OF assms ins(5,2,3)]) (simp add: frame(2))
    moreover have "undo_value (UInsert table i) (table_vals C st) = ex_vals C s"
      using table_vals_changed [OF ins(5)] fresh by (auto simp: table_vals_def fun_eq_iff row_vals_def)
    ultimately have "row_change C (UInsert table i) s (record_undo (UInsert table i) ?s)"
      using frame(1) by (auto simp: row_change_def record_undo_def)
    moreover have "st_rows C st =
        (st_rows C (ex_storage s))(table := (st_rows C (ex_storage s) table)(i \<mapsto> row_new rvals))"
      using ins(5) by (simp add: st_changed_def)
    ultimately show ?thesis using \<open>ex_inv C n ?s\<close> ins(1,4) run Inr
      by (simp add: insert_new_row_def wp_simps) (auto simp: wp_def)
  qed
qed

lemma change_row_wp:
  assumes "ex_inv C n s" "map_of (cat_tables (ex_catalog s)) table = Some schema"
    and "st_rows C (ex_storage s) table i = Some r"
  shows "wp (change_row C table schema assigns excluded txn i r)
    (\<lambda>_ s'. row_change C (UUpdate table i r) s s' \<and> ex_inv C n s'
       \<and> (\<exists>vals. apply_assignments schema excluded assigns (row_values r) = Inr vals
          \<and> validate_row schema vals = Inr ()
          \<and> st_rows C (ex_storage s') = (st_rows C (ex_storage s))(table :=
              (st_rows C (ex_storage s) table)(i \<mapsto> r\<lparr>row_values := vals, row_version := row_version r + 1\<rparr>))))
    (\<lambda>_ _. True) s"
proof -
  let ?names = "schema_names schema" and ?V = "ex_vals C s" and ?u = "UUpdate table i r"
  note inv = ex_invD [OF assms(1)]
  show ?thesis
  proof (cases "\<exists>vals m. apply_assignments schema excluded assigns (row_values r) = Inr vals
      \<and> validate_row schema vals = Inr ()
      \<and> im_insert_row table vals ?names i (im_remove_row table (row_values r) ?names i (ex_indexes s)) = (Inr (), m)")
    case False
    show ?thesis unfolding change_row_def wp_simps
      using False by (auto simp: wp_def split: sum.splits prod.splits)
  next
    case True
    let ?m1 = "im_remove_row table (row_values r) ?names i (ex_indexes s)"
    from True obtain vals m where vals: "apply_assignments schema excluded assigns (row_values r) = Inr vals"
      "validate_row schema vals = Inr ()" and m: "im_insert_row table vals ?names i ?m1 = (Inr (), m)"
      by blast
    let ?r = "r\<lparr>row_values := vals, row_version := row_version r + 1\<rparr>"
    obtain st where upd: "st_update C table i (r\<lparr>row_values := vals\<rparr>) txn (row_version r) (ex_storage s) = (Inr True, st)"
      "mem_only st" "room st n"
      "st_changed C (ex_storage s) table ((st_rows C (ex_storage s) table)(i \<mapsto> ?r)) st"
      using mem_update [OF inv(2,3) assms(3) inv(4), of "r\<lparr>row_values := vals\<rparr>" txn] by auto
    have cur: "?V table i = Some (row_values r)" using assms(3) by (simp add: table_vals_def row_vals_def)
    have m1: "manager_agrees ?m1 table ?names ((?V table)(i := None))"
      by (rule im_remove_row_law [OF inv(6) [OF assms(2)] cur])
    have "manager_agrees m table ?names (((?V table)(i := None))(i \<mapsto> vals))"
      using im_insert_row_law [OF m1 _ m] by simp
    then have "manager_agrees m table ?names (row_vals ((st_rows C (ex_storage s) table)(i \<mapsto> ?r)))"
      by (simp add: table_vals_def)
    then have inv': "ex_inv C n (s\<lparr>ex_storage := st, ex_indexes := m\<rparr>)"
      by (rule ex_inv_change [OF assms(1,2) upd(4,2,3)])
        (simp add: im_insert_row_frame(2) [OF m] im_remove_row_frame(2))
    let ?s = "record_undo ?u s\<lparr>ex_storage := st, ex_indexes := m\<rparr>"
    have "table_vals C st = ?V(table := (?V table)(i \<mapsto> vals))"
      using table_vals_changed [OF upd(4)] by (simp add: table_vals_def)
    then have "row_change C ?u s ?s"
      using cur im_insert_row_frame(1) [OF m] im_remove_row_frame(1) [of table _ ?names i "ex_indexes s"]
      by (auto simp: row_change_def fun_eq_iff)
    moreover have "ex_inv C n ?s" using inv' by (simp add: record_undo_def ex_inv_def)
    ultimately show ?thesis using vals upd m unfolding change_row_def wp_simps
      by (auto simp: wp_def st_changed_def)
  qed
qed

lemma remove_row_wp:
  assumes "ex_inv C n s" "map_of (cat_tables (ex_catalog s)) table = Some schema"
    and "st_rows C (ex_storage s) table i = Some r"
  shows "wp (remove_row C table schema txn i r)
    (\<lambda>_ s'. row_change C (UDelete table i r) s s' \<and> ex_inv C n s'
       \<and> st_rows C (ex_storage s') = (st_rows C (ex_storage s))(table := (st_rows C (ex_storage s) table)(i := None)))
    (\<lambda>_ _. False) s"
proof -
  let ?names = "schema_names schema" and ?V = "ex_vals C s" and ?u = "UDelete table i r"
  let ?m = "im_remove_row table (row_values r) ?names i (ex_indexes s)"
  note inv = ex_invD [OF assms(1)]
  obtain st where del: "st_delete C table i txn (ex_storage s) = (Inr True, st)" "mem_only st" "room st n"
    "st_changed C (ex_storage s) table ((st_rows C (ex_storage s) table)(i := None)) st"
    using mem_delete [OF inv(2,3) assms(3) inv(4)] by blast
  have cur: "?V table i = Some (row_values r)" using assms(3) by (simp add: table_vals_def row_vals_def)
  have "manager_agrees ?m table ?names (row_vals ((st_rows C (ex_storage s) table)(i := None)))"
    using im_remove_row_law [OF inv(6) [OF assms(2)] cur] by (simp add: table_vals_def)
  then have inv': "ex_inv C n (s\<lparr>ex_storage := st, ex_indexes := ?m\<rparr>)"
    by (rule ex_inv_change [OF assms(1,2) del(4,2,3)]) (simp add: im_remove_row_frame(2))
  obtain d where d: "td_inv d" "st_rows C (ex_storage s) table = map_of (td_rows d)"
    by (rule mem_backend [OF inv(2,3) inv(5) [OF assms(2)]])
  have "i < td_next_id d" using d assms(3) by (auto simp: td_inv_def dest: amap_inv_lookup)
  then have "i + 1 \<noteq> 0" by (metis eq_neg_iff_add_eq_0 not_le word_order.extremum)
  moreover have "table_vals C st = ?V(table := (?V table)(i := None))"
    using table_vals_changed [OF del(4)] by (simp add: table_vals_def)
  ultimately have "row_change C ?u s (record_undo ?u s\<lparr>ex_indexes := ?m, ex_storage := st\<rparr>)"
    using cur im_remove_row_frame(1) [of table _ ?names i "ex_indexes s"]
    by (auto simp: row_change_def fun_eq_iff)
  moreover have "ex_inv C n (record_undo ?u s\<lparr>ex_indexes := ?m, ex_storage := st\<rparr>)"
    using inv' by (simp add: record_undo_def ex_inv_def)
  ultimately show ?thesis using del unfolding remove_row_def wp_simps
    by (auto simp: wp_def st_changed_def)
qed

subsection \<open>Stored values and the schema\<close>

text \<open>A row has one value per column, of the column's type, and NULL only where the column allows it.\<close>

definition row_ok :: "table_schema \<Rightarrow> db_value list \<Rightarrow> bool" where
  "row_ok schema vals \<longleftrightarrow> list_all2 (\<lambda>v col. conforms v (col_type col)) vals (ts_columns schema)
     \<and> list_all2 (\<lambda>v col. v = Null \<longrightarrow> col_nullable col) vals (ts_columns schema)"

definition ex_typed :: "storage_codecs \<Rightarrow> exec_state \<Rightarrow> bool" where
  "ex_typed C s \<longleftrightarrow> (\<forall>table schema i vals. map_of (cat_tables (ex_catalog s)) table = Some schema \<longrightarrow>
     ex_vals C s table i = Some vals \<longrightarrow> row_ok schema vals)"

lemma validate_row_nulls:
  assumes "validate_row schema vals = Inr ()" "length vals = length (ts_columns schema)"
  shows "list_all2 (\<lambda>v col. v = Null \<longrightarrow> col_nullable col) vals (ts_columns schema)"
proof -
  have "\<not> null_column vals c" if "c \<in> set (enumerate 0 (ts_columns schema))" for c
    using assms(1) that by (cases c) (auto simp: validate_row_def find_None_iff split: option.splits)
  then have "\<not> null_column vals (i, ts_columns schema ! i)" if "i < length (ts_columns schema)" for i
    using that by (auto simp: in_set_enumerate_eq)
  then show ?thesis using assms(2)
    by (auto simp: list_all2_conv_all_nth null_column_def get_or_def is_null_def)
qed

lemma coerce_row_ok:
  assumes "coerce_row schema v = Inr vals" "validate_row schema vals = Inr ()"
  shows "row_ok schema vals"
proof -
  note all = assms(1) [unfolded coerce_row_def rmapM_Inr_iff list_all2_conv_all_nth]
  have "conforms (vals ! i) (col_type (ts_columns schema ! i))" if "i < length (ts_columns schema)" for i
    using all that coerce_to_laws(1) by (fastforce simp: nth_enumerate_eq)
  moreover have len: "length vals = length (ts_columns schema)" using all by simp
  ultimately show ?thesis using validate_row_nulls [OF assms(2) len]
    by (simp add: row_ok_def list_all2_conv_all_nth)
qed

lemma apply_assignments_conform:
  "apply_assignments schema excluded assigns vals = Inr ws \<Longrightarrow>
   list_all2 (\<lambda>v col. conforms v (col_type col)) vals (ts_columns schema) \<Longrightarrow>
   list_all2 (\<lambda>v col. conforms v (col_type col)) ws (ts_columns schema)"
proof (induction assigns arbitrary: vals)
  case (Cons a assigns)
  from Cons.prems(1) obtain col val us where us: "(case column_index schema col of None \<Rightarrow> Inr vals
      | Some idx \<Rightarrow> rbind (coerce_to val (col_type (ts_columns schema ! idx))) (\<lambda>v. set_value idx v vals)) = Inr us"
    "apply_assignments schema excluded assigns us = Inr ws"
    by (auto simp: rbind_eq_Inr)
  have "list_all2 (\<lambda>v col. conforms v (col_type col)) us (ts_columns schema)"
    using us(1) Cons.prems(2)
    by (auto simp: rbind_eq_Inr set_value_def list_all2_conv_all_nth nth_list_update coerce_to_laws(1)
        split: option.splits if_splits)
  then show ?case using Cons.IH us(2) by blast
qed simp

lemma assigned_row_ok:
  assumes "apply_assignments schema excluded assigns vals = Inr ws" "validate_row schema ws = Inr ()"
    and "row_ok schema vals"
  shows "row_ok schema ws"
proof -
  have "list_all2 (\<lambda>v col. conforms v (col_type col)) ws (ts_columns schema)"
    using apply_assignments_conform [OF assms(1)] assms(3) by (simp add: row_ok_def)
  then show ?thesis using validate_row_nulls [OF assms(2)] by (simp add: row_ok_def list_all2_lengthD)
qed

text \<open>A change of one row keeps the tables typed when the new row fits the schema.\<close>

lemma ex_typed_change:
  assumes "ex_typed C s" "map_of (cat_tables (ex_catalog s)) table = Some schema"
    and "ex_catalog s' = ex_catalog s"
    and "st_rows C (ex_storage s') = (st_rows C (ex_storage s))(table := R)"
    and "\<And>i r. R i = Some r \<Longrightarrow> st_rows C (ex_storage s) table i = Some r \<or> row_ok schema (row_values r)"
  shows "ex_typed C s'"
  unfolding ex_typed_def
proof (intro allI impI)
  fix t sch i vals
  assume t: "map_of (cat_tables (ex_catalog s')) t = Some sch" "ex_vals C s' t i = Some vals"
  then obtain r where r: "st_rows C (ex_storage s') t i = Some r" "vals = row_values r"
    by (auto simp: table_vals_def row_vals_def)
  have old: "row_ok sch vals" if "st_rows C (ex_storage s) t i = Some r"
  proof -
    have "ex_vals C s t i = Some vals" using that r(2) by (simp add: table_vals_def row_vals_def)
    then show ?thesis using assms(1,3) t(1) by (auto simp: ex_typed_def)
  qed
  show "row_ok sch vals"
  proof (cases "t = table")
    case True
    then show ?thesis using old assms(2,3,4) assms(5) [of i r] r t(1) by auto
  next
    case False
    then show ?thesis using old r(1) assms(4) by simp
  qed
qed

subsection \<open>Sequences of row changes\<close>

text \<open>What a data statement does to the state, seen from the tables: reads, which may change the caches of
  the storage engine, and changes of one row, each from a state in agreement.\<close>

inductive row_steps :: "storage_codecs \<Rightarrow> exec_state \<Rightarrow> exec_state \<Rightarrow> bool" for C where
  row_steps_refl: "row_steps C s s"
| row_steps_read: "row_steps C s t \<Longrightarrow> st_same C (ex_storage t) st \<Longrightarrow> row_steps C s (t\<lparr>ex_storage := st\<rparr>)"
| row_steps_change: "row_steps C s t \<Longrightarrow> ex_inv C 0 t \<Longrightarrow> undo_table u \<in> cat_dom t \<Longrightarrow>
    row_change C u t t' \<Longrightarrow> (ex_typed C t \<longrightarrow> ex_typed C t') \<Longrightarrow> row_steps C s t'"

lemma row_steps_trans: "row_steps C t u \<Longrightarrow> row_steps C s t \<Longrightarrow> row_steps C s u"
  by (induction rule: row_steps.induct) (auto intro: row_steps.intros)

lemma row_steps_catalog: "row_steps C s t \<Longrightarrow> ex_catalog t = ex_catalog s"
  by (induction rule: row_steps.induct) (auto simp: row_change_def)

lemma row_steps_shape: "row_steps C s t \<Longrightarrow> index_shape (ex_indexes t) = index_shape (ex_indexes s)"
  by (induction rule: row_steps.induct) (auto simp: row_change_def)

lemma row_steps_typed: "row_steps C s t \<Longrightarrow> ex_typed C s \<Longrightarrow> ex_typed C t"
proof (induction rule: row_steps.induct)
  case (row_steps_read s t st)
  then show ?case using table_vals_same [of C "ex_storage t" st] by (simp add: ex_typed_def)
qed blast+

lemma row_steps_one:
  "ex_inv C n s \<Longrightarrow> undo_table u \<in> cat_dom s \<Longrightarrow> row_change C u s s' \<Longrightarrow>
   (ex_typed C s \<Longrightarrow> ex_typed C s') \<Longrightarrow> row_steps C s s'"
  by (rule row_steps_change [OF row_steps_refl]) (auto intro: ex_inv_mono)

text \<open>The three changes of a row as steps.\<close>

lemma insert_new_row_step:
  assumes "ex_inv C (Suc n) s" "map_of (cat_tables (ex_catalog s)) table = Some schema" "row_ok schema rvals"
  shows "wp (insert_new_row C table schema rvals txn)
    (\<lambda>_ s'. row_steps C s s' \<and> ex_inv C n s' \<and> (\<exists>i. st_rows C (ex_storage s) table i = None
       \<and> st_rows C (ex_storage s') =
          (st_rows C (ex_storage s))(table := (st_rows C (ex_storage s) table)(i \<mapsto> row_new rvals))))
    (\<lambda>e _. duplicate_key e) s"
proof (rule wp_mono [OF insert_new_row_wp [OF assms(1,2)]])
  fix u :: unit and s'
  assume "\<exists>i. row_change C (UInsert table i) s s' \<and> ex_inv C n s' \<and> st_rows C (ex_storage s) table i = None
    \<and> st_rows C (ex_storage s') =
      (st_rows C (ex_storage s))(table := (st_rows C (ex_storage s) table)(i \<mapsto> row_new rvals))"
  then obtain i where i: "row_change C (UInsert table i) s s'" "ex_inv C n s'" "st_rows C (ex_storage s) table i = None"
    "st_rows C (ex_storage s') =
      (st_rows C (ex_storage s))(table := (st_rows C (ex_storage s) table)(i \<mapsto> row_new rvals))" by blast
  have "ex_typed C s'" if "ex_typed C s"
    by (rule ex_typed_change [OF that assms(2) _ i(4)])
      (use i(1) assms(3) in \<open>auto simp: row_change_def row_new_def split: if_splits\<close>)
  then have "row_steps C s s'" using row_steps_one [OF assms(1) _ i(1)] assms(2) by auto
  with i show "row_steps C s s' \<and> ex_inv C n s' \<and> (\<exists>i. st_rows C (ex_storage s) table i = None
      \<and> st_rows C (ex_storage s') =
        (st_rows C (ex_storage s))(table := (st_rows C (ex_storage s) table)(i \<mapsto> row_new rvals)))" by blast
qed simp

definition assigned :: "table_schema \<Rightarrow> assignment list \<Rightarrow> db_value list option \<Rightarrow> row \<Rightarrow> row \<Rightarrow> bool" where
  "assigned schema assigns excluded r r' \<longleftrightarrow> (\<exists>vals. apply_assignments schema excluded assigns (row_values r) = Inr vals
     \<and> validate_row schema vals = Inr () \<and> r' = r\<lparr>row_values := vals, row_version := row_version r + 1\<rparr>)"

lemma change_row_step:
  assumes "ex_inv C n s" "map_of (cat_tables (ex_catalog s)) table = Some schema"
    and "st_rows C (ex_storage s) table i = Some r"
  shows "wp (change_row C table schema assigns excluded txn i r)
    (\<lambda>_ s'. row_steps C s s' \<and> ex_inv C n s' \<and> (\<exists>r'. assigned schema assigns excluded r r'
       \<and> st_rows C (ex_storage s') = (st_rows C (ex_storage s))(table := (st_rows C (ex_storage s) table)(i \<mapsto> r'))))
    (\<lambda>_ _. True) s"
proof (rule wp_mono [OF change_row_wp [OF assms]])
  fix u :: unit and s'
  assume "row_change C (UUpdate table i r) s s' \<and> ex_inv C n s'
       \<and> (\<exists>vals. apply_assignments schema excluded assigns (row_values r) = Inr vals
          \<and> validate_row schema vals = Inr ()
          \<and> st_rows C (ex_storage s') = (st_rows C (ex_storage s))(table :=
              (st_rows C (ex_storage s) table)(i \<mapsto> r\<lparr>row_values := vals, row_version := row_version r + 1\<rparr>)))"
  then obtain vals where c: "row_change C (UUpdate table i r) s s'" "ex_inv C n s'"
    and v: "apply_assignments schema excluded assigns (row_values r) = Inr vals" "validate_row schema vals = Inr ()"
    and rows: "st_rows C (ex_storage s') = (st_rows C (ex_storage s))(table :=
              (st_rows C (ex_storage s) table)(i \<mapsto> r\<lparr>row_values := vals, row_version := row_version r + 1\<rparr>))"
    by blast
  have "ex_typed C s'" if "ex_typed C s"
  proof (rule ex_typed_change [OF that assms(2) _ rows])
    have "row_ok schema (row_values r)"
      using that assms(2,3) by (fastforce simp: ex_typed_def table_vals_def row_vals_def)
    from assigned_row_ok [OF v this] show
      "st_rows C (ex_storage s) table j = Some r' \<or> row_ok schema (row_values r')"
      if "((st_rows C (ex_storage s) table)(i \<mapsto> r\<lparr>row_values := vals, row_version := row_version r + 1\<rparr>)) j = Some r'" for j r'
      using that by (auto split: if_splits)
  qed (use c(1) in \<open>simp add: row_change_def\<close>)
  then have "row_steps C s s'" using row_steps_one [OF assms(1) _ c(1)] assms(2) by auto
  with c v rows show "row_steps C s s' \<and> ex_inv C n s' \<and> (\<exists>r'. assigned schema assigns excluded r r'
       \<and> st_rows C (ex_storage s') = (st_rows C (ex_storage s))(table := (st_rows C (ex_storage s) table)(i \<mapsto> r')))"
    unfolding assigned_def by blast
qed simp

lemma remove_row_step:
  assumes "ex_inv C n s" "map_of (cat_tables (ex_catalog s)) table = Some schema"
    and "st_rows C (ex_storage s) table i = Some r"
  shows "wp (remove_row C table schema txn i r)
    (\<lambda>_ s'. row_steps C s s' \<and> ex_inv C n s'
       \<and> st_rows C (ex_storage s') = (st_rows C (ex_storage s))(table := (st_rows C (ex_storage s) table)(i := None)))
    (\<lambda>_ _. False) s"
proof (rule wp_mono [OF remove_row_wp [OF assms]])
  fix u :: unit and s'
  assume c: "row_change C (UDelete table i r) s s' \<and> ex_inv C n s'
       \<and> st_rows C (ex_storage s') = (st_rows C (ex_storage s))(table := (st_rows C (ex_storage s) table)(i := None))"
  have "ex_typed C s'" if "ex_typed C s"
    by (rule ex_typed_change [OF that assms(2), where R = "(st_rows C (ex_storage s) table)(i := None)"])
      (use c in \<open>auto simp: row_change_def split: if_splits\<close>)
  then have "row_steps C s s'" using row_steps_one [OF assms(1), of "UDelete table i r"] c assms(2) by auto
  with c show "row_steps C s s' \<and> ex_inv C n s'
      \<and> st_rows C (ex_storage s') = (st_rows C (ex_storage s))(table := (st_rows C (ex_storage s) table)(i := None))"
    by blast
qed simp

text \<open>An explicit transaction: one that BEGIN opened.\<close>

definition explicit_txn :: "exec_state \<Rightarrow> bool" where
  "explicit_txn s \<longleftrightarrow> tr_active (ex_transaction s) \<and> tr_txn_id (ex_transaction s) \<noteq> None
     \<and> \<not> se_auto_commit (ex_session s)"

lemma explicit_record: "explicit_txn s \<Longrightarrow> ex_session (record_undo u s) =
    (ex_session s)\<lparr>se_transaction := (ex_transaction s)\<lparr>tr_undo := tr_undo (ex_transaction s) @ [u]\<rparr>\<rparr>"
  by (simp add: explicit_txn_def record_undo_def is_active_def txn_record_def)

text \<open>The undo log of an explicit transaction always leads back to the values \<open>V0\<close>.\<close>

definition undo_inv :: "storage_codecs \<Rightarrow> table_values \<Rightarrow> exec_state \<Rightarrow> bool" where
  "undo_inv C V0 s \<longleftrightarrow> explicit_txn s
     \<and> undo_chain (ex_catalog s) (ex_indexes s) V0 (rev (tr_undo (ex_transaction s))) (ex_vals C s)"

lemma undo_inv_change:
  assumes "undo_inv C V0 s" "ex_inv C 0 s" "undo_table u \<in> cat_dom s" "row_change C u s s'"
  shows "undo_inv C V0 s'"
proof -
  obtain schema where schema: "map_of (cat_tables (ex_catalog s)) (undo_table u) = Some schema"
    using assms(3) by auto
  have ex: "explicit_txn s" using assms(1) by (simp add: undo_inv_def)
  have sess: "ex_session s' =
      (ex_session s)\<lparr>se_transaction := (ex_transaction s)\<lparr>tr_undo := tr_undo (ex_transaction s) @ [u]\<rparr>\<rparr>"
    using assms(4) explicit_record [OF ex] by (simp add: row_change_def)
  note shape = undo_chain_cong [of "ex_indexes s'" "ex_indexes s"]
  have "uniques_hold (ex_indexes s) (undo_table u) schema (ex_vals C s (undo_table u))"
    using manager_agrees_uniq [OF ex_invD(6) [OF assms(2) schema]] by (simp add: uniques_hold_def)
  then have "uniques_hold (ex_indexes s') (undo_table u) schema (ex_vals C s (undo_table u))"
    using assms(4) uniques_hold_cong [of "ex_indexes s'" "ex_indexes s"] by (simp add: row_change_def)
  moreover have "undo_chain (ex_catalog s) (ex_indexes s') V0 (rev (tr_undo (ex_transaction s))) (ex_vals C s)"
    using assms(1,4) shape by (simp add: undo_inv_def row_change_def)
  moreover have "explicit_txn s'" using ex sess by (simp add: explicit_txn_def)
  moreover have "undo_fits u (ex_vals C s')" "undo_value u (ex_vals C s') = ex_vals C s" "ex_catalog s' = ex_catalog s"
    using assms(4) by (simp_all add: row_change_def)
  ultimately show ?thesis using schema unfolding undo_inv_def sess by simp
qed

lemma undo_inv_steps: "row_steps C s s' \<Longrightarrow> undo_inv C V0 s \<Longrightarrow> undo_inv C V0 s'"
proof (induction rule: row_steps.induct)
  case (row_steps_read s t st)
  then show ?case using table_vals_same [of C "ex_storage t" st] by (simp add: undo_inv_def explicit_txn_def)
next
  case (row_steps_change s t u t')
  then show ?case using undo_inv_change by blast
qed

lemma explicit_steps: "row_steps C s s' \<Longrightarrow> explicit_txn s \<Longrightarrow> explicit_txn s'"
proof (induction rule: row_steps.induct)
  case (row_steps_change s t u t')
  then show ?case using explicit_record [of t u] by (simp add: explicit_txn_def row_change_def)
qed (simp_all add: explicit_txn_def)

subsection \<open>Data statements\<close>

abbreviation no_error :: "moodeng_error \<Rightarrow> exec_state \<Rightarrow> bool" where
  "no_error \<equiv> \<lambda>_ _. True"

lemma apply_conflict_update_wp:
  assumes "ex_inv C n s" "map_of (cat_tables (ex_catalog s)) table = Some schema"
  shows "wp (apply_conflict_update C table schema i proposed assigns sel txn)
    (\<lambda>_ s'. row_steps C s s' \<and> ex_inv C n s') no_error s"
proof -
  note inv = ex_invD [OF assms(1)]
  obtain st where get: "st_get C table i (ex_storage s) = (Inr (st_rows C (ex_storage s) table i), st)"
    "st_same C (ex_storage s) st" "mem_same (ex_storage s) st"
    using mem_get_same [OF inv(2,3)] by blast
  let ?s = "s\<lparr>ex_storage := st\<rparr>"
  have inv1: "ex_inv C n ?s" by (rule ex_inv_same [OF assms(1) get(2,3)])
  have step1: "row_steps C s ?s" by (rule row_steps_read [OF row_steps_refl get(2)])
  show ?thesis
  proof (cases "st_rows C (ex_storage s) table i")
    case None
    then show ?thesis using get(1) by (simp add: apply_conflict_update_def wp_simps) (simp add: wp_def)
  next
    case (Some r)
    then have r: "st_rows C (ex_storage ?s) table i = Some r" using get(2) by (simp add: st_same_def)
    have tab: "map_of (cat_tables (ex_catalog ?s)) table = Some schema" using assms(2) by simp
    have "wp (change_row C table schema assigns (Some proposed) txn i r)
        (\<lambda>_ s'. row_steps C s s' \<and> ex_inv C n s') no_error ?s"
      by (rule wp_mono [OF change_row_step [OF inv1 tab r]]) (use row_steps_trans [OF _ step1] in blast)+
    then show ?thesis using get(1) Some step1 inv1
      by (simp add: apply_conflict_update_def wp_simps wp_Inr [of "st_get C table i", OF get(1)] split: sum.splits option.splits)
  qed
qed

text \<open>What a loop over rows leaves: changes of rows from the state before, in agreement.\<close>

abbreviation changed_rows :: "storage_codecs \<Rightarrow> nat \<Rightarrow> exec_state \<Rightarrow> exec_state \<Rightarrow> bool" where
  "changed_rows C n s s' \<equiv> row_steps C s s' \<and> ex_inv C n s'"

lemma insert_row_wp:
  assumes "ex_inv C (Suc n) s" "map_of (cat_tables (ex_catalog s)) table = Some schema"
  shows "wp (insert_row C table schema oc txn vals) (\<lambda>_. changed_rows C n s)
    (\<lambda>e t. oc = None \<and> \<not> duplicate_key e \<longrightarrow> changed_rows C n s t) s"
proof -
  have new: "wp (insert_new_row C table schema rvals txn) (\<lambda>_. changed_rows C n s)
      (\<lambda>e t. oc = None \<and> \<not> duplicate_key e \<longrightarrow> changed_rows C n s t) s"
    if "coerce_row schema vals = Inr rvals" "validate_row schema rvals = Inr ()" for rvals
    by (rule wp_mono [OF insert_new_row_step [OF assms coerce_row_ok [OF that]]]) blast+
  have upd: "wp (apply_conflict_update C table schema i rvals assigns sel txn) (\<lambda>_. changed_rows C n s)
      no_error s" for i rvals assigns sel
    by (rule apply_conflict_update_wp [OF ex_inv_mono [OF assms(1)] assms(2)]) simp
  have idle: "changed_rows C n s s" using ex_inv_mono [OF assms(1), of n] row_steps_refl by auto
  show ?thesis
  proof (cases oc)
    case None
    with new idle show ?thesis unfolding insert_row_def by (auto simp: wp_simps split: sum.splits)
  next
    case (Some conflict)
    with new upd idle show ?thesis unfolding insert_row_def
      by (auto simp: wp_simps split: sum.splits option.splits on_conflict_action.splits)
  qed
qed

text \<open>The bracket of a data statement: an open transaction is used, otherwise one is opened and committed.\<close>

lemma on_txn_wp [wp_simps]:
  "wp (on_txn f) Q E = (\<lambda>s. wp f
     (\<lambda>x tw. Q x (s\<lparr>ex_session := (ex_session s)\<lparr>se_transaction := fst tw\<rparr>,
                    ex_storage := (ex_storage s)\<lparr>st_wal := snd tw\<rparr>\<rparr>))
     (\<lambda>e tw. E e (s\<lparr>ex_session := (ex_session s)\<lparr>se_transaction := fst tw\<rparr>,
                    ex_storage := (ex_storage s)\<lparr>st_wal := snd tw\<rparr>\<rparr>))
     (ex_transaction s, st_wal (ex_storage s)))"
  by (auto simp: wp_def on_txn_def fun_eq_iff split: prod.splits sum.splits)

lemma wal_frame [simp]:
  "ex_inv C n (s\<lparr>ex_storage := (ex_storage s)\<lparr>st_wal := w\<rparr>\<rparr>) = ex_inv C n s"
  "ex_inv C n (s\<lparr>ex_session := se, ex_storage := (ex_storage s)\<lparr>st_wal := w\<rparr>\<rparr>) = ex_inv C n s"
  "table_vals C (st\<lparr>st_wal := w\<rparr>) = table_vals C st"
proof -
  show vals: "table_vals C (st\<lparr>st_wal := w\<rparr>) = table_vals C st" for st
    by (rule ext) (simp add: table_vals_def)
  show "ex_inv C n (s\<lparr>ex_storage := (ex_storage s)\<lparr>st_wal := w\<rparr>\<rparr>) = ex_inv C n s"
    "ex_inv C n (s\<lparr>ex_session := se, ex_storage := (ex_storage s)\<lparr>st_wal := w\<rparr>\<rparr>) = ex_inv C n s"
    by (simp_all add: ex_inv_def tables_agree_def vals mem_only_def use_paged_def room_def)
qed

definition same_tables :: "storage_codecs \<Rightarrow> exec_state \<Rightarrow> exec_state \<Rightarrow> bool" where
  "same_tables C s t \<longleftrightarrow> ex_catalog t = ex_catalog s \<and> st_rows C (ex_storage t) = st_rows C (ex_storage s)
     \<and> ex_indexes t = ex_indexes s"

lemma same_tables_typed: "same_tables C s t \<Longrightarrow> ex_typed C t = ex_typed C s"
  by (simp add: same_tables_def ex_typed_def table_vals_def)

text \<open>\<open>bracketed C n s t\<close>: the bracket left tables and indexes alone, and it did nothing in an explicit
  transaction.\<close>

abbreviation bracketed :: "storage_codecs \<Rightarrow> nat \<Rightarrow> exec_state \<Rightarrow> exec_state \<Rightarrow> bool" where
  "bracketed C n s t \<equiv> ex_inv C n t \<and> same_tables C s t \<and> (explicit_txn s \<longrightarrow> t = s)"

lemma begin_write_txn_wp:
  assumes "ex_inv C n s"
  shows "wp (begin_write_txn C) (\<lambda>_. bracketed C n s) (\<lambda>_. bracketed C n s) s"
proof (cases "tr_txn_id (ex_transaction s)")
  case None
  have "wp (on_txn (txn_begin (sc_wal C))) (\<lambda>_ t. ex_inv C n t \<and> same_tables C s t)
      (\<lambda>_ t. ex_inv C n t \<and> same_tables C s t) s"
    unfolding on_txn_wp wp_def txn_begin_def using assms
    by (auto simp: same_tables_def split: prod.splits)
  then have "wp (begin_write_txn C) (\<lambda>_ t. ex_inv C n t \<and> same_tables C s t)
      (\<lambda>_ t. ex_inv C n t \<and> same_tables C s t) s"
    using None unfolding begin_write_txn_def current_txn_id_def
    by (simp add: wp_def sbind_def set_auto_commit_def track_write_txn_start_def same_tables_def
        split: prod.splits sum.splits)
  then show ?thesis using None by (simp add: explicit_txn_def)
next
  case (Some t)
  then show ?thesis using assms by (simp add: wp_def begin_write_txn_def current_txn_id_def same_tables_def)
qed

lemma finish_auto_commit_wp:
  assumes "ex_inv C n s"
  shows "wp (finish_auto_commit_if_needed C) (\<lambda>_. bracketed C n s) (\<lambda>_. bracketed C n s) s"
proof (cases "se_auto_commit (ex_session s)")
  case True
  then show ?thesis
    unfolding finish_auto_commit_if_needed_def wp_def
    using assms by (auto simp: sbind_def on_txn_def txn_commit_def set_auto_commit_def track_write_txn_end_def
        same_tables_def explicit_txn_def split: prod.splits option.splits sum.splits)
next
  case False
  then show ?thesis using assms by (simp add: finish_auto_commit_if_needed_def wp_def same_tables_def)
qed

definition dml_post :: "storage_codecs \<Rightarrow> nat \<Rightarrow> exec_state \<Rightarrow> exec_state \<Rightarrow> bool" where
  "dml_post C n s s' \<longleftrightarrow> ex_inv C n s' \<and> ex_catalog s' = ex_catalog s \<and> (explicit_txn s \<longrightarrow> row_steps C s s')
     \<and> index_shape (ex_indexes s') = index_shape (ex_indexes s) \<and> (ex_typed C s \<longrightarrow> ex_typed C s')"

lemma dml_post_steps:
  assumes "same_tables C s t" "explicit_txn s \<longrightarrow> t = s" "changed_rows C n t t'"
  shows "dml_post C n s t'"
  using assms row_steps_typed [of C t t'] same_tables_typed [OF assms(1)] row_steps_catalog [of C t t']
    row_steps_shape [of C t t'] by (auto simp: dml_post_def same_tables_def)

lemma dml_post_bracketed:
  assumes "dml_post C n s t'" "explicit_txn s \<longrightarrow> explicit_txn t'" "bracketed C n t' t''"
  shows "dml_post C n s t''"
  using assms same_tables_typed [of C t' t''] by (auto simp: dml_post_def same_tables_def)

lemma dml_post_idle: "ex_inv C n s \<Longrightarrow> dml_post C n s s"
  using row_steps_refl by (simp add: dml_post_def)

text \<open>The errors \<open>P\<close> of the body leave the same as a success.\<close>

lemma bracket_wp:
  assumes "ex_inv C k s" "n \<le> k"
    and "\<And>txn t. ex_inv C k t \<Longrightarrow> same_tables C s t \<Longrightarrow>
      wp (body txn) (\<lambda>_. changed_rows C n t) (\<lambda>e t'. P e \<longrightarrow> changed_rows C n t t') t"
  shows "wp (sbind (begin_write_txn C) (\<lambda>txn. sbind (body txn) (\<lambda>c.
      sbind (finish_auto_commit_if_needed C) (\<lambda>_. sret (g c)))))
    (\<lambda>_. dml_post C n s) (\<lambda>e t. P e \<longrightarrow> dml_post C n s t) s"
proof -
  have fin: "wp (finish_auto_commit_if_needed C) (\<lambda>_. dml_post C n s) (\<lambda>e t. P e \<longrightarrow> dml_post C n s t) t'"
    if "changed_rows C n t t'" "bracketed C k s t" for t t'
  proof -
    have "dml_post C n s t'" using dml_post_steps [OF _ _ that(1)] that(2) by blast
    moreover have "explicit_txn s \<longrightarrow> explicit_txn t'" using that explicit_steps [of C t t'] by auto
    ultimately show ?thesis using that(1)
      by (intro wp_mono [OF finish_auto_commit_wp]) (auto intro: dml_post_bracketed)
  qed
  have body: "wp (body txn) (\<lambda>c. wp (finish_auto_commit_if_needed C) (\<lambda>_. dml_post C n s) (\<lambda>e t. P e \<longrightarrow> dml_post C n s t))
      (\<lambda>e t. P e \<longrightarrow> dml_post C n s t) t" if "bracketed C k s t" for txn t
    by (rule wp_mono [OF assms(3)]) (use that fin dml_post_steps in blast)+
  have "dml_post C n s t" if "bracketed C k s t" for t
    using dml_post_steps [of C s t t n] that ex_inv_mono [of C k t n] assms(2) row_steps_refl by blast
  with body show ?thesis unfolding wp_simps
    by (intro wp_mono [OF begin_write_txn_wp [OF assms(1)]]) blast+
qed

text \<open>The number of rows a statement may add.\<close>

fun body_rows :: "set_expr \<Rightarrow> nat" where
  "body_rows (Values rows) = length rows"
| "body_rows _ = 0"

fun stmt_rows :: "statement \<Rightarrow> nat" where
  "stmt_rows (Insert ins) = (case ins_source ins of None \<Rightarrow> 0 | Some q \<Rightarrow> body_rows (q_body q))"
| "stmt_rows _ = 0"

lemma insert_loop_wp:
  assumes "ex_inv C (n + length rows) s" "map_of (cat_tables (ex_catalog s)) table = Some schema"
  shows "wp (sfold (\<lambda>vals c. sbind (insert_row C table schema oc txn vals) (\<lambda>k. sret (c + k))) rows c0)
    (\<lambda>_. changed_rows C n s) (\<lambda>e t. oc = None \<and> \<not> duplicate_key e \<longrightarrow> changed_rows C n s t) s"
proof -
  let ?I = "\<lambda>(rest :: db_value list list) (_::u64) t. changed_rows C (n + length rest) s t"
  let ?E = "\<lambda>e t. oc = None \<and> \<not> duplicate_key e \<longrightarrow> changed_rows C n s t"
  have "wp (sfold (\<lambda>vals c. sbind (insert_row C table schema oc txn vals) (\<lambda>k. sret (c + k))) rows c0) (?I []) ?E s"
  proof (rule wp_sfold [where I = ?I])
    show "changed_rows C (n + length rows) s s" using assms(1) row_steps_refl by blast
    fix vals rest and c :: u64 and t assume I: "?I (vals # rest) c t"
    then have "ex_inv C (Suc (n + length rest)) t" by simp
    moreover have "map_of (cat_tables (ex_catalog t)) table = Some schema"
      using I row_steps_catalog assms(2) by metis
    moreover have "changed_rows C n s t'" if "changed_rows C (n + length rest) t t'" for t'
      using that I row_steps_trans ex_inv_mono [of C "n + length rest" t' n] by auto
    ultimately show "wp (sbind (insert_row C table schema oc txn vals) (\<lambda>k. sret (c + k))) (?I rest) ?E t"
      unfolding wp_simps
      by (intro wp_mono [OF insert_row_wp]) (use I row_steps_trans in blast)+
  qed
  then show ?thesis by simp
qed

lemma ex_insert_wp:
  assumes "ex_inv C (n + body_rows (q_body source)) s"
  shows "wp (ex_insert C ins source) (\<lambda>_. dml_post C n s)
    (\<lambda>e t. ins_on ins = None \<and> \<not> duplicate_key e \<longrightarrow> dml_post C n s t) s"
proof -
  let ?table = "extract_table_name (ins_table ins)"
  have body: "wp (sbind (begin_write_txn C) (\<lambda>txn.
      sbind (sfold (\<lambda>vals c. sbind (insert_row C ?table schema oc txn vals) (\<lambda>n. sret (c + n))) rows 0) (\<lambda>c.
      sbind (finish_auto_commit_if_needed C) (\<lambda>_. sret (g c))))) (\<lambda>_. dml_post C n s)
      (\<lambda>e t. ins_on ins = None \<and> \<not> duplicate_key e \<longrightarrow> dml_post C n s t) s"
    if that: "map_of (cat_tables (ex_catalog s)) ?table = Some schema" "length rows \<le> body_rows (q_body source)"
      "conflict_clause (ins_on ins) = Inr oc"
    for schema oc rows and g :: "u64 \<Rightarrow> query_result"
  proof (rule bracket_wp)
    show "ex_inv C (n + length rows) s" using ex_inv_mono [OF assms(1)] that(2) by simp
    fix txn t assume t: "ex_inv C (n + length rows) t" "same_tables C s t"
    then have "map_of (cat_tables (ex_catalog t)) ?table = Some schema" using that(1) by (simp add: same_tables_def)
    from insert_loop_wp [OF t(1) this] show "wp (sfold (\<lambda>vals c. sbind (insert_row C ?table schema oc txn vals) (\<lambda>n. sret (c + n))) rows 0)
        (\<lambda>_. changed_rows C n t) (\<lambda>e t'. ins_on ins = None \<and> \<not> duplicate_key e \<longrightarrow> changed_rows C n t t') t"
      by (rule wp_mono) (use that(3) in auto)
  qed simp
  have rows: "length rows \<le> body_rows (q_body source)" if "values_from_insert source = Inr rows" for rows
    using that by (auto simp: values_from_insert_def split: set_expr.splits)
  have idle: "dml_post C n s s" using dml_post_idle ex_inv_mono [OF assms, of n] by simp
  show ?thesis unfolding ex_insert_def Let_def
    using body rows idle by (simp add: wp_simps get_table_def split: sum.splits option.splits)
qed

lemma scanned_rows:
  assumes "lists_rows xs R"
  shows "distinct (map fst xs)" "e \<in> set xs \<Longrightarrow> R (fst e) = Some (snd e)"
  using assms by (auto simp: lists_rows_def strict_sorted_iff)

text \<open>A loop over the rows of a scan, whose body changes at most the row it is at.\<close>

lemma row_loop_wp:
  assumes step: "\<And>e c t. ex_inv C n t \<Longrightarrow> map_of (cat_tables (ex_catalog t)) table = Some schema \<Longrightarrow>
      st_rows C (ex_storage t) table (fst e) = Some (snd e) \<Longrightarrow>
      wp (f e c) (\<lambda>_ t'. row_steps C t t' \<and> ex_inv C n t'
        \<and> (\<forall>j. j \<noteq> fst e \<longrightarrow> st_rows C (ex_storage t') table j = st_rows C (ex_storage t) table j))
        (\<lambda>e t'. P e \<longrightarrow> changed_rows C n t t') t"
    and "ex_inv C n s" "map_of (cat_tables (ex_catalog s)) table = Some schema"
    and "distinct (map fst xs)" "\<forall>e \<in> set xs. st_rows C (ex_storage s) table (fst e) = Some (snd e)"
  shows "wp (sfold f xs c0) (\<lambda>_. changed_rows C n s) (\<lambda>e t. P e \<longrightarrow> changed_rows C n s t) s"
proof -
  let ?I = "\<lambda>rest c t. row_steps C s t \<and> ex_inv C n t \<and> distinct (map fst rest)
    \<and> (\<forall>e \<in> set rest. st_rows C (ex_storage t) table (fst e) = Some (snd e))"
  have "wp (sfold f xs c0) (?I []) (\<lambda>e t. P e \<longrightarrow> changed_rows C n s t) s"
  proof (rule wp_sfold [where I = ?I])
    show "?I xs c0 s" using assms(2,4,5) row_steps_refl by blast
    fix e rest c t assume I: "?I (e # rest) c t"
    then have cat: "map_of (cat_tables (ex_catalog t)) table = Some schema"
      using row_steps_catalog assms(3) by metis
    have e: "ex_inv C n t" "st_rows C (ex_storage t) table (fst e) = Some (snd e)" using I by simp_all
    have ne: "fst e' \<noteq> fst e" if "e' \<in> set rest" for e'
    proof -
      have "fst e' \<in> set (map fst rest)" using that by simp
      moreover have "fst e \<notin> set (map fst rest)" using I by simp
      ultimately show ?thesis by metis
    qed
    show "wp (f e c) (?I rest) (\<lambda>e t. P e \<longrightarrow> changed_rows C n s t) t"
      by (rule wp_mono [OF step [OF e(1) cat e(2)]]) (use I ne row_steps_trans in auto)
  qed
  then show ?thesis by (rule wp_mono) auto
qed

lemma scan_loop_wp:
  assumes "ex_inv C n s" "map_of (cat_tables (ex_catalog s)) table = Some schema"
    and "\<And>txn e c t. ex_inv C n t \<Longrightarrow> map_of (cat_tables (ex_catalog t)) table = Some schema \<Longrightarrow>
      st_rows C (ex_storage t) table (fst e) = Some (snd e) \<Longrightarrow>
      wp (f txn e c) (\<lambda>_ t'. row_steps C t t' \<and> ex_inv C n t'
        \<and> (\<forall>j. j \<noteq> fst e \<longrightarrow> st_rows C (ex_storage t') table j = st_rows C (ex_storage t) table j))
        (\<lambda>e t'. P e \<longrightarrow> changed_rows C n t t') t"
  shows "wp (sbind (on_storage (st_scan C table)) (\<lambda>all_rows. sbind (begin_write_txn C) (\<lambda>txn.
      sbind (sfold (f txn) all_rows c0) (\<lambda>c. sbind (finish_auto_commit_if_needed C) (\<lambda>_. sret (g c))))))
    (\<lambda>_. dml_post C n s) (\<lambda>e t. P e \<longrightarrow> dml_post C n s t) s"
proof -
  note inv = ex_invD [OF assms(1)]
  obtain xs st where scan: "st_scan C table (ex_storage s) = (Inr xs, st)"
    "lists_rows xs (st_rows C (ex_storage s) table)" "st_same C (ex_storage s) st" "mem_same (ex_storage s) st"
    using mem_scan [OF inv(2,3)] by blast
  let ?s = "s\<lparr>ex_storage := st\<rparr>"
  have s1: "ex_inv C n ?s" by (rule ex_inv_same [OF assms(1) scan(3,4)])
  have step1: "row_steps C s ?s" by (rule row_steps_read [OF row_steps_refl scan(3)])
  have post: "dml_post C n ?s t \<Longrightarrow> dml_post C n s t" for t
    using row_steps_trans [OF _ step1] row_steps_typed [OF step1] by (auto simp: dml_post_def explicit_txn_def)
  have "wp (sbind (begin_write_txn C) (\<lambda>txn. sbind (sfold (f txn) xs c0) (\<lambda>c.
      sbind (finish_auto_commit_if_needed C) (\<lambda>_. sret (g c))))) (\<lambda>_. dml_post C n ?s)
      (\<lambda>e t. P e \<longrightarrow> dml_post C n ?s t) ?s"
  proof (rule bracket_wp [OF s1 order.refl])
    fix txn t assume t: "ex_inv C n t" "same_tables C ?s t"
    have rows: "st_rows C (ex_storage t) = st_rows C (ex_storage s)"
      using t(2) scan(3) by (simp add: same_tables_def st_same_def)
    show "wp (sfold (f txn) xs c0) (\<lambda>_. changed_rows C n t) (\<lambda>e t'. P e \<longrightarrow> changed_rows C n t t') t"
      by (rule row_loop_wp [OF assms(3) t(1)])
        (use t(2) assms(2) rows scanned_rows [OF scan(2)] in \<open>simp_all add: same_tables_def\<close>)
  qed
  then have "wp (sbind (begin_write_txn C) (\<lambda>txn. sbind (sfold (f txn) xs c0) (\<lambda>c.
      sbind (finish_auto_commit_if_needed C) (\<lambda>_. sret (g c))))) (\<lambda>_. dml_post C n s)
      (\<lambda>e t. P e \<longrightarrow> dml_post C n s t) ?s"
    by (rule wp_mono) (use post in auto)
  then show ?thesis unfolding wp_sbind [of "on_storage (st_scan C table)"] on_state_wp
    by (simp add: wp_Inr [of "st_scan C table", OF scan(1)])
qed

lemma update_row_wp:
  assumes "ex_inv C n t" "map_of (cat_tables (ex_catalog t)) table = Some schema"
    and "st_rows C (ex_storage t) table (fst e) = Some (snd e)"
  shows "wp (update_row C table schema assigns w txn e c) (\<lambda>_ t'. row_steps C t t' \<and> ex_inv C n t'
    \<and> (\<forall>j. j \<noteq> fst e \<longrightarrow> st_rows C (ex_storage t') table j = st_rows C (ex_storage t) table j))
    (\<lambda>_ t'. False \<longrightarrow> changed_rows C n t t') t"
proof -
  have "wp (change_row C table schema assigns None txn (fst e) (snd e)) (\<lambda>_ t'. row_steps C t t' \<and> ex_inv C n t'
      \<and> (\<forall>j. j \<noteq> fst e \<longrightarrow> st_rows C (ex_storage t') table j = st_rows C (ex_storage t) table j)) no_error t"
    by (rule wp_mono [OF change_row_step [OF assms]]) auto
  then show ?thesis unfolding update_row_def using assms(1) row_steps_refl
    by (auto simp: wp_simps split: sum.splits)
qed

lemma delete_row_wp:
  assumes "ex_inv C n t" "map_of (cat_tables (ex_catalog t)) table = Some schema"
    and "st_rows C (ex_storage t) table (fst e) = Some (snd e)"
  shows "wp (delete_row C table schema w txn e c) (\<lambda>_ t'. row_steps C t t' \<and> ex_inv C n t'
    \<and> (\<forall>j. j \<noteq> fst e \<longrightarrow> st_rows C (ex_storage t') table j = st_rows C (ex_storage t) table j))
    (\<lambda>_ t'. True \<longrightarrow> changed_rows C n t t') t"
proof -
  have "wp (remove_row C table schema txn (fst e) (snd e)) (\<lambda>_ t'. row_steps C t t' \<and> ex_inv C n t'
      \<and> (\<forall>j. j \<noteq> fst e \<longrightarrow> st_rows C (ex_storage t') table j = st_rows C (ex_storage t) table j))
      (\<lambda>_. changed_rows C n t) t"
    by (rule wp_mono [OF remove_row_step [OF assms]]) auto
  then show ?thesis unfolding delete_row_def using assms(1) row_steps_refl
    by (auto simp: wp_simps split: sum.splits)
qed

lemma with_table_wp:
  assumes "\<And>schema. map_of (cat_tables (ex_catalog s)) table = Some schema \<Longrightarrow> wp (f schema) Q E s"
    and "E (TableNotFound table) s"
  shows "wp (sbind (\<lambda>s. (get_table (ex_catalog s) table, s)) f) Q E s"
  using assms by (simp add: wp_simps get_table_def split: option.splits)

lemma ex_update_wp: "ex_inv C n s \<Longrightarrow> wp (ex_update C table assigns w) (\<lambda>_. dml_post C n s) no_error s"
  unfolding ex_update_def
  by (rule with_table_wp)
    (rule wp_mono [OF scan_loop_wp [where P = "\<lambda>_. False"]], assumption, assumption, rule update_row_wp, auto)

lemma ex_delete_wp:
  "ex_inv C n s \<Longrightarrow> wp (ex_delete C table w) (\<lambda>_. dml_post C n s) (\<lambda>_. dml_post C n s) s"
  unfolding ex_delete_def
  by (rule with_table_wp)
    (rule wp_mono [OF scan_loop_wp [where P = "\<lambda>_. True"]], assumption, assumption, rule delete_row_wp,
     use dml_post_idle in auto)

fun is_dml :: "statement \<Rightarrow> bool" where
  "is_dml (Insert _) = True"
| "is_dml (Update _ _ _) = True"
| "is_dml (Delete _ _) = True"
| "is_dml _ = False"

text \<open>Refusals that leave the database as an accepted statement would. The two that do not are an UPDATE,
  which takes a row out of the indexes before it checks the new values, and an INSERT of a duplicate key,
  which stores the row before it checks the indexes; an upsert may do either. A ROLLBACK that is refused
  has undone a part of the transaction.\<close>

fun harmless :: "statement \<Rightarrow> moodeng_error \<Rightarrow> bool" where
  "harmless (Insert ins) e = (ins_on ins = None \<and> \<not> duplicate_key e)"
| "harmless (Update _ _ _) e = False"
| "harmless Rollback e = False"
| "harmless _ e = True"

lemma dml_wp:
  assumes "is_dml stmt" "ex_inv C (n + stmt_rows stmt) s"
  shows "wp (execute_statement C L stmt) (\<lambda>_. dml_post C n s) (\<lambda>e t. harmless stmt e \<longrightarrow> dml_post C n s t) s"
proof (cases stmt)
  case (Insert ins)
  show ?thesis
  proof (cases "ins_source ins")
    case None
    then show ?thesis using assms(2) Insert dml_post_idle by (simp add: wp_simps)
  next
    case (Some q)
    then show ?thesis using ex_insert_wp [of C n q s ins] assms(2) Insert by simp
  qed
next
  case (Update t assigns w)
  then show ?thesis using ex_update_wp [of C n s "table_factor_name t" assigns w] assms(2) by simp
next
  case (Delete ts w)
  have "wp (ex_delete C (extract_delete_table ts) w) (\<lambda>_. dml_post C n s) (\<lambda>_. dml_post C n s) s"
    by (rule ex_delete_wp) (use assms(2) Delete in simp)
  then show ?thesis using Delete by (auto elim!: wp_mono)
qed (use assms(1) in simp_all)

subsection \<open>ROLLBACK\<close>

lemma begin_opens:
  assumes "ex_inv C n s" "ex_begin C s = (Inr r, s')"
  shows "ex_inv C n s'" "undo_inv C (ex_vals C s) s'"
  using assms
  by (auto simp: ex_begin_def sbind_def on_txn_def txn_begin_def set_auto_commit_def track_write_txn_start_def
      undo_inv_def explicit_txn_def is_active_def Let_def split: if_splits prod.splits)

lemma room_0: "room s 0"
proof -
  have "unat (x :: u64) < 2 ^ 64" for x using unsigned_less [of x] by simp
  then show ?thesis by (simp add: room_def)
qed

lemma rollback_runs:
  assumes "ex_inv C n s" "undo_inv C V0 s"
  shows "\<exists>s'. ex_rollback C s = (Inr (qr_modified 0 ''ROLLBACK''), s') \<and> ex_inv C 0 s' \<and> ex_vals C s' = V0
    \<and> \<not> tr_active (ex_transaction s') \<and> ex_catalog s' = ex_catalog s
    \<and> index_shape (ex_indexes s') = index_shape (ex_indexes s)"
proof -
  let ?t = "ex_transaction s"
  obtain txn where txn: "tr_txn_id ?t = Some txn" "tr_active ?t"
    using assms(2) by (auto simp: undo_inv_def explicit_txn_def)
  let ?st = "(ex_storage s)\<lparr>st_wal := snd (wal_append (sc_wal C) (WAbort txn) (st_wal (ex_storage s)))\<rparr>"
  have inv: "ex_inv C n (s\<lparr>ex_storage := ?st\<rparr>)" using assms(1) by simp
  have "undo_chain (ex_catalog s) (ex_indexes s) V0 (rev (tr_undo ?t)) (table_vals C ?st)"
    using assms(2) by (simp add: undo_inv_def)
  then obtain p where p: "sfold (\<lambda>u _. apply_undo C (ex_catalog s) u) (rev (tr_undo ?t)) () (?st, ex_indexes s) = (Inr (), p)"
    "tables_agree C (ex_catalog s) p" "mem_only (fst p)" "table_vals C (fst p) = V0"
    "tables_of (fst p) = tables_of ?st" "dom (map_of (snd p)) = dom (map_of (ex_indexes s))"
    "index_shape (snd p) = index_shape (ex_indexes s)"
    using undo_all [of C "ex_catalog s" "(?st, ex_indexes s)" V0 "rev (tr_undo ?t)"] ex_invD(1,3) [OF inv] by auto
  obtain st m where st: "p = (st, m)" by fastforce
  show ?thesis
    using p txn inv room_0 unfolding st
    by (auto simp: ex_rollback_def is_active_def sbind_def on_txn_def txn_rollback_def set_auto_commit_def
        track_write_txn_end_def on_tables_def ex_inv_def Let_def split: prod.splits)
qed

text \<open>Data statements keep the indexes. A successful INSERT, UPDATE or DELETE, inside or outside of a
  transaction, leaves every index of every table covering exactly the rows of its table.\<close>

theorem dml_keeps_agreement:
  assumes "is_dml stmt" and "ex_inv C (n + stmt_rows stmt) s"
    and "execute_statement C L stmt s = (Inr q, s')"
  shows "ex_inv C n s'"
  using wp_run [OF dml_wp [OF assms(1,2)] assms(3)] by (simp add: dml_post_def)

subsection \<open>A concrete database\<close>

definition example_schema :: table_schema where
  "example_schema = \<lparr>ts_name = ''t'', ts_columns = [\<lparr>col_name = ''a'', col_type = TInt8, col_nullable = True,
     col_primary_key = False\<rparr>], ts_indexes = []\<rparr>"

definition example_exec :: exec_state where
  "example_exec = \<lparr>ex_catalog = \<lparr>cat_tables = [(''t'', example_schema)],
       cat_stats = \<lparr>cs_table_count = 1, cs_total_indexes = 0\<rparr>\<rparr>,
     ex_storage = example_storage, ex_indexes = [], ex_active_write_txns = 0, ex_session = session_new\<rparr>"

definition example_delete :: statement where
  "example_delete = Delete [\<lparr>twj_relation = Table [''t''], twj_joins = []\<rparr>] None"

lemma example_exec_inv: "ex_inv example_storage_codecs n example_exec" if "n < 2 ^ 63"
proof -
  have "tables_agree example_storage_codecs (ex_catalog example_exec) (ex_storage example_exec, ex_indexes example_exec)"
    using example_storage_inv
    by (auto simp: tables_agree_def example_exec_def manager_agrees_def example_storage_def split: if_splits)
  then show ?thesis using that
    by (auto simp: ex_inv_def example_exec_def mem_only_def example_storage_def use_paged_def
        storage_options_default_def room_def split: if_splits)
qed

text \<open>The definitions a statement on this database evaluates.\<close>

lemmas example_eval = sbind_def on_txn_def txn_begin_def txn_commit_def session_new_def transaction_default_def
  is_active_def set_auto_commit_def alloc_txn_id_def track_write_txn_start_def track_write_txn_end_def Let_def
  extract_delete_table_def extract_table_name_def last_or_default_def get_table_def on_storage_def st_scan_def
  example_storage_def on_backend_def be_scan_def td_scan_def begin_write_txn_def current_txn_id_def
  delete_row_def row_selected_def remove_row_def record_undo_def on_indexes_def im_remove_row_def
  st_delete_def be_delete_def td_delete_def log_change_def maybe_checkpoint_def should_checkpoint_def
  wal_append_def wal_fresh_def WAL_SYNC_BATCH_def CHECKPOINT_INTERVAL_def word_le_nat_alt
  finish_auto_commit_if_needed_def

definition example_library :: sql_library where
  "example_library = \<lparr>lib_parse_sql = (\<lambda>_. Inl ''syntax error''), lib_show_expr = (\<lambda>_. ''?'')\<rparr>"

theorem dml_keeps_agreement_witness:
  "\<exists>q s'. execute_statement example_storage_codecs example_library example_delete example_exec = (Inr q, s')
    \<and> ex_inv example_storage_codecs 0 s'"
proof -
  have "\<exists>q s'. execute_statement example_storage_codecs example_library example_delete example_exec = (Inr q, s')"
    by (simp add: example_delete_def ex_delete_def example_exec_def example_eval split: prod.splits)
  then obtain q s' where run: "execute_statement example_storage_codecs example_library example_delete example_exec = (Inr q, s')"
    by blast
  have "is_dml example_delete" "ex_inv example_storage_codecs (0 + stmt_rows example_delete) example_exec"
    using example_exec_inv [of 0] by (simp_all add: example_delete_def)
  from dml_keeps_agreement [OF this run] run show ?thesis by blast
qed

end
