(* ===== verification/Statements.thy ===== *)
theory Statements
  imports Execution
begin

text \<open>
  What the statements of \<open>executor.rs\<close> do, seen by a client: SELECT, EXPLAIN and failed reads change
  nothing, SELECT returns the matching rows whatever the plan, UPDATE and DELETE change exactly the
  matching rows, definitions of tables and indexes keep catalog, tables and indexes in agreement, and in
  every state a run of statements reaches, primary keys are unique and rows fit their schema.
\<close>

subsection \<open>Statements that only read\<close>

definition reads :: "storage_codecs \<Rightarrow> exec_state \<Rightarrow> exec_state \<Rightarrow> bool" where
  "reads C s s' \<longleftrightarrow> (\<exists>st. s' = s\<lparr>ex_storage := st\<rparr> \<and> st_same C (ex_storage s) st \<and> mem_same (ex_storage s) st)"

lemma reads_refl [simp, intro]: "st_inv C (ex_storage s) \<Longrightarrow> reads C s s"
  unfolding reads_def by (rule exI [of _ "ex_storage s"]) (simp add: st_same_def mem_same_def)

lemma reads_trans: "reads C s t \<Longrightarrow> reads C t u \<Longrightarrow> reads C s u"
  unfolding reads_def
proof (elim exE conjE)
  fix st st'
  assume "t = s\<lparr>ex_storage := st\<rparr>" "st_same C (ex_storage s) st" "mem_same (ex_storage s) st"
    "u = t\<lparr>ex_storage := st'\<rparr>" "st_same C (ex_storage t) st'" "mem_same (ex_storage t) st'"
  then show "\<exists>st. u = s\<lparr>ex_storage := st\<rparr> \<and> st_same C (ex_storage s) st \<and> mem_same (ex_storage s) st"
    by (intro exI [of _ st']) (auto simp: st_same_def mem_same_def)
qed

lemma reads_frame:
  assumes "reads C s s'"
  shows "ex_catalog s' = ex_catalog s" "ex_indexes s' = ex_indexes s" "ex_session s' = ex_session s"
    "ex_active_write_txns s' = ex_active_write_txns s" "st_rows C (ex_storage s') = st_rows C (ex_storage s)"
    "ex_vals C s' = ex_vals C s"
  using assms table_vals_same by (auto simp: reads_def st_same_def)

lemma reads_inv: "reads C s s' \<Longrightarrow> ex_inv C n s \<Longrightarrow> ex_inv C n s'"
  using ex_inv_same by (auto simp: reads_def)

text \<open>\<open>read_only C f\<close>: on a state in agreement \<open>f\<close> reads, also when it fails.\<close>

definition read_only :: "storage_codecs \<Rightarrow> (moodeng_error, exec_state, 'a) op \<Rightarrow> bool" where
  "read_only C f \<longleftrightarrow> (\<forall>n s. ex_inv C n s \<longrightarrow> reads C s (snd (f s)))"

named_theorems read_only_intros

lemma read_only_basic [read_only_intros]:
  "read_only C (slift r)" "read_only C (sfail e)" "read_only C (sret x)" "read_only C (sgets g)"
  "read_only C (\<lambda>s. (h s, s))"
  by (auto simp: read_only_def ex_invD(2) sgets_def slift_def sret_def sfail_def)

lemma read_only_sbind [read_only_intros]:
  assumes "read_only C f" "\<And>x. read_only C (g x)"
  shows "read_only C (sbind f g)"
  unfolding read_only_def
proof (intro allI impI)
  fix n s assume inv: "ex_inv C n s"
  obtain r t where t: "f s = (r, t)" by fastforce
  have r: "reads C s t" using assms(1) inv t by (fastforce simp: read_only_def)
  then have "reads C t (snd (g x t))" for x using assms(2) [of x] reads_inv [OF r inv] by (auto simp: read_only_def)
  with r t show "reads C s (snd (sbind f g s))" by (auto simp: sbind_def intro: reads_trans split: sum.splits)
qed

lemma read_only_sfold [read_only_intros]:
  assumes "\<And>x acc. read_only C (f x acc)"
  shows "read_only C (sfold f xs acc)"
proof (induction xs arbitrary: acc)
  case Nil
  then show ?case by (simp add: read_only_basic)
next
  case (Cons x xs)
  then show ?case using read_only_sbind [of C "f x acc" "sfold f xs", OF assms] by simp
qed

lemma read_only_scan [read_only_intros]: "read_only C (on_storage (st_scan C table))"
  unfolding read_only_def
proof (intro allI impI)
  fix n s assume "ex_inv C n s"
  then obtain xs st where "st_scan C table (ex_storage s) = (Inr xs, st)" "st_same C (ex_storage s) st"
    "mem_same (ex_storage s) st" using mem_scan [OF ex_invD(2,3)] by blast
  then show "reads C s (snd (on_storage (st_scan C table) s))" by (auto simp: on_storage_def reads_def)
qed

lemma fetch_missing:
  assumes "table \<notin> tables_of s"
  shows "snd (fetch_by_ids C table ids s) = s"
  using assms by (simp add: fetch_by_ids_def domIff)

lemma read_only_fetch [read_only_intros]: "read_only C (on_storage (fetch_by_ids C table ids))"
  unfolding read_only_def
proof (intro allI impI)
  fix n s assume inv: "ex_inv C n s"
  show "reads C s (snd (on_storage (fetch_by_ids C table ids) s))"
  proof (cases "table \<in> tables_of (ex_storage s)")
    case True
    then show ?thesis using mem_fetch [OF ex_invD(2,3) [OF inv] True, of ids]
      by (auto simp: on_storage_def reads_def)
  next
    case False
    then show ?thesis using fetch_missing [OF False, of C ids] ex_invD(2) [OF inv]
      by (auto simp: on_storage_def reads_def st_same_def mem_same_def split: prod.splits)
  qed
qed

lemma read_only_run_plan [read_only_intros]: "read_only C (\<lambda>s. run_plan C table (p s) s)"
proof -
  have "reads C s (snd (run_plan C table plan s))" if "ex_inv C n s" for n s plan
    using that read_only_scan [of C table] read_only_fetch [of C table]
    by (cases plan) (auto simp: run_plan_def read_only_def)
  then show ?thesis by (auto simp: read_only_def)
qed

lemma read_only_join [read_only_intros]: "read_only C (join_step C j acc)"
  unfolding join_step_def
  by (intro read_only_intros) (auto split: prod.splits intro!: read_only_intros simp: Let_def)

lemma read_only_select: "read_only C (ex_select C L q)"
proof -
  have "read_only C (select_join C L q sel f)" for sel f
    unfolding select_join_def Let_def
    by (intro read_only_intros) (auto split: prod.splits intro!: read_only_intros)
  then show ?thesis unfolding ex_select_def Let_def
    by (auto split: set_expr.splits list.splits intro!: read_only_intros)
qed

lemma read_only_explain: "read_only C (explain stmt)"
  unfolding explain_def Let_def
  by (auto split: statement.splits set_expr.splits list.splits intro!: read_only_intros)

subsection \<open>The rows of a SELECT\<close>

text \<open>The ids of the rows a condition keeps.\<close>

definition matching :: "expr option \<Rightarrow> table_schema \<Rightarrow> (u64 \<rightharpoonup> row) \<Rightarrow> u64 set" where
  "matching w schema R = {i. \<exists>r. R i = Some r \<and> row_selected w schema r = Inr True}"

lemma filter_rows_kept:
  assumes "\<forall>r \<in> set rows. \<exists>b. (case w of None \<Rightarrow> Inr True | Some e \<Rightarrow> eval_where e (row_values r) names) = Inr b"
  shows "filter_rows w names rows =
    Inr (filter (\<lambda>r. (case w of None \<Rightarrow> Inr True | Some e \<Rightarrow> eval_where e (row_values r) names) = Inr True) rows)"
  using assms by (induction rows) (auto split: option.splits)

lemma filter_rows_eq:
  assumes "\<forall>r \<in> set rows. \<exists>b. row_selected w schema r = Inr b"
  shows "filter_rows w (schema_names schema) rows = Inr (filter (\<lambda>r. row_selected w schema r = Inr True) rows)"
  using assms unfolding row_selected_def by (rule filter_rows_kept)

lemma map_snd_rows_at: "\<forall>i \<in> set ids. R i \<noteq> None \<Longrightarrow> map snd (rows_at R ids) = map (the \<circ> R) ids"
  by (induction ids) (auto simp: rows_at_def map_filter_simps split: option.splits)

lemma map_snd_scan:
  assumes "lists_rows xs R"
  shows "map snd xs = map (the \<circ> R) (map fst xs)" "set (map fst xs) = dom R" "distinct (map fst xs)"
proof -
  have R: "R (fst e) = Some (snd e)" if "e \<in> set xs" for e using scanned_rows(2) [OF assms that] .
  then show "map snd xs = map (the \<circ> R) (map fst xs)" by simp
  show "set (map fst xs) = dom R" using assms by (simp add: lists_rows_def dom_map_of_conv_image_fst [symmetric])
  show "distinct (map fst xs)" by (rule scanned_rows(1) [OF assms])
qed

lemma run_plan_rows:
  assumes "ex_inv C n s" "map_of (cat_tables (ex_catalog s)) table = Some schema"
    and "plan_scan table w (ex_indexes s) (schema_names schema) = FullScan \<or> exact_plan w"
  shows "\<exists>xs ids s'. run_plan C table (plan_scan table w (ex_indexes s) (schema_names schema)) s = (Inr xs, s')
    \<and> map snd xs = map (the \<circ> st_rows C (ex_storage s) table) ids \<and> distinct ids
    \<and> set ids \<subseteq> dom (st_rows C (ex_storage s) table) \<and> matching w schema (st_rows C (ex_storage s) table) \<subseteq> set ids"
proof -
  note inv = ex_invD [OF assms(1)]
  let ?R = "st_rows C (ex_storage s) table"
  show ?thesis
  proof (cases "plan_scan table w (ex_indexes s) (schema_names schema)")
    case FullScan
    obtain xs st where "st_scan C table (ex_storage s) = (Inr xs, st)" "lists_rows xs ?R"
      using mem_scan [OF inv(2,3)] by blast
    with FullScan map_snd_scan [OF this(2)] show ?thesis
      by (intro exI [of _ xs] exI [of _ "map fst xs"]) (auto simp: run_plan_def on_storage_def matching_def)
  next
    case (IndexLookup name key)
    then obtain e where e: "w = Some e" using plan_index by metis
    let ?ids = "im_lookup (ex_indexes s) table name key"
    have "exact_plan (Some e)" using assms(3) IndexLookup e by simp
    note look = index_lookup_complete [OF IndexLookup [unfolded e] inv(6) [OF assms(2)] this]
    have ids: "\<forall>i \<in> set ?ids. ?R i \<noteq> None" using look(2) by (auto simp: table_vals_def row_vals_def)
    have "matching w schema ?R \<subseteq> set ?ids"
      using look(3) e by (auto simp: matching_def row_selected_def table_vals_def row_vals_def)
    moreover obtain st where "fetch_by_ids C table ?ids (ex_storage s) = (Inr (rows_at ?R ?ids), st)"
      using mem_fetch [OF inv(2,3) inv(5) [OF assms(2)]] by blast
    ultimately show ?thesis using IndexLookup map_snd_rows_at [OF ids] look(1) ids
      by (intro exI [of _ "rows_at ?R ?ids"] exI [of _ ?ids]) (auto simp: run_plan_def on_storage_def)
  qed
qed

text \<open>C4: SELECT returns the matching rows. On a database with its tables in memory whose tables and indexes
  agree, a SELECT from one table passes to grouping, ordering, limits and projection exactly the rows of the
  table on which the WHERE clause holds, each once, and it changes no row, no index and no transaction. It is
  so for every scan of the table, and for every lookup in an index where the condition compares an undotted
  column with a literal that is not a float; the WHERE clause can be evaluated on every row.\<close>

theorem select_returns_matching_rows:
  assumes "ex_inv C n s" and "q_body q = Select sel" and "sel_from sel = f # fs" and "twj_joins f = []"
    and "table_factor_name (twj_relation f) = table"
    and "map_of (cat_tables (ex_catalog s)) table = Some schema"
    and "plan_scan table (sel_selection sel) (ex_indexes s) (schema_names schema) = FullScan \<or> exact_plan (sel_selection sel)"
    and "\<forall>i r. st_rows C (ex_storage s) table i = Some r \<longrightarrow> (\<exists>b. row_selected (sel_selection sel) schema r = Inr b)"
  shows "\<exists>ids s'. distinct ids \<and> set ids = matching (sel_selection sel) schema (st_rows C (ex_storage s) table)
    \<and> execute_statement C L (Query q) s =
       (finalize_select L q sel
          (if has_wildcard (sel_projection sel) then schema_names schema
           else select_items_to_columns (lib_show_expr L) (sel_projection sel))
          (map (the \<circ> st_rows C (ex_storage s) table) ids) (schema_names schema), s')
    \<and> ex_inv C n s' \<and> ex_vals C s' = ex_vals C s \<and> ex_catalog s' = ex_catalog s
    \<and> ex_indexes s' = ex_indexes s \<and> ex_session s' = ex_session s"
proof -
  let ?R = "st_rows C (ex_storage s) table" and ?w = "sel_selection sel"
  let ?P = "\<lambda>r. row_selected ?w schema r = Inr True"
  obtain xs ids s' where run: "run_plan C table (plan_scan table ?w (ex_indexes s) (schema_names schema)) s = (Inr xs, s')"
    "map snd xs = map (the \<circ> ?R) ids" "distinct ids" "set ids \<subseteq> dom ?R" "matching ?w schema ?R \<subseteq> set ids"
    using run_plan_rows [OF assms(1,6,7)] by blast
  have keep: "filter_rows ?w (schema_names schema) (map snd xs) = Inr (filter ?P (map snd xs))"
  proof (rule filter_rows_eq, rule ballI)
    fix r assume "r \<in> set (map snd xs)"
    then obtain i where "i \<in> set ids" "r = the (?R i)" unfolding run(2) by auto
    then have "?R i = Some r" using run(4) by auto
    then show "\<exists>b. row_selected ?w schema r = Inr b" using assms(8) by blast
  qed
  let ?ids = "filter (?P \<circ> (the \<circ> ?R)) ids"
  have "set ?ids = matching ?w schema ?R" using run(4,5) by (auto simp: matching_def dom_def)
  moreover have "filter ?P (map snd xs) = map (the \<circ> ?R) ?ids" unfolding run(2) filter_map ..
  moreover have sel: "execute_statement C L (Query q) s = (finalize_select L q sel
          (if has_wildcard (sel_projection sel) then schema_names schema
           else select_items_to_columns (lib_show_expr L) (sel_projection sel))
          (filter ?P (map snd xs)) (schema_names schema), s')"
    using run(1) keep assms(2-6) by (simp add: ex_select_def Let_def sbind_def get_table_def slift_def)
  moreover have "reads C s s'"
    using read_only_select [of C L q] assms(1) sel by (fastforce simp: read_only_def)
  ultimately show ?thesis using run(3) assms(1) reads_frame [of C s s'] reads_inv [of C s s' n]
    by (intro exI [of _ ?ids] exI [of _ s']) auto
qed

subsection \<open>The rows UPDATE and DELETE change\<close>

text \<open>The rows \<open>M\<close> are replaced as \<open>eff\<close> says, the others stay.\<close>

definition changes :: "(row \<Rightarrow> row option \<Rightarrow> bool) \<Rightarrow> u64 set \<Rightarrow> (u64 \<rightharpoonup> row) \<Rightarrow> (u64 \<rightharpoonup> row) \<Rightarrow> bool" where
  "changes eff M R R' \<longleftrightarrow> (\<forall>i \<in> M. eff (the (R i)) (R' i)) \<and> (\<forall>i. i \<notin> M \<longrightarrow> R' i = R i)"

lemma changes_step:
  assumes "changes eff M R R'" "i \<notin> M" "R i = Some r" "eff r x"
  shows "changes eff (insert i M) R (R'(i := x))"
  using assms by (auto simp: changes_def)

lemma changes_empty [simp]: "changes eff {} R R' \<longleftrightarrow> R' = R"
  by (auto simp: changes_def)

text \<open>One round of the loop of an UPDATE or DELETE.\<close>

definition round_effect :: "(row \<Rightarrow> row option \<Rightarrow> bool) \<Rightarrow> expr option \<Rightarrow> table_schema \<Rightarrow> string \<Rightarrow>
    u64 \<times> row \<Rightarrow> u64 \<Rightarrow> (string \<Rightarrow> u64 \<rightharpoonup> row) \<Rightarrow> u64 \<Rightarrow> (string \<Rightarrow> u64 \<rightharpoonup> row) \<Rightarrow> bool" where
  "round_effect eff w schema table e c T c' T' \<longleftrightarrow>
     (row_selected w schema (snd e) = Inr True \<and> c' = c + 1
       \<and> (\<exists>x. eff (snd e) x \<and> T' = T(table := (T table)(fst e := x))))
     \<or> (row_selected w schema (snd e) = Inr False \<and> c' = c \<and> T' = T)"

abbreviation ex_rows :: "storage_codecs \<Rightarrow> exec_state \<Rightarrow> string \<Rightarrow> u64 \<rightharpoonup> row" where
  "ex_rows C s \<equiv> st_rows C (ex_storage s)"

abbreviation loop_body_ok :: "storage_codecs \<Rightarrow> nat \<Rightarrow> (row \<Rightarrow> row option \<Rightarrow> bool) \<Rightarrow> expr option \<Rightarrow> table_schema \<Rightarrow>
    string \<Rightarrow> (u64 \<times> row \<Rightarrow> u64 \<Rightarrow> (moodeng_error, exec_state, u64) op) \<Rightarrow> bool" where
  "loop_body_ok C n eff w schema table f \<equiv> \<forall>e c t. ex_inv C n t \<longrightarrow>
     map_of (cat_tables (ex_catalog t)) table = Some schema \<longrightarrow> ex_rows C t table (fst e) = Some (snd e) \<longrightarrow>
     wp (f e c) (\<lambda>c' t'. ex_inv C n t' \<and> ex_catalog t' = ex_catalog t
       \<and> round_effect eff w schema table e c (ex_rows C t) c' (ex_rows C t')) no_error t"

lemma update_row_effect:
  "loop_body_ok C n (\<lambda>r x. \<exists>r'. x = Some r' \<and> assigned schema assigns None r r') w schema table
    (update_row C table schema assigns w txn)"
proof (intro allI impI)
  fix e c t
  assume t: "ex_inv C n t" "map_of (cat_tables (ex_catalog t)) table = Some schema"
    "ex_rows C t table (fst e) = Some (snd e)"
  let ?eff = "\<lambda>r x. \<exists>r'. x = Some r' \<and> assigned schema assigns None r r'"
  have "wp (change_row C table schema assigns None txn (fst e) (snd e)) (\<lambda>_ t'. ex_inv C n t' \<and> ex_catalog t' = ex_catalog t
      \<and> (\<exists>x. ?eff (snd e) x \<and> ex_rows C t' = (ex_rows C t)(table := (ex_rows C t table)(fst e := x)))) no_error t"
    by (rule wp_mono [OF change_row_step [OF t]]) (use row_steps_catalog in blast)+
  then show "wp (update_row C table schema assigns w txn e c) (\<lambda>c' t'. ex_inv C n t' \<and> ex_catalog t' = ex_catalog t
      \<and> round_effect ?eff w schema table e c (ex_rows C t) c' (ex_rows C t')) no_error t"
    unfolding update_row_def round_effect_def using t(1) by (auto simp: wp_simps split: sum.splits)
qed

lemma delete_row_effect:
  "loop_body_ok C n (\<lambda>r x. x = None) w schema table (delete_row C table schema w txn)"
proof (intro allI impI)
  fix e c t
  assume t: "ex_inv C n t" "map_of (cat_tables (ex_catalog t)) table = Some schema"
    "ex_rows C t table (fst e) = Some (snd e)"
  have "wp (remove_row C table schema txn (fst e) (snd e)) (\<lambda>_ t'. ex_inv C n t' \<and> ex_catalog t' = ex_catalog t
      \<and> ex_rows C t' = (ex_rows C t)(table := (ex_rows C t table)(fst e := None))) no_error t"
    by (rule wp_mono [OF remove_row_step [OF t]]) (use row_steps_catalog in blast)+
  then show "wp (delete_row C table schema w txn e c) (\<lambda>c' t'. ex_inv C n t' \<and> ex_catalog t' = ex_catalog t
      \<and> round_effect (\<lambda>r x. x = None) w schema table e c (ex_rows C t) c' (ex_rows C t')) no_error t"
    unfolding delete_row_def round_effect_def using t(1) by (auto simp: wp_simps split: sum.splits)
qed

text \<open>The whole loop: what is left of the scan is still to do.\<close>

definition loop_done :: "(row \<Rightarrow> row option \<Rightarrow> bool) \<Rightarrow> u64 set \<Rightarrow> string \<Rightarrow> (string \<Rightarrow> u64 \<rightharpoonup> row) \<Rightarrow>
    u64 \<Rightarrow> (string \<Rightarrow> u64 \<rightharpoonup> row) \<Rightarrow> bool" where
  "loop_done eff M table T c T' \<longleftrightarrow> finite M \<and> c = word_of_nat (card M) \<and> changes eff M (T table) (T' table)
     \<and> (\<forall>t. t \<noteq> table \<longrightarrow> T' t = T t)"

lemma loop_done_round:
  assumes "loop_done eff (matching w schema (T table) - insert (fst e) F) table T c T'" "fst e \<notin> F"
    and "T table (fst e) = Some (snd e)" "round_effect eff w schema table e c T' c' T''"
  shows "loop_done eff (matching w schema (T table) - F) table T c' T''"
proof -
  let ?M = "matching w schema (T table)"
  have mem: "fst e \<in> ?M \<longleftrightarrow> row_selected w schema (snd e) = Inr True" using assms(3) by (auto simp: matching_def)
  show ?thesis
  proof (cases "row_selected w schema (snd e) = Inr True")
    case True
    then have M: "?M - F = insert (fst e) (?M - insert (fst e) F)" using mem assms(2) by auto
    from True assms(4) obtain x where x: "eff (snd e) x" "T'' = T'(table := (T' table)(fst e := x))" "c' = c + 1"
      by (auto simp: round_effect_def)
    have "changes eff (?M - F) (T table) (T'' table)"
      unfolding M using changes_step [where i = "fst e" and r = "snd e" and x = x] assms(1,3) x(1,2)
      by (simp add: loop_done_def)
    then show ?thesis using assms(1) x(2,3) unfolding M by (simp add: loop_done_def)
  next
    case False
    then have "?M - F = ?M - insert (fst e) F" using mem by auto
    then show ?thesis using assms(1,4) False by (auto simp: round_effect_def)
  qed
qed

lemma effect_loop_wp:
  assumes "loop_body_ok C n eff w schema table f" "ex_inv C n s"
    and "map_of (cat_tables (ex_catalog s)) table = Some schema" "lists_rows xs (ex_rows C s table)"
  shows "wp (sfold f xs 0) (\<lambda>c t. loop_done eff (matching w schema (ex_rows C s table)) table (ex_rows C s) c (ex_rows C t)
    \<and> ex_inv C n t) no_error s"
proof -
  let ?R = "ex_rows C s table" and ?M = "matching w schema (ex_rows C s table)"
  let ?I = "\<lambda>rest (c :: u64) t. ex_inv C n t \<and> ex_catalog t = ex_catalog s \<and> distinct (map fst rest)
    \<and> (\<forall>e \<in> set rest. ?R (fst e) = Some (snd e))
    \<and> loop_done eff (?M - fst ` set rest) table (ex_rows C s) c (ex_rows C t)"
  have M: "?M \<subseteq> fst ` set xs" using map_snd_scan(2) [OF assms(4)] by (auto simp: matching_def dom_def)
  have "wp (sfold f xs 0) (?I []) no_error s"
  proof (rule wp_sfold [where I = ?I])
    have empty: "?M - fst ` set xs = {}" using M by blast
    have "loop_done eff (?M - fst ` set xs) table (ex_rows C s) 0 (ex_rows C s)"
      unfolding empty by (simp add: loop_done_def)
    then show "?I xs 0 s" using assms(2) scanned_rows [OF assms(4)] by blast
    fix e rest and c :: u64 and t assume I: "?I (e # rest) c t"
    have ne: "fst e \<notin> fst ` set rest" using I by simp
    have e: "?R (fst e) = Some (snd e)" using I by simp
    have "ex_rows C t table (fst e) = Some (snd e)"
      using I e by (auto simp: loop_done_def changes_def)
    then have "wp (f e c) (\<lambda>c' t'. ex_inv C n t' \<and> ex_catalog t' = ex_catalog t
       \<and> round_effect eff w schema table e c (ex_rows C t) c' (ex_rows C t')) no_error t"
      using assms(1) [rule_format, where t = t and e = e and c = c] assms(3) I by simp
    then show "wp (f e c) (?I rest) no_error t"
      by (rule wp_mono) (use I loop_done_round [where T = "ex_rows C s", OF _ ne e] in auto)
  qed
  then show ?thesis by (rule wp_mono) auto
qed

lemma scan_effect_wp:
  assumes "\<And>txn. loop_body_ok C n eff w schema table (f txn)" "ex_inv C n s"
    and "map_of (cat_tables (ex_catalog s)) table = Some schema"
  shows "wp (sbind (on_storage (st_scan C table)) (\<lambda>all_rows. sbind (begin_write_txn C) (\<lambda>txn.
      sbind (sfold (f txn) all_rows 0) (\<lambda>c. sbind (finish_auto_commit_if_needed C) (\<lambda>_. sret (g c))))))
    (\<lambda>q t. \<exists>c. q = g c \<and> loop_done eff (matching w schema (ex_rows C s table)) table (ex_rows C s) c (ex_rows C t))
    no_error s"
proof -
  let ?post = "\<lambda>c t. loop_done eff (matching w schema (ex_rows C s table)) table (ex_rows C s) c (ex_rows C t)"
  obtain xs st where scan: "st_scan C table (ex_storage s) = (Inr xs, st)" "lists_rows xs (ex_rows C s table)"
    "st_same C (ex_storage s) st" "mem_same (ex_storage s) st"
    using mem_scan [OF ex_invD(2,3) [OF assms(2)]] by blast
  let ?s = "s\<lparr>ex_storage := st\<rparr>"
  have s1: "ex_inv C n ?s" by (rule ex_inv_same [OF assms(2) scan(3,4)])
  have fin: "wp (finish_auto_commit_if_needed C) (\<lambda>_ t. \<exists>d. g c = g d \<and> ?post d t) no_error t"
    if "?post c t" "ex_inv C n t" for c t
    by (rule wp_mono [OF finish_auto_commit_wp [OF that(2)]])
      (use that(1) in \<open>auto simp: same_tables_def\<close>)
  have loop: "wp (sfold (f txn) xs 0) (\<lambda>c t'. ?post c t' \<and> ex_inv C n t') no_error t"
    if t: "ex_inv C n t" "same_tables C ?s t" for txn t
  proof -
    have rows: "ex_rows C t = ex_rows C s" "map_of (cat_tables (ex_catalog t)) table = Some schema"
      using t(2) scan(3) assms(3) by (simp_all add: same_tables_def st_same_def)
    show ?thesis using effect_loop_wp [OF assms(1) t(1) rows(2), of xs] scan(2) rows(1) by simp
  qed
  have "wp (sbind (begin_write_txn C) (\<lambda>txn. sbind (sfold (f txn) xs 0) (\<lambda>c.
      sbind (finish_auto_commit_if_needed C) (\<lambda>_. sret (g c))))) (\<lambda>q t. \<exists>c. q = g c \<and> ?post c t) no_error ?s"
    unfolding wp_simps
    by (rule wp_mono [OF begin_write_txn_wp [OF s1]]) (blast intro: wp_mono [OF loop] fin, simp)
  then show ?thesis unfolding wp_sbind [of "on_storage (st_scan C table)"] on_state_wp
    by (simp add: wp_Inr [of "st_scan C table", OF scan(1)])
qed

text \<open>C10: DELETE removes exactly the matching rows. A DELETE that succeeds leaves in its table the rows on
  which the WHERE clause does not hold, unchanged, touches no other table, and reports how many rows it
  removed.\<close>

theorem delete_removes_matching:
  assumes "ex_inv C n s" and "map_of (cat_tables (ex_catalog s)) (extract_delete_table tables) = Some schema"
    and "execute_statement C L (Delete tables w) s = (Inr q, s')"
  shows "ex_rows C s' = (ex_rows C s)(extract_delete_table tables :=
      ex_rows C s (extract_delete_table tables) |` (- matching w schema (ex_rows C s (extract_delete_table tables))))
    \<and> qr_rows_affected q = word_of_nat (card (matching w schema (ex_rows C s (extract_delete_table tables))))"
proof -
  let ?t = "extract_delete_table tables"
  have "wp (ex_delete C ?t w) (\<lambda>q t. \<exists>c. q = qr_modified c (''DELETE '' @ show_nat (unat c))
      \<and> loop_done (\<lambda>r x. x = None) (matching w schema (ex_rows C s ?t)) ?t (ex_rows C s) c (ex_rows C t)) no_error s"
    unfolding ex_delete_def
  proof (rule with_table_wp)
    fix schema' assume "map_of (cat_tables (ex_catalog s)) ?t = Some schema'"
    then have "schema' = schema" using assms(2) by simp
    then show "wp (sbind (on_storage (st_scan C ?t)) (\<lambda>all_rows. sbind (begin_write_txn C) (\<lambda>txn.
        sbind (sfold (delete_row C ?t schema' w txn) all_rows 0) (\<lambda>c. sbind (finish_auto_commit_if_needed C)
          (\<lambda>_. sret (qr_modified c (''DELETE '' @ show_nat (unat c)))))))) (\<lambda>q t. \<exists>c. q = qr_modified c (''DELETE '' @ show_nat (unat c))
        \<and> loop_done (\<lambda>r x. x = None) (matching w schema (ex_rows C s ?t)) ?t (ex_rows C s) c (ex_rows C t)) no_error s"
      using scan_effect_wp [OF delete_row_effect assms(1,2), of w] by simp
  qed simp
  from wp_run [OF this] assms(3) obtain c where c: "q = qr_modified c (''DELETE '' @ show_nat (unat c))"
    "loop_done (\<lambda>r x. x = None) (matching w schema (ex_rows C s ?t)) ?t (ex_rows C s) c (ex_rows C s')"
    by auto
  then show ?thesis
    by (auto simp: loop_done_def changes_def fun_eq_iff restrict_map_def qr_modified_def)
qed

text \<open>C9: UPDATE changes exactly the matching rows. An UPDATE that succeeds replaces every row on which the
  WHERE clause holds by its values after the assignments, which satisfy the NOT NULL constraints, under the
  next version, keeps every other row of every table, and reports how many rows it changed.\<close>

theorem update_changes_matching:
  assumes "ex_inv C n s" and "map_of (cat_tables (ex_catalog s)) (table_factor_name table) = Some schema"
    and "execute_statement C L (Update table assigns w) s = (Inr q, s')"
  shows "(\<forall>t. t \<noteq> table_factor_name table \<longrightarrow> ex_rows C s' t = ex_rows C s t)
    \<and> (\<forall>i r. ex_rows C s (table_factor_name table) i = Some r \<longrightarrow>
        (if i \<in> matching w schema (ex_rows C s (table_factor_name table))
         then \<exists>vals. apply_assignments schema None assigns (row_values r) = Inr vals \<and> validate_row schema vals = Inr ()
           \<and> ex_rows C s' (table_factor_name table) i = Some (r\<lparr>row_values := vals, row_version := row_version r + 1\<rparr>)
         else ex_rows C s' (table_factor_name table) i = Some r))
    \<and> dom (ex_rows C s' (table_factor_name table)) = dom (ex_rows C s (table_factor_name table))
    \<and> qr_rows_affected q = word_of_nat (card (matching w schema (ex_rows C s (table_factor_name table))))"
proof -
  let ?t = "table_factor_name table" and ?eff = "\<lambda>r x. \<exists>r'. x = Some r' \<and> assigned schema assigns None r r'"
  let ?M = "matching w schema (ex_rows C s ?t)"
  have "wp (ex_update C ?t assigns w) (\<lambda>q t. \<exists>c. q = qr_modified c (''UPDATE '' @ show_nat (unat c))
      \<and> loop_done ?eff ?M ?t (ex_rows C s) c (ex_rows C t)) no_error s"
    unfolding ex_update_def
  proof (rule with_table_wp)
    fix schema' assume "map_of (cat_tables (ex_catalog s)) ?t = Some schema'"
    then have "schema' = schema" using assms(2) by simp
    then show "wp (sbind (on_storage (st_scan C ?t)) (\<lambda>all_rows. sbind (begin_write_txn C) (\<lambda>txn.
        sbind (sfold (update_row C ?t schema' assigns w txn) all_rows 0) (\<lambda>c. sbind (finish_auto_commit_if_needed C)
          (\<lambda>_. sret (qr_modified c (''UPDATE '' @ show_nat (unat c)))))))) (\<lambda>q t. \<exists>c. q = qr_modified c (''UPDATE '' @ show_nat (unat c))
        \<and> loop_done ?eff ?M ?t (ex_rows C s) c (ex_rows C t)) no_error s"
      using scan_effect_wp [OF update_row_effect assms(1,2), of assigns w] by simp
  qed simp
  from wp_run [OF this] assms(3) obtain c where c: "q = qr_modified c (''UPDATE '' @ show_nat (unat c))"
    "loop_done ?eff ?M ?t (ex_rows C s) c (ex_rows C s')"
    by auto
  have dom: "dom (ex_rows C s' ?t) = dom (ex_rows C s ?t)"
  proof (rule set_eqI)
    fix i
    have "i \<in> ?M \<Longrightarrow> i \<in> dom (ex_rows C s ?t) \<and> i \<in> dom (ex_rows C s' ?t)"
      using c(2) by (fastforce simp: loop_done_def changes_def matching_def)
    moreover have "i \<notin> ?M \<Longrightarrow> ex_rows C s' ?t i = ex_rows C s ?t i"
      using c(2) by (simp add: loop_done_def changes_def)
    ultimately show "i \<in> dom (ex_rows C s' ?t) \<longleftrightarrow> i \<in> dom (ex_rows C s ?t)"
      by (cases "i \<in> ?M") (simp_all add: domIff)
  qed
  have "if i \<in> ?M then \<exists>vals. apply_assignments schema None assigns (row_values r) = Inr vals \<and> validate_row schema vals = Inr ()
      \<and> ex_rows C s' ?t i = Some (r\<lparr>row_values := vals, row_version := row_version r + 1\<rparr>)
    else ex_rows C s' ?t i = Some r" if "ex_rows C s ?t i = Some r" for i r
    using c(2) that by (auto simp: loop_done_def changes_def assigned_def)
  then show ?thesis using c dom by (auto simp: loop_done_def qr_modified_def)
qed

subsection \<open>Concrete statements\<close>

definition example_where :: expr where
  "example_where = BinaryOp (Identifier ''a'') Eq (ValueE (Number ''5'' False))"

definition example_sel :: select where
  "example_sel = \<lparr>sel_projection = [Wildcard], sel_from = [\<lparr>twj_relation = Table [''t''], twj_joins = []\<rparr>],
     sel_selection = Some example_where, sel_group_by = GroupByExprs []\<rparr>"

definition example_query :: query where
  "example_query = \<lparr>q_body = Select example_sel, q_order_by = None, q_limit = None, q_offset = None\<rparr>"

definition example_assign :: "assignment list" where
  "example_assign = [\<lparr>as_target = ColumnName [''a''], as_value = ValueE (Number ''6'' False)\<rparr>]"

lemma example_exec_table: "map_of (cat_tables (ex_catalog example_exec)) ''t'' = Some example_schema"
  by (simp add: example_exec_def)

lemma example_exec_rows: "ex_rows example_storage_codecs example_exec ''t'' = [1 \<mapsto> row_new [Int8 5]]"
  by (simp add: example_exec_def st_rows_def example_storage_def fun_eq_iff)

lemma example_selected: "row_selected (Some example_where) example_schema (row_new [Int8 5]) = Inr True"
  by code_simp

lemma example_matching: "matching (Some example_where) example_schema [1 \<mapsto> row_new [Int8 5]] = {1}"
  using example_selected by (auto simp: matching_def split: if_splits)

text \<open>The same database with a unique index on its table.\<close>

definition example_dup :: exec_state where
  "example_dup = example_exec\<lparr>ex_indexes := [(''t'', [(''i'', example_index)])]\<rparr>"

lemma example_dup_inv: "ex_inv example_storage_codecs 1 example_dup"
proof -
  have "table_vals example_storage_codecs example_storage ''t'' = example_rows"
    by (auto simp: table_vals_def st_rows_def example_storage_def row_vals_def example_rows_def row_new_def fun_eq_iff)
  then have "tables_agree example_storage_codecs (ex_catalog example_dup) (ex_storage example_dup, ex_indexes example_dup)"
    using example_storage_inv example_manager
    by (auto simp: tables_agree_def example_dup_def example_exec_def example_schema_def example_storage_def split: if_splits)
  then show ?thesis using example_exec_inv [of 1]
    by (auto simp: ex_inv_def example_dup_def example_exec_def)
qed

lemma example_dup_table: "map_of (cat_tables (ex_catalog example_dup)) ''t'' = Some example_schema"
  using example_exec_table by (simp add: example_dup_def)

lemma example_dup_rows: "ex_rows example_storage_codecs example_dup ''t'' = [1 \<mapsto> row_new [Int8 5]]"
  using example_exec_rows by (simp add: example_dup_def)

theorem select_returns_matching_rows_witness:
  "plan_scan ''t'' (Some example_where) (ex_indexes example_dup) [''a''] = IndexLookup ''i'' [Int8 5]
   \<and> (\<exists>s'. execute_statement example_storage_codecs example_library (Query example_query) example_dup
     = (Inr (qr_select [''a''] [row_new [Int8 5]]), s'))"
proof -
  have lit: "from_sql_literal (Number ''5'' False) = Int8 5" by code_simp
  have lookup: "plan_scan ''t'' (Some example_where) (ex_indexes example_dup) [''a''] = IndexLookup ''i'' [Int8 5]" by code_simp
  have plan: "exact_plan (Some example_where)" by (simp add: exact_plan_def example_where_def lit del: from_sql_literal.simps)
  have fin: "finalize_select example_library example_query example_sel [''a''] [row_new [Int8 5]] [''a''] =
      Inr (qr_select [''a''] [row_new [Int8 5]])" by code_simp
  have q: "q_body example_query = Select example_sel" by (simp add: example_query_def)
  have from_t: "sel_from example_sel = \<lparr>twj_relation = Table [''t''], twj_joins = []\<rparr> # []" by (simp add: example_sel_def)
  have rows: "\<forall>i r. ex_rows example_storage_codecs example_dup ''t'' i = Some r \<longrightarrow>
      (\<exists>b. row_selected (sel_selection example_sel) example_schema r = Inr b)"
    using example_selected by (auto simp: example_dup_rows example_sel_def)
  from select_returns_matching_rows [OF example_dup_inv q from_t _ _ example_dup_table _ rows, of example_library]
  obtain ids s' where s': "distinct ids" "set ids = {1}"
    "execute_statement example_storage_codecs example_library (Query example_query) example_dup =
      (finalize_select example_library example_query example_sel
          (if has_wildcard (sel_projection example_sel) then schema_names example_schema
           else select_items_to_columns (lib_show_expr example_library) (sel_projection example_sel))
          (map (the \<circ> ex_rows example_storage_codecs example_dup ''t'') ids) (schema_names example_schema), s')"
    using plan example_matching
    by (auto simp: example_sel_def example_dup_rows extract_table_name_def last_or_default_def)
  have "ids = [1]" using s'(1,2) by (metis distinct.simps(2) distinct_singleton empty_iff insert_iff list.exhaust list.set_intros(1) list.set_intros(2) list.set(1))
  moreover have "has_wildcard (sel_projection example_sel)" "schema_names example_schema = [''a'']"
    by (simp_all add: example_sel_def has_wildcard_def example_schema_def)
  ultimately show ?thesis using lookup s'(3) fin by (auto simp: example_dup_rows)
qed

theorem delete_removes_matching_witness:
  "\<exists>q s'. execute_statement example_storage_codecs example_library example_delete example_exec = (Inr q, s')
    \<and> ex_rows example_storage_codecs s' ''t'' = Map.empty \<and> qr_rows_affected q = 1"
proof -
  have t: "extract_delete_table [\<lparr>twj_relation = Table [''t''], twj_joins = []\<rparr>] = ''t''"
    by (simp add: extract_delete_table_def extract_table_name_def last_or_default_def)
  have "\<exists>q s'. execute_statement example_storage_codecs example_library example_delete example_exec = (Inr q, s')"
    by (simp add: example_delete_def ex_delete_def example_exec_def example_eval split: prod.splits)
  then obtain q s' where run: "execute_statement example_storage_codecs example_library example_delete example_exec = (Inr q, s')"
    by blast
  have M: "matching None example_schema [1 \<mapsto> row_new [Int8 5]] = {1}"
    by (auto simp: matching_def row_selected_def split: if_splits)
  have "ex_rows example_storage_codecs s' ''t'' = Map.empty \<and> qr_rows_affected q = 1"
    using delete_removes_matching [OF example_exec_inv [of 0] _ run [unfolded example_delete_def], unfolded t, OF _ example_exec_table]
    by (simp add: example_exec_rows M fun_eq_iff restrict_map_def)
  with run show ?thesis by blast
qed

theorem update_changes_matching_witness:
  "\<exists>q s'. execute_statement example_storage_codecs example_library (Update (Table [''t'']) example_assign None) example_exec = (Inr q, s')
    \<and> ex_rows example_storage_codecs s' ''t'' 1 = Some \<lparr>row_values = [Int8 6], row_version = 2\<rparr> \<and> qr_rows_affected q = 1"
proof -
  have t: "table_factor_name (Table [''t'']) = ''t''" by (simp add: extract_table_name_def last_or_default_def)
  have assign: "apply_assignments example_schema None example_assign [Int8 5] = Inr [Int8 6]"
    "validate_row example_schema [Int8 6] = Inr ()" by code_simp+
  have "\<exists>q s'. execute_statement example_storage_codecs example_library (Update (Table [''t'']) example_assign None) example_exec = (Inr q, s')"
    using assign
    by (simp add: ex_update_def example_exec_def example_eval update_row_def change_row_def row_new_def slift_def
        st_update_def be_get_def td_get_def be_update_def td_update_def im_insert_row_def split: prod.splits)
  then obtain q s' where run: "execute_statement example_storage_codecs example_library
      (Update (Table [''t'']) example_assign None) example_exec = (Inr q, s')" by blast
  have M: "matching None example_schema [1 \<mapsto> row_new [Int8 5]] = {1}"
    by (auto simp: matching_def row_selected_def split: if_splits)
  have "ex_rows example_storage_codecs s' ''t'' 1 = Some \<lparr>row_values = [Int8 6], row_version = 2\<rparr> \<and> qr_rows_affected q = 1"
    using update_changes_matching [OF example_exec_inv [of 0] _ run, unfolded t, OF _ example_exec_table, unfolded example_exec_rows M] assign
    by (auto simp: row_new_def dest: spec [of _ 1])
  with run show ?thesis by blast
qed

end
