(* ===== verification/Database.thy ===== *)
theory Database
  imports Statements
begin

text \<open>
  Transactions and the states of orderly runs. ROLLBACK restores the values of all tables, and in an orderly
  run, where a statement that is refused leaves nothing behind, catalog, tables and indexes belong together
  table by table, rows fit their schema and primary keys are unique.
\<close>

subsection \<open>The invariant, table by table\<close>

text \<open>Every index of the catalog is in the index manager, and one of them is on the primary key.\<close>

definition indexed :: "index_manager \<Rightarrow> string \<Rightarrow> table_schema \<Rightarrow> bool" where
  "indexed m table schema \<longleftrightarrow>
     (\<forall>meta \<in> set (ts_indexes schema). (im_name meta, im_columns meta, im_unique meta) \<in> set (index_shape m table))
     \<and> (pk_names (ts_columns schema) \<noteq> [] \<longrightarrow>
          (\<exists>meta \<in> set (ts_indexes schema). im_columns meta = pk_names (ts_columns schema) \<and> im_unique meta))"

definition db_inv :: "storage_codecs \<Rightarrow> exec_state \<Rightarrow> bool" where
  "db_inv C s \<longleftrightarrow> ex_inv C 0 s \<and> ex_typed C s \<and> cat_wf (ex_catalog s)
     \<and> (\<forall>table schema. map_of (cat_tables (ex_catalog s)) table = Some schema \<longrightarrow> indexed (ex_indexes s) table schema)"

definition table_ok :: "storage_codecs \<Rightarrow> exec_state \<Rightarrow> string \<Rightarrow> bool" where
  "table_ok C s table \<longleftrightarrow> (case map_of (cat_tables (ex_catalog s)) table of
       None \<Rightarrow> map_of (st_tables (ex_storage s)) table = None \<and> map_of (ex_indexes s) table = None
     | Some schema \<Rightarrow> map_of (st_tables (ex_storage s)) table \<noteq> None
         \<and> manager_agrees (ex_indexes s) table (schema_names schema) (ex_vals C s table)
         \<and> (\<forall>i vals. ex_vals C s table i = Some vals \<longrightarrow> row_ok schema vals)
         \<and> indexed (ex_indexes s) table schema)"

lemma db_inv_iff:
  "db_inv C s \<longleftrightarrow> st_inv C (ex_storage s) \<and> mem_only (ex_storage s) \<and> cat_wf (ex_catalog s) \<and> (\<forall>table. table_ok C s table)"
proof
  assume inv: "db_inv C s"
  then have "table_ok C s table" for table
    by (auto simp: db_inv_def ex_inv_def tables_agree_def ex_typed_def table_ok_def domIff subset_iff split: option.splits)
  with inv show "st_inv C (ex_storage s) \<and> mem_only (ex_storage s) \<and> cat_wf (ex_catalog s) \<and> (\<forall>table. table_ok C s table)"
    by (auto simp: db_inv_def dest: ex_invD)
next
  assume a: "st_inv C (ex_storage s) \<and> mem_only (ex_storage s) \<and> cat_wf (ex_catalog s) \<and> (\<forall>table. table_ok C s table)"
  have some: "map_of (st_tables (ex_storage s)) table \<noteq> None
      \<and> manager_agrees (ex_indexes s) table (schema_names schema) (ex_vals C s table)
      \<and> (\<forall>i vals. ex_vals C s table i = Some vals \<longrightarrow> row_ok schema vals) \<and> indexed (ex_indexes s) table schema"
    if "map_of (cat_tables (ex_catalog s)) table = Some schema" for table schema
    using a [THEN conjunct2, THEN conjunct2, THEN conjunct2, THEN spec, of table] that by (simp add: table_ok_def)
  have "map_of (st_tables (ex_storage s)) table = None \<and> map_of (ex_indexes s) table = None"
    if "table \<notin> cat_dom s" for table
    using a [THEN conjunct2, THEN conjunct2, THEN conjunct2, THEN spec, of table] that by (simp add: table_ok_def domIff)
  then have "tables_of (ex_storage s) \<subseteq> cat_dom s" "dom (map_of (ex_indexes s)) \<subseteq> cat_dom s"
    by (meson domIff subsetI)+
  then show "db_inv C s" using some a room_0
    unfolding db_inv_def ex_inv_def tables_agree_def ex_typed_def by (auto simp: domIff)
qed

lemma index_shape_cong: "map_of m' t = map_of m t \<Longrightarrow> index_shape m' t = index_shape m t"
  by (simp add: index_shape_def table_indexes_def)

lemma table_ok_cong:
  assumes "map_of (cat_tables (ex_catalog s')) t = map_of (cat_tables (ex_catalog s)) t"
    and "map_of (st_tables (ex_storage s')) t = map_of (st_tables (ex_storage s)) t"
    and "map_of (ex_indexes s') t = map_of (ex_indexes s) t"
  shows "table_ok C s' t = table_ok C s t"
proof -
  have "ex_vals C s' t = ex_vals C s t" using assms(2) by (simp add: table_vals_def st_rows_def)
  moreover have "manager_agrees (ex_indexes s') t = manager_agrees (ex_indexes s) t"
    using assms(3) by (simp add: manager_agrees_def fun_eq_iff)
  moreover have "indexed (ex_indexes s') t = indexed (ex_indexes s) t"
    using index_shape_cong [OF assms(3)] by (simp add: indexed_def fun_eq_iff)
  ultimately show ?thesis unfolding table_ok_def assms
    by (cases "map_of (cat_tables (ex_catalog s)) t") simp_all
qed

lemma db_inv_one_table:
  assumes "db_inv C s" "st_inv C (ex_storage s')" "mem_only (ex_storage s')" "table_ok C s' table" "cat_wf (ex_catalog s')"
    and "\<And>t. t \<noteq> table \<Longrightarrow> map_of (cat_tables (ex_catalog s')) t = map_of (cat_tables (ex_catalog s)) t
      \<and> map_of (st_tables (ex_storage s')) t = map_of (st_tables (ex_storage s)) t
      \<and> map_of (ex_indexes s') t = map_of (ex_indexes s) t"
  shows "db_inv C s'"
proof -
  have "table_ok C s' t" for t
    using assms(1,4) table_ok_cong [of s' t s C] assms(6) [of t] by (cases "t = table") (auto simp: db_inv_iff)
  with assms(2,3,5) show ?thesis by (simp add: db_inv_iff)
qed

lemma db_inv_reads: "reads C s s' \<Longrightarrow> db_inv C s \<Longrightarrow> db_inv C s'"
  using reads_frame [of C s s'] reads_inv [of C s s' 0] by (auto simp: db_inv_def ex_typed_def)

lemma db_inv_session [simp]: "db_inv C (s\<lparr>ex_session := se\<rparr>) = db_inv C s"
  by (simp add: db_inv_def ex_typed_def)

subsection \<open>Definition statements\<close>

lemma im_create_index_law:
  assumes "manager_agrees m table names R" "index_agrees names R (idx_name idx) idx"
    and "im_create_index table idx m = (Inr (), m')"
  shows "manager_agrees m' table names R" "\<And>t. t \<noteq> table \<Longrightarrow> map_of m' t = map_of m t"
    "set (index_shape m' table) = insert (shape_of idx) (set (index_shape m table))"
proof -
  let ?t = "case map_of m table of None \<Rightarrow> [] | Some t \<Rightarrow> t"
  have m': "m' = AList.update table (AList.update (idx_name idx) idx ?t) m" "map_of ?t (idx_name idx) = None"
    using assms(3) by (simp_all add: im_create_index_def Let_def split: if_splits)
  have "indexes_agree names R ?t" using assms(1) by (auto simp: manager_agrees_def indexes_agree_def split: option.splits)
  then show "manager_agrees m' table names R"
    using assms(2) m'(1) by (auto simp: manager_agrees_def indexes_agree_def update_conv' intro: amap_inv_update)
  show "\<And>t. t \<noteq> table \<Longrightarrow> map_of m' t = map_of m t" using m'(1) by (simp add: update_conv')
  have "AList.update (idx_name idx) idx ?t = ?t @ [(idx_name idx, idx)]"
    by (rule update_fresh [OF m'(2)])
  then show "set (index_shape m' table) = insert (shape_of idx) (set (index_shape m table))"
    using m'(1) by (auto simp: index_shape_def table_indexes_def update_conv' split: option.splits)
qed

lemma new_table_keeps:
  assumes "db_inv C s" and defs: "map_of (cat_tables (ex_catalog s)) table = None"
    and run: "sbind (on_storage (ensure_table C table)) (\<lambda>_. create_primary_key_index table defs)
        (s\<lparr>ex_catalog := snd (cat_create_table table defs (ex_catalog s))\<rparr>) = (Inr (), s')"
  shows "db_inv C s'"
proof -
  let ?cat = "cat_tables (ex_catalog s)"
  have ok: "table_ok C s table" and st: "st_inv C (ex_storage s)" "mem_only (ex_storage s)"
    using assms(1) by (simp_all add: db_inv_iff)
  then have none: "map_of (st_tables (ex_storage s)) table = None" "map_of (ex_indexes s) table = None"
    using defs by (simp_all add: table_ok_def)
  let ?st = "set_backend table (Memory table_data_default) (ex_storage s)"
  have st': "st_inv C ?st" "mem_only ?st" "st_rows C ?st table = Map.empty"
    using st by (auto simp: set_backend_def st_inv_def mem_only_def use_paged_def update_conv' st_rows_def
        table_data_default_def td_inv_def intro!: amap_inv_update)
  have ensure: "on_storage (ensure_table C table) t = (Inr (), t\<lparr>ex_storage := ?st\<rparr>)" if "ex_storage t = ex_storage s" for t
    using that none(1) st(2) by (simp add: sbind_def on_storage_def ensure_table_def entry_or_new_def
        new_empty_backend_def mem_only_def)
  let ?pk = "pk_names defs" and ?iname = "table @ ''_pkey''"
  let ?cat1 = "snd (cat_create_table table defs (ex_catalog s))"
  let ?idx = "index_new ?iname ?pk True"
  let ?meta = "\<lparr>im_name = ?iname, im_columns = ?pk, im_unique = True\<rparr>"
  have cat1: "map_of (cat_tables ?cat1) = (map_of ?cat)(table \<mapsto> \<lparr>ts_name = table, ts_columns = defs, ts_indexes = []\<rparr>)"
    using defs by (simp add: cat_create_table_def update_conv')
  have run1: "create_primary_key_index table defs (s\<lparr>ex_catalog := ?cat1, ex_storage := ?st\<rparr>) = (Inr (), s')"
    using run ensure [of "s\<lparr>ex_catalog := ?cat1\<rparr>"] by (simp add: sbind_def)
  have old: "manager_agrees (ex_indexes s) table names R" for names R
    using none(2) by (simp add: manager_agrees_def)
  have wf: "cat_wf ?cat1" using assms(1) cat_create_table_wf by (simp add: db_inv_def)
  have "\<exists>cat' m' metas. s' = s\<lparr>ex_catalog := cat', ex_storage := ?st, ex_indexes := m'\<rparr> \<and> cat_wf cat'
      \<and> map_of (cat_tables cat') = (map_of ?cat)(table \<mapsto> \<lparr>ts_name = table, ts_columns = defs, ts_indexes = metas\<rparr>)
      \<and> (\<forall>t. t \<noteq> table \<longrightarrow> map_of m' t = map_of (ex_indexes s) t)
      \<and> manager_agrees m' table (map col_name defs) Map.empty
      \<and> indexed m' table \<lparr>ts_name = table, ts_columns = defs, ts_indexes = metas\<rparr>"
  proof (cases "?pk = []")
    case True
    then show ?thesis using run1 cat1 old wf
      by (intro exI [of _ ?cat1] exI [of _ "ex_indexes s"] exI [of _ "[]"])
        (auto simp: create_primary_key_index_def Let_def indexed_def)
  next
    case False
    obtain m' where m': "im_create_index table ?idx (ex_indexes s) = (Inr (), m')"
      using none(2) by (simp add: im_create_index_def Let_def)
    have "index_agrees (map col_name defs) Map.empty (idx_name ?idx) ?idx"
      using index_agrees_new [of "map col_name defs" ?iname ?pk True] by (simp add: index_new_def)
    note law = im_create_index_law [OF old this m']
    have "s' = s\<lparr>ex_catalog := snd (add_index table ?meta ?cat1), ex_storage := ?st, ex_indexes := m'\<rparr>"
      using run1 False m' cat1
      by (auto simp: create_primary_key_index_def Let_def sbind_def on_indexes_def on_catalog_def split: prod.splits sum.splits)
    moreover have "map_of (cat_tables (snd (add_index table ?meta ?cat1))) =
        (map_of ?cat)(table \<mapsto> \<lparr>ts_name = table, ts_columns = defs, ts_indexes = [?meta]\<rparr>)"
      using cat1 by (simp add: add_index_def update_conv')
    moreover have "indexed m' table \<lparr>ts_name = table, ts_columns = defs, ts_indexes = [?meta]\<rparr>"
      using law(3) by (auto simp: indexed_def index_new_def shape_of_def)
    moreover have "cat_wf (snd (add_index table ?meta ?cat1))" by (rule add_index_wf [OF wf])
    ultimately show ?thesis using law(1,2)
      by (intro exI [of _ "snd (add_index table ?meta ?cat1)"] exI [of _ m'] exI [of _ "[?meta]"]) simp
  qed
  then obtain cat' m' metas where e: "s' = s\<lparr>ex_catalog := cat', ex_storage := ?st, ex_indexes := m'\<rparr>" "cat_wf cat'"
    "map_of (cat_tables cat') = (map_of ?cat)(table \<mapsto> \<lparr>ts_name = table, ts_columns = defs, ts_indexes = metas\<rparr>)"
    "\<forall>t. t \<noteq> table \<longrightarrow> map_of m' t = map_of (ex_indexes s) t"
    "manager_agrees m' table (map col_name defs) Map.empty"
    "indexed m' table \<lparr>ts_name = table, ts_columns = defs, ts_indexes = metas\<rparr>" by blast
  show ?thesis
  proof (rule db_inv_one_table [OF assms(1), where table = table])
    show "table_ok C s' table" using e st'(3)
      by (simp add: table_ok_def table_vals_def set_backend_def update_conv')
  qed (use e st' in \<open>simp_all add: set_backend_def update_conv'\<close>)
qed

lemma create_table_keeps:
  assumes "db_inv C s"
  shows "wp (create_table C name columns constraints) (\<lambda>_. db_inv C) no_error s"
proof -
  let ?table = "extract_table_name name"
  have "wp (sbind (on_storage (ensure_table C ?table)) (\<lambda>_. create_primary_key_index ?table defs)) (\<lambda>_. db_inv C) no_error
      (s\<lparr>ex_catalog := snd (cat_create_table ?table defs (ex_catalog s))\<rparr>)"
    if "map_of (cat_tables (ex_catalog s)) ?table = None" for defs
    using new_table_keeps [OF assms that, of defs] by (auto simp: wp_def split: prod.splits sum.splits)
  then show ?thesis
    unfolding create_table_def Let_def wp_simps
    by (auto simp: wp_simps cat_create_table_def wp_def [of "cat_create_table _ _"] split: sum.splits)
qed

lemma drop_table_keeps:
  assumes "db_inv C s"
  shows "wp (drop_table table) (\<lambda>_. db_inv C) no_error s"
proof -
  let ?s = "s\<lparr>ex_catalog := set_table_count ((ex_catalog s)\<lparr>cat_tables := AList.delete table (cat_tables (ex_catalog s))\<rparr>),
    ex_storage := st_drop_table table (ex_storage s), ex_indexes := im_drop_table table (ex_indexes s)\<rparr>"
  have st: "st_inv C (ex_storage s)" "mem_only (ex_storage s)" using assms by (simp_all add: db_inv_iff)
  have wf: "cat_wf (ex_catalog ?s)"
    using assms by (simp add: db_inv_def cat_wf_def amap_inv_delete)
  have "db_inv C ?s"
  proof (rule db_inv_one_table [OF assms, where table = table])
    show "cat_wf (ex_catalog ?s)" by (rule wf)
    show "st_inv C (ex_storage ?s)" using st(1) by (simp add: st_drop_table_def st_inv_def amap_inv_delete)
    show "mem_only (ex_storage ?s)" using st(2) by (simp add: st_drop_table_def mem_only_def use_paged_def delete_conv')
  qed (simp_all add: table_ok_def st_drop_table_def im_drop_table_def delete_conv')
  then show ?thesis
    by (simp add: drop_table_def wp_simps wp_def [of "cat_drop_table _"] cat_drop_table_def)
qed

lemma create_index_keeps:
  assumes "db_inv C s"
  shows "wp (create_index C table iname columns uniq) (\<lambda>_. db_inv C) no_error s"
proof -
  let ?meta = "\<lparr>im_name = iname, im_columns = columns, im_unique = uniq\<rparr>"
  have inv: "ex_inv C 0 s" using assms by (simp add: db_inv_def)
  have "db_inv C s'" if run: "create_index C table iname columns uniq s = (Inr q, s')" for q s'
  proof -
    obtain xs st where scan: "st_scan C table (ex_storage s) = (Inr xs, st)" "lists_rows xs (ex_rows C s table)"
      "st_same C (ex_storage s) st" "mem_same (ex_storage s) st"
      using mem_scan [OF ex_invD(2,3) [OF inv]] by blast
    let ?s = "s\<lparr>ex_storage := st\<rparr>"
    have s1: "db_inv C ?s" using db_inv_reads [OF _ assms] scan(3,4) by (auto simp: reads_def)
    from run scan(1) obtain schema idx m' cat' where r:
      "map_of (cat_tables (ex_catalog s)) table = Some schema" "rebuild_index (schema_names schema) ?meta xs = Inr idx"
      "im_create_index table idx (ex_indexes s) = (Inr (), m')" "add_index table ?meta (ex_catalog s) = (Inr (), cat')"
      "s' = ?s\<lparr>ex_indexes := m', ex_catalog := cat'\<rparr>"
      unfolding create_index_def Let_def
      by (auto simp: sbind_def get_table_def slift_def on_storage_def on_indexes_def on_catalog_def
          split: sum.splits prod.splits option.splits)
    have idx: "index_agrees (schema_names schema) (ex_vals C s table) (idx_name idx) idx"
      "shape_of idx = (iname, columns, uniq)"
      using rebuild_index_agrees [OF scanned_rows(1) [OF scan(2)] r(2)] scan(2)
      by (auto simp: lists_rows_def table_vals_def index_agrees_def shape_of_def)
    have vals: "table_vals C st table = ex_vals C s table" using table_vals_same [OF scan(3)] by simp
    have ok: "table_ok C s table" using assms by (simp add: db_inv_iff)
    note law = im_create_index_law [OF _ idx(1) r(3)]
    let ?schema = "schema\<lparr>ts_indexes := ts_indexes schema @ [?meta]\<rparr>"
    have cat: "map_of (cat_tables cat') = (map_of (cat_tables (ex_catalog s)))(table \<mapsto> ?schema)"
      using r(1,4) by (auto simp: add_index_def update_conv' split: if_splits)
    show ?thesis
    proof (rule db_inv_one_table [OF s1, where table = table])
      show "table_ok C s' table" using ok r(1,5) cat law vals idx(2) scan(4)
        by (auto simp: table_ok_def indexed_def row_ok_def mem_same_def)
      have "cat_wf (ex_catalog s)" using assms by (simp add: db_inv_def)
      then show "cat_wf (ex_catalog s')" using add_index_wf [of "ex_catalog s" table ?meta] r(4,5) by simp
      have "st_inv C st" "mem_only st" using s1 by (simp_all add: db_inv_iff)
      then show "st_inv C (ex_storage s')" "mem_only (ex_storage s')" using r(5) by simp_all
    qed (use r(5) cat law(2) ok r(1) in \<open>auto simp: table_ok_def\<close>)
  qed
  then show ?thesis by (auto simp: wp_def split: prod.splits sum.splits)
qed

lemma db_inv_frame:
  assumes "db_inv C s" "ex_inv C 0 s'" "ex_catalog s' = ex_catalog s"
    "index_shape (ex_indexes s') = index_shape (ex_indexes s)" "ex_typed C s'"
  shows "db_inv C s'"
  using assms by (simp add: db_inv_def indexed_def)

lemma begin_commit_keeps:
  assumes "db_inv C s"
  shows "wp (ex_begin C) (\<lambda>_. db_inv C) no_error s" "wp (ex_commit C) (\<lambda>_. db_inv C) no_error s"
proof -
  have "db_inv C s'" if "ex_inv C 0 s'" "ex_catalog s' = ex_catalog s" "ex_indexes s' = ex_indexes s"
    "ex_vals C s' = ex_vals C s" for s'
    using that assms by (simp add: db_inv_def ex_typed_def)
  moreover have "ex_inv C 0 s" using assms by (simp add: db_inv_def)
  ultimately show "wp (ex_begin C) (\<lambda>_. db_inv C) no_error s" "wp (ex_commit C) (\<lambda>_. db_inv C) no_error s"
    by (auto simp: wp_def ex_begin_def ex_commit_def sbind_def on_txn_def txn_begin_def txn_commit_def Let_def
        set_auto_commit_def track_write_txn_start_def track_write_txn_end_def split: prod.splits option.splits sum.splits)
qed

text \<open>Every statement but ROLLBACK, when it succeeds, on tables with room for the rows it inserts.\<close>

lemma statement_keeps:
  assumes "db_inv C s" "room (ex_storage s) (stmt_rows stmt)" "stmt \<noteq> Rollback"
  shows "wp (execute_statement C L stmt) (\<lambda>_. db_inv C) no_error s"
proof -
  have read: "wp f (\<lambda>_. db_inv C) no_error s" if "read_only C f" for f :: "(moodeng_error, exec_state, query_result) op"
    using that assms(1) db_inv_reads [of C s] unfolding read_only_def wp_def
    by (auto simp: db_inv_def split: prod.splits sum.splits) (metis snd_conv)+
  have dml: "wp (execute_statement C L stmt) (\<lambda>_. db_inv C) no_error s" if "is_dml stmt"
  proof (rule wp_mono [OF dml_wp [OF that, where n = 0]])
    show "ex_inv C (0 + stmt_rows stmt) s" using assms(1,2) by (simp add: db_inv_def ex_inv_def)
    show "db_inv C s'" if "dml_post C 0 s s'" for s'
      using db_inv_frame [OF assms(1)] that assms(1) by (simp add: dml_post_def db_inv_def)
  qed simp
  show ?thesis
    using assms(3) dml begin_commit_keeps [OF assms(1)] create_table_keeps [OF assms(1)] drop_table_keeps [OF assms(1)]
      create_index_keeps [OF assms(1)] read [OF read_only_select] read [OF read_only_explain]
    by (cases stmt) (auto simp: wp_simps split: list.splits)
qed

subsection \<open>Refused statements\<close>

lemma new_table_succeeds:
  assumes "db_inv C s" and defs: "map_of (cat_tables (ex_catalog s)) table = None"
  shows "\<exists>s'. sbind (on_storage (ensure_table C table)) (\<lambda>_. create_primary_key_index table defs)
        (s\<lparr>ex_catalog := snd (cat_create_table table defs (ex_catalog s))\<rparr>) = (Inr (), s')"
proof -
  have "table_ok C s table" "mem_only (ex_storage s)" using assms(1) by (simp_all add: db_inv_iff)
  then have none: "map_of (st_tables (ex_storage s)) table = None" "map_of (ex_indexes s) table = None" "mem_only (ex_storage s)"
    using defs by (simp_all add: table_ok_def)
  then show ?thesis using defs
    by (simp add: sbind_def on_storage_def ensure_table_def entry_or_new_def new_empty_backend_def mem_only_def
        create_primary_key_index_def Let_def on_indexes_def im_create_index_def on_catalog_def add_index_def
        cat_create_table_def update_conv')
qed

lemma create_table_refused:
  assumes "db_inv C s" "create_table C name columns constraints s = (Inl e, s')"
  shows "s' = s"
proof -
  let ?table = "extract_table_name name"
  show ?thesis
  proof (cases "map_of (cat_tables (ex_catalog s)) ?table")
    case None
    obtain defs where "rmapM sql_column_to_def columns = Inl e \<or> rmapM sql_column_to_def columns = Inr defs"
      using assms(2) by (cases "rmapM sql_column_to_def columns") (auto simp: create_table_def Let_def sbind_def slift_def)
    then show ?thesis
      using assms(2) new_table_succeeds [OF assms(1) None, of "map (mark_primary_key (extract_pk_from_constraints constraints)) defs"] None
      by (auto simp: create_table_def Let_def sbind_def slift_def on_catalog_def sret_def cat_create_table_def split: prod.splits sum.splits)
  next
    case (Some schema)
    then show ?thesis using assms(2)
      by (auto simp: create_table_def Let_def sbind_def slift_def on_catalog_def cat_create_table_def split: sum.splits)
  qed
qed

lemma drop_table_refused: "drop_table table s = (Inl e, s') \<Longrightarrow> s' = s"
  by (auto simp: drop_table_def sbind_def on_catalog_def cat_drop_table_def on_storage_def on_indexes_def split: if_splits)

lemma begin_commit_refused:
  "ex_begin C s = (Inl e, s') \<Longrightarrow> db_inv C s \<Longrightarrow> db_inv C s'" "ex_commit C s = (Inl e, s') \<Longrightarrow> db_inv C s \<Longrightarrow> db_inv C s'"
  by (auto simp: ex_begin_def ex_commit_def sbind_def on_txn_def txn_begin_def txn_commit_def Let_def
        set_auto_commit_def track_write_txn_start_def track_write_txn_end_def split: prod.splits option.splits sum.splits if_splits)

lemma shape_registered:
  assumes "manager_agrees m table names R" "(n, cols, u) \<in> set (index_shape m table)"
  shows "\<exists>t. map_of m table = Some t \<and> map_of t n \<noteq> None"
  using assms by (fastforce simp: index_shape_def table_indexes_def manager_agrees_def indexes_agree_def index_agrees_def
      shape_of_def amap_inv_def split: option.splits)

lemma im_create_index_refused:
  assumes "im_create_index table idx m = (Inl e, m')"
  shows "map_of m' = map_of m"
  using assms by (auto simp: im_create_index_def Let_def update_conv' fun_eq_iff split: if_splits option.splits)

lemma create_index_refused:
  assumes "db_inv C s" "create_index C table iname columns uniq s = (Inl e, s')"
  shows "db_inv C s'"
proof (cases "map_of (cat_tables (ex_catalog s)) table")
  case None
  then show ?thesis using assms by (auto simp: create_index_def Let_def sbind_def get_table_def)
next
  case (Some schema)
  let ?meta = "\<lparr>im_name = iname, im_columns = columns, im_unique = uniq\<rparr>"
  have inv: "ex_inv C 0 s" and ix: "indexed (ex_indexes s) table schema"
    using assms(1) Some by (simp_all add: db_inv_def)
  obtain xs st where scan: "st_scan C table (ex_storage s) = (Inr xs, st)" "lists_rows xs (ex_rows C s table)"
    "st_same C (ex_storage s) st" "mem_same (ex_storage s) st"
    using mem_scan [OF ex_invD(2,3) [OF inv]] by blast
  let ?s = "s\<lparr>ex_storage := st\<rparr>"
  have s1: "db_inv C ?s" using db_inv_reads [OF _ assms(1)] scan(3,4) by (auto simp: reads_def)
  have no_add: "fst (add_index table ?meta (ex_catalog s)) = Inr ()"
    if "rebuild_index (schema_names schema) ?meta xs = Inr idx" "fst (im_create_index table idx (ex_indexes s)) = Inr ()" for idx
  proof -
    have "idx_name idx = iname" using rebuild_index_agrees [OF scanned_rows(1) [OF scan(2)] that(1)] by (auto simp: index_agrees_def)
    then have "im_name meta \<noteq> iname" if "meta \<in> set (ts_indexes schema)" for meta
      using ix that shape_registered [OF ex_invD(6) [OF inv Some]] \<open>fst (im_create_index _ _ _) = _\<close>
      by (fastforce simp: indexed_def im_create_index_def Let_def split: if_splits)
    then show ?thesis using Some by (auto simp: add_index_def list_ex_iff)
  qed
  have "s' = s \<or> s' = ?s \<or> (\<exists>m. s' = ?s\<lparr>ex_indexes := m\<rparr> \<and> map_of m = map_of (ex_indexes s))"
    using assms(2) Some scan(1) no_add im_create_index_refused [of table _ "ex_indexes s"]
    by (auto simp: create_index_def Let_def sbind_def get_table_def slift_def on_storage_def on_indexes_def on_catalog_def
          split: sum.splits prod.splits option.splits if_splits)
  then show ?thesis
  proof (elim disjE exE conjE)
    fix m assume m: "s' = ?s\<lparr>ex_indexes := m\<rparr>" "map_of m = map_of (ex_indexes s)"
    have "table_ok C s' t" for t using table_ok_cong [of s' t ?s C] s1 m by (simp add: db_inv_iff)
    then show "db_inv C s'" using s1 m(1) by (simp add: db_inv_iff)
  qed (use assms(1) s1 in simp_all)
qed

lemma refused_keeps:
  assumes "db_inv C s" "room (ex_storage s) (stmt_rows stmt)" "harmless stmt e"
    and "execute_statement C L stmt s = (Inl e, s')"
  shows "db_inv C s'"
proof -
  have read: "db_inv C t" if "read_only C f" "f s = (Inl e, t)" for f :: "(moodeng_error, exec_state, query_result) op" and t
    using that assms(1) db_inv_reads [of C s t] by (fastforce simp: read_only_def db_inv_def)
  have dml: "db_inv C s'" if "is_dml stmt"
  proof -
    have "ex_inv C (0 + stmt_rows stmt) s" using assms(1,2) by (simp add: db_inv_def ex_inv_def)
    from dml_wp [OF that this, of L] have "dml_post C 0 s s'" using assms(3,4) by (simp add: wp_def)
    then show ?thesis using db_inv_frame [OF assms(1)] assms(1) by (simp add: dml_post_def db_inv_def)
  qed
  show ?thesis
    using assms dml begin_commit_refused [of C s e s'] create_table_refused [OF assms(1), of _ _ _ e s'] drop_table_refused [of _ s e s']
      create_index_refused [OF assms(1)] read [OF read_only_select] read [OF read_only_explain]
    by (cases stmt) (auto split: if_splits list.splits)
qed

subsection \<open>Transactions\<close>

text \<open>The statements of a session one after the other, whether they are refused or not.\<close>

fun run_each :: "storage_codecs \<Rightarrow> sql_library \<Rightarrow> statement list \<Rightarrow> exec_state \<Rightarrow> query_result res list \<times> exec_state" where
  "run_each C L [] s = ([], s)"
| "run_each C L (stmt # ss) s =
     (let (r, t) = execute_statement C L stmt s; (rs, u) = run_each C L ss t in (r # rs, u))"

fun query_or_data :: "statement \<Rightarrow> bool" where
  "query_or_data (Query _) = True"
| "query_or_data (Explain _) = True"
| "query_or_data stmt = is_dml stmt"

definition in_order :: "statement \<Rightarrow> query_result res \<Rightarrow> bool" where
  "in_order stmt r \<longleftrightarrow> (case r of Inr _ \<Rightarrow> True | Inl e \<Rightarrow> harmless stmt e)"

lemma row_steps_reads: "reads C s t \<Longrightarrow> row_steps C s t"
  using row_steps_read [OF row_steps_refl] by (auto simp: reads_def)

lemma block_step:
  assumes "query_or_data stmt" "ex_inv C (n + stmt_rows stmt) s" "explicit_txn s"
    and "execute_statement C L stmt s = (r, t)" "in_order stmt r"
  shows "changed_rows C n s t"
proof (cases "is_dml stmt")
  case True
  from dml_wp [OF this assms(2), of L] have "dml_post C n s t"
    using assms(4,5) by (auto simp: wp_def in_order_def split: sum.splits)
  then show ?thesis using assms(3) by (simp add: dml_post_def)
next
  case False
  have read: "reads C s t" if "read_only C f" "f s = (r, t)" for f :: "(moodeng_error, exec_state, query_result) op"
    using that assms(2) unfolding read_only_def by (metis snd_conv)
  have "reads C s t"
    using assms(1,4) False read [OF read_only_select] read [OF read_only_explain] by (cases stmt) auto
  then show ?thesis using row_steps_reads reads_inv [of C s t n] ex_inv_mono [OF assms(2), of n] by simp
qed

lemma block_run:
  assumes "\<forall>stmt \<in> set ss. query_or_data stmt" "ex_inv C (n + sum_list (map stmt_rows ss)) s" "explicit_txn s"
    and "run_each C L ss s = (rs, t)" "list_all2 in_order ss rs"
  shows "changed_rows C n s t"
  using assms
proof (induction ss arbitrary: s rs)
  case Nil
  then show ?case using row_steps_refl by simp
next
  case (Cons stmt ss)
  obtain r u where u: "execute_statement C L stmt s = (r, u)" by fastforce
  obtain rs' where rs: "run_each C L ss u = (rs', t)" "rs = r # rs'"
    using Cons.prems(4) u by (auto split: prod.splits)
  have "ex_inv C (n + sum_list (map stmt_rows ss) + stmt_rows stmt) s" using Cons.prems(2) by (simp add: ac_simps)
  from block_step [OF _ this Cons.prems(3) u] have su: "changed_rows C (n + sum_list (map stmt_rows ss)) s u"
    using Cons.prems(1,5) rs(2) by simp
  have "changed_rows C n u t"
    using Cons.IH [OF _ _ _ rs(1)] Cons.prems(1,3,5) su explicit_steps [of C s u] rs(2) by simp
  with su show ?case using row_steps_trans by blast
qed

text \<open>C1: ROLLBACK restores the database. A session opens a transaction on an engine whose tables are in
  memory and whose tables and indexes agree, and runs queries and INSERT, UPDATE and DELETE statements,
  upserts included. Each is accepted, or refused by \<open>harmless\<close>: not an UPDATE, not an INSERT with ON CONFLICT, and
  not for a duplicate key. Then ROLLBACK succeeds, every table has the values it had at BEGIN, tables and
  indexes agree again, and no transaction is open. Row versions are not restored.\<close>

theorem rollback_restores:
  assumes "ex_inv C (sum_list (map stmt_rows ss)) s" and "\<forall>stmt \<in> set ss. query_or_data stmt"
    and "execute_statement C L StartTransaction s = (Inr r, s1)"
    and "run_each C L ss s1 = (rs, s2)" and "list_all2 in_order ss rs"
  shows "\<exists>s3. execute_statement C L Rollback s2 = (Inr (qr_modified 0 ''ROLLBACK''), s3)
    \<and> ex_vals C s3 = ex_vals C s \<and> ex_inv C 0 s3 \<and> \<not> tr_active (ex_transaction s3)"
proof -
  have s1: "ex_inv C (0 + sum_list (map stmt_rows ss)) s1" "undo_inv C (ex_vals C s) s1"
    using begin_opens [OF assms(1)] assms(3) by auto
  have s2: "changed_rows C 0 s1 s2"
    by (rule block_run [OF assms(2) s1(1) _ assms(4,5)]) (use s1(2) in \<open>simp add: undo_inv_def\<close>)
  show ?thesis using rollback_runs [of C 0 s2 "ex_vals C s"] undo_inv_steps [OF _ s1(2)] s2 by auto
qed

subsection \<open>Orderly runs\<close>

definition empty_storage :: "wal \<Rightarrow> storage" where
  "empty_storage w = \<lparr>st_options = storage_options_default, st_tables = [], st_dat_files = [], st_page_files = [], st_wal = w\<rparr>"

definition empty_db :: "wal \<Rightarrow> exec_state" where
  "empty_db w = \<lparr>ex_catalog = catalog_new, ex_storage = empty_storage w, ex_indexes = [],
     ex_active_write_txns = 0, ex_session = session_new\<rparr>"

text \<open>The states of orderly runs. From a new database with its tables in memory, sessions take turns: each
  statement is accepted or refused by \<open>harmless\<close>, and a ROLLBACK ends a transaction of queries and data
  statements that ran without a statement of another session in between. The tables have room for the ids of
  the rows a statement inserts. These are not all the states the program reaches: the theory \<open>Anomalies\<close>
  shows what the other refusals leave behind.\<close>

inductive orderly :: "storage_codecs \<Rightarrow> sql_library \<Rightarrow> exec_state \<Rightarrow> bool" for C L where
  orderly_new: "orderly C L (empty_db w)"
| orderly_session: "orderly C L s \<Longrightarrow> orderly C L (s\<lparr>ex_session := se\<rparr>)"
| orderly_statement: "orderly C L s \<Longrightarrow> stmt \<noteq> Rollback \<Longrightarrow> room (ex_storage s) (stmt_rows stmt) \<Longrightarrow>
    execute_statement C L stmt s = (r, s') \<Longrightarrow> in_order stmt r \<Longrightarrow> orderly C L s'"
| orderly_rollback: "orderly C L s \<Longrightarrow> execute_statement C L StartTransaction s = (Inr q, s1) \<Longrightarrow>
    \<forall>stmt \<in> set ss. query_or_data stmt \<Longrightarrow> room (ex_storage s1) (sum_list (map stmt_rows ss)) \<Longrightarrow>
    run_each C L ss s1 = (rs, s2) \<Longrightarrow> list_all2 in_order ss rs \<Longrightarrow>
    execute_statement C L Rollback s2 = (r, s3) \<Longrightarrow> orderly C L s3"

lemma empty_db_inv: "db_inv C (empty_db w)"
  by (simp add: db_inv_iff empty_db_def empty_storage_def st_inv_def mem_only_def use_paged_def
      storage_options_default_def table_ok_def catalog_new_def cat_wf_def)

lemma rollback_keeps:
  assumes "db_inv C s" "execute_statement C L StartTransaction s = (Inr q, s1)"
    and "\<forall>stmt \<in> set ss. query_or_data stmt" "room (ex_storage s1) (sum_list (map stmt_rows ss))"
    and "run_each C L ss s1 = (rs, s2)" "list_all2 in_order ss rs" "execute_statement C L Rollback s2 = (r, s3)"
  shows "db_inv C s3"
proof -
  have inv: "ex_inv C 0 s" using assms(1) by (simp add: db_inv_def)
  have s1: "db_inv C s1" using wp_run [OF begin_commit_keeps(1) [OF assms(1)]] assms(2) by simp
  have undo: "undo_inv C (ex_vals C s) s1" using begin_opens [OF inv] assms(2) by simp
  have "ex_inv C (0 + sum_list (map stmt_rows ss)) s1" using s1 assms(4) by (simp add: db_inv_def ex_inv_def)
  from block_run [OF assms(3) this _ assms(5,6)] undo
  have s2: "row_steps C s1 s2" "ex_inv C 0 s2" by (simp_all add: undo_inv_def)
  obtain s3' where s3: "ex_rollback C s2 = (Inr (qr_modified 0 ''ROLLBACK''), s3')" "ex_inv C 0 s3'"
    "ex_vals C s3' = ex_vals C s" "ex_catalog s3' = ex_catalog s2" "index_shape (ex_indexes s3') = index_shape (ex_indexes s2)"
    using rollback_runs [OF s2(2) undo_inv_steps [OF s2(1) undo]] by blast
  have e: "s3' = s3" using s3(1) assms(7) by simp
  have cat: "ex_catalog s1 = ex_catalog s" "ex_indexes s1 = ex_indexes s"
    using assms(2) by (auto simp: ex_begin_def sbind_def on_txn_def txn_begin_def set_auto_commit_def
        track_write_txn_start_def Let_def split: if_splits prod.splits)
  have "ex_typed C s" using assms(1) by (simp add: db_inv_def)
  then have "ex_typed C s3" using s3(3,4) row_steps_catalog [OF s2(1)] cat e by (simp add: ex_typed_def)
  then show ?thesis using db_inv_frame [OF assms(1), of s3] s3 e row_steps_catalog [OF s2(1)] row_steps_shape [OF s2(1)] cat
    by simp
qed

lemma orderly_inv: "orderly C L s \<Longrightarrow> db_inv C s"
proof (induction rule: orderly.induct)
  case (orderly_statement s stmt r s')
  show ?case
  proof (cases r)
    case (Inl e)
    then show ?thesis using refused_keeps [of C s stmt e L s'] orderly_statement by (simp add: in_order_def)
  next
    case (Inr q)
    then show ?thesis using wp_run [OF statement_keeps] orderly_statement by blast
  qed
next
  case (orderly_rollback s q s1 ss rs s2 r s3)
  then show ?case using rollback_keeps by blast
qed (simp_all add: empty_db_inv)

text \<open>C6: primary keys are unique in orderly runs. In every state an orderly run of any sessions reaches from a
  new database with its tables in memory, two rows of a table with the same primary key are the same row.
  (A refused INSERT of a duplicate key, which is not orderly, leaves two.)\<close>

theorem primary_keys_unique:
  assumes "orderly C L s" and "map_of (cat_tables (ex_catalog s)) table = Some schema"
    and "pk_names (ts_columns schema) \<noteq> []"
    and "ex_vals C s table i = Some v" and "ex_vals C s table j = Some w"
    and "index_key (key_of_row (pk_names (ts_columns schema)) (schema_names schema) v) =
         index_key (key_of_row (pk_names (ts_columns schema)) (schema_names schema) w)"
  shows "i = j"
proof -
  note inv = orderly_inv [OF assms(1)]
  have "indexed (ex_indexes s) table schema" using inv assms(2) by (simp add: db_inv_def)
  then obtain n where "(n, pk_names (ts_columns schema), True) \<in> set (index_shape (ex_indexes s) table)"
    using assms(3) unfolding indexed_def by metis
  moreover have "ex_inv C 0 s" using inv by (simp add: db_inv_def)
  ultimately have "uniq_keys (schema_names schema) (pk_names (ts_columns schema)) (ex_vals C s table)"
    using manager_agrees_uniq [OF ex_invD(6) [OF _ assms(2)]] by blast
  then show ?thesis using assms(4-6) unfolding uniq_keys_def by blast
qed



subsection \<open>A concrete run\<close>

definition example_create :: statement where
  "example_create = CreateTable [''t''] [\<lparr>scd_name = ''a'', scd_data_type = SqlBigInt, scd_options = [Unique True]\<rparr>] []"

definition example_insert :: statement where
  "example_insert = Insert \<lparr>ins_table = [''t''], ins_columns = [], ins_source = Some \<lparr>q_body = Values [[ValueE (Number ''5'' False)]],
     q_order_by = None, q_limit = None, q_offset = None\<rparr>, ins_on = None\<rparr>"

definition example_columns :: "column_def list" where
  "example_columns = [\<lparr>col_name = ''a'', col_type = TInt8, col_nullable = True, col_primary_key = True\<rparr>]"

definition example_pk_schema :: table_schema where
  "example_pk_schema = \<lparr>ts_name = ''t'', ts_columns = example_columns,
     ts_indexes = [\<lparr>im_name = ''t_pkey'', im_columns = [''a''], im_unique = True\<rparr>]\<rparr>"

definition example_created :: exec_state where
  "example_created = \<lparr>ex_catalog = \<lparr>cat_tables = [(''t'', example_pk_schema)],
       cat_stats = \<lparr>cs_table_count = 1, cs_total_indexes = 1\<rparr>\<rparr>,
     ex_storage = (empty_storage wal_fresh)\<lparr>st_tables := [(''t'', Memory table_data_default)]\<rparr>,
     ex_indexes = [(''t'', [(''t_pkey'', index_new ''t_pkey'' [''a''] True)])],
     ex_active_write_txns = 0, ex_session = session_new\<rparr>"

lemma example_created_eq:
  "execute_statement example_storage_codecs example_library example_create (empty_db wal_fresh)
    = (Inr (qr_ddl ''CREATE TABLE t''), example_created)"
  by (simp add: example_created_def example_create_def create_table_def extract_table_name_def last_or_default_def extract_pk_from_constraints_def
      sql_column_to_def_def sbind_def slift_def on_catalog_def cat_create_table_def empty_db_def catalog_new_def
      mark_primary_key_def on_storage_def ensure_table_def entry_or_new_def new_empty_backend_def empty_storage_def
      use_paged_def storage_options_default_def set_backend_def create_primary_key_index_def Let_def pk_names_def
      on_indexes_def im_create_index_def index_new_def add_index_def example_pk_schema_def example_columns_def
      set_table_count_def)

lemma example_literal: "insert_literal (ValueE (Number ''5'' False)) = Int8 5"
  by code_simp

lemma example_inserted:
  "\<exists>q s'. execute_statement example_storage_codecs example_library example_insert example_created = (Inr q, s')
    \<and> map_of (cat_tables (ex_catalog s')) ''t'' = Some example_pk_schema
    \<and> ex_vals example_storage_codecs s' ''t'' = [1 \<mapsto> [Int8 5]]"
  by (simp add: example_insert_def ex_insert_def example_created_def example_eval example_literal values_from_insert_def
      slift_def example_pk_schema_def example_columns_def empty_storage_def insert_row_def coerce_row_def coerce_to_def
      validate_row_def null_column_def is_null_def get_or_def insert_new_row_def st_insert_def entry_or_new_def
      be_insert_def td_insert_def table_data_default_def row_new_def im_insert_row_def index_insert_def index_new_def
      key_of_row_def eq_ignore_ascii_case_def index_key_def qr_modified_def table_vals_def st_rows_def row_vals_def
      fun_eq_iff
      del: insert_literal.simps split: prod.splits)

lemma example_created_orderly: "orderly example_storage_codecs example_library example_created"
  by (rule orderly_statement [OF orderly_new [of _ _ wal_fresh] _ _ example_created_eq])
    (simp_all add: example_create_def in_order_def room_def empty_db_def empty_storage_def)

lemma example_orderly:
  "\<exists>s. orderly example_storage_codecs example_library s \<and> map_of (cat_tables (ex_catalog s)) ''t'' = Some example_pk_schema
    \<and> ex_vals example_storage_codecs s ''t'' = [1 \<mapsto> [Int8 5]]"
proof -
  have "room (ex_storage example_created) (stmt_rows example_insert)"
    by (simp add: room_def example_created_def empty_storage_def table_data_default_def example_insert_def split: if_splits)
  moreover have "example_insert \<noteq> Rollback" "in_order example_insert (Inr q)" for q
    by (simp_all add: example_insert_def in_order_def)
  moreover note example_created_orderly example_inserted
  ultimately show ?thesis using orderly_statement by metis
qed

text \<open>A transaction that inserts a row, is refused an INSERT into a table that does not exist, and is rolled
  back.\<close>

definition example_missing :: statement where
  "example_missing = Insert \<lparr>ins_table = [''u''], ins_columns = [], ins_source = Some \<lparr>q_body = Values [],
     q_order_by = None, q_limit = None, q_offset = None\<rparr>, ins_on = None\<rparr>"

lemma example_block:
  "\<exists>r s1 q s2. execute_statement example_storage_codecs example_library StartTransaction example_created = (Inr r, s1)
    \<and> run_each example_storage_codecs example_library [example_insert, example_missing] s1
        = ([Inr q, Inl (TableNotFound ''u'')], s2)
    \<and> ex_vals example_storage_codecs s2 ''t'' = [1 \<mapsto> [Int8 5]]"
  by (simp add: example_insert_def example_missing_def ex_begin_def ex_insert_def example_created_def example_eval
      example_literal values_from_insert_def
      slift_def example_pk_schema_def example_columns_def empty_storage_def insert_row_def coerce_row_def coerce_to_def
      validate_row_def null_column_def is_null_def get_or_def insert_new_row_def st_insert_def entry_or_new_def
      be_insert_def td_insert_def table_data_default_def row_new_def im_insert_row_def index_insert_def index_new_def
      key_of_row_def eq_ignore_ascii_case_def index_key_def qr_modified_def table_vals_def st_rows_def row_vals_def
      txn_record_def fun_eq_iff
      del: insert_literal.simps split: prod.splits)

theorem rollback_restores_witness:
  "\<exists>r s1 q s2 s3. execute_statement example_storage_codecs example_library StartTransaction example_created = (Inr r, s1)
    \<and> run_each example_storage_codecs example_library [example_insert, example_missing] s1
        = ([Inr q, Inl (TableNotFound ''u'')], s2)
    \<and> ex_vals example_storage_codecs s2 ''t'' = [1 \<mapsto> [Int8 5]]
    \<and> execute_statement example_storage_codecs example_library Rollback s2 = (Inr (qr_modified 0 ''ROLLBACK''), s3)
    \<and> ex_vals example_storage_codecs s3 ''t'' = Map.empty"
proof -
  let ?ss = "[example_insert, example_missing]"
  obtain r s1 q s2 where run: "execute_statement example_storage_codecs example_library StartTransaction example_created = (Inr r, s1)"
    "run_each example_storage_codecs example_library ?ss s1 = ([Inr q, Inl (TableNotFound ''u'')], s2)"
    "ex_vals example_storage_codecs s2 ''t'' = [1 \<mapsto> [Int8 5]]" using example_block by blast
  have "db_inv example_storage_codecs example_created" by (rule orderly_inv [OF example_created_orderly])
  moreover have "room (ex_storage example_created) (sum_list (map stmt_rows ?ss))"
    by (simp add: room_def example_created_def empty_storage_def table_data_default_def example_insert_def example_missing_def
        split: if_splits)
  ultimately have "ex_inv example_storage_codecs (sum_list (map stmt_rows ?ss)) example_created"
    by (simp add: db_inv_def ex_inv_def)
  moreover have "\<forall>stmt \<in> set ?ss. query_or_data stmt" "list_all2 in_order ?ss [Inr q, Inl (TableNotFound ''u'')]"
    by (simp_all add: example_insert_def example_missing_def in_order_def)
  moreover have "ex_vals example_storage_codecs example_created ''t'' = Map.empty"
    by (simp add: table_vals_def st_rows_def row_vals_def example_created_def empty_storage_def table_data_default_def fun_eq_iff)
  ultimately show ?thesis using rollback_restores [OF _ _ run(1,2)] run by metis
qed

theorem primary_keys_unique_witness:
  "\<exists>s. orderly example_storage_codecs example_library s
    \<and> {j. \<exists>w. ex_vals example_storage_codecs s ''t'' j = Some w \<and> index_key (key_of_row [''a''] [''a''] w) =
         index_key (key_of_row [''a''] [''a''] [Int8 5])} = {1}"
proof -
  obtain s where s: "orderly example_storage_codecs example_library s"
    "map_of (cat_tables (ex_catalog s)) ''t'' = Some example_pk_schema"
    "ex_vals example_storage_codecs s ''t'' 1 = Some [Int8 5]" using example_orderly by fastforce
  have pk: "pk_names (ts_columns example_pk_schema) = [''a'']" "schema_names example_pk_schema = [''a'']"
    by (simp_all add: pk_names_def example_pk_schema_def example_columns_def)
  show ?thesis
    using primary_keys_unique [OF s(1,2) _ s(3), unfolded pk] s(1,3) by fastforce
qed



end
