(* ===== verification/Engine.thy ===== *)
theory Engine
  imports Database
begin

text \<open>
  \<open>moodeng-core/src/engine.rs\<close>, \<open>meta.rs\<close> and \<open>backup.rs\<close>: the database as the server uses it. The data
  directory is a list of files with their contents; \<open>bincode\<close> for the metadata and the compressed tar
  archive are codecs.
\<close>

subsection \<open>Metadata\<close>

type_synonym files = "(string \<times> bytes) list"

record database_snapshot =
  ds_version :: u32
  ds_tables :: "table_schema list"
  ds_indexes :: index_manager

definition META_VERSION :: u32 where "META_VERSION = 1"

definition snapshot_default :: database_snapshot where
  "snapshot_default = \<lparr>ds_version = META_VERSION, ds_tables = [], ds_indexes = []\<rparr>"

definition META_FILE :: string where "META_FILE = ''meta.bin''"
definition WAL_FILE :: string where "WAL_FILE = ''wal.log''"
definition CHECKPOINT_FILE :: string where "CHECKPOINT_FILE = ''checkpoint.bin''"

record engine_codecs =
  ec_storage :: storage_codecs
  ec_meta :: "database_snapshot codec"
  ec_archive :: "files codec"

definition meta_load :: "engine_codecs \<Rightarrow> bytes option \<Rightarrow> database_snapshot option res" where
  "meta_load E file =
     (case file of
        None \<Rightarrow> Inr None
      | Some buf \<Rightarrow>
          if buf = [] then Inr None
          else (case deser (ec_meta E) buf of
                  Inl e \<Rightarrow> Inl (StorageError e)
                | Inr snapshot \<Rightarrow>
                    if ds_version snapshot \<noteq> META_VERSION
                    then Inl (StorageError (''unsupported meta version '' @ show_nat (unat (ds_version snapshot))
                            @ '' (expected '' @ show_nat (unat META_VERSION) @ '')''))
                    else Inr (Some snapshot)))"

definition meta_save :: "engine_codecs \<Rightarrow> database_snapshot \<Rightarrow> bytes" where
  "meta_save E snapshot = ser (ec_meta E) snapshot"

text \<open>\<open>Path::file_stem\<close> and \<open>extension\<close>: what is before and after the last dot, unless the name starts
  with it.\<close>

definition split_ext :: "string \<Rightarrow> (string \<times> string) option" where
  "split_ext name =
     (let ext = takeWhile (\<lambda>c. c \<noteq> CHR ''.'') (rev name)
      in case drop (length ext) (rev name) of
           [] \<Rightarrow> None
         | _ # stem \<Rightarrow> if stem = [] then None else Some (rev stem, rev ext))"

definition files_with_ext :: "string \<Rightarrow> files \<Rightarrow> files" where
  "files_with_ext ext fs =
     List.map_filter (\<lambda>(n, b). case split_ext n of
        Some (stem, e) \<Rightarrow> if e = ext then Some (stem, b) else None | None \<Rightarrow> None) fs"

definition reconcile_storage :: "files \<Rightarrow> string list \<Rightarrow> string list" where
  "reconcile_storage fs catalog_tables =
     (let dat_tables = map fst (files_with_ext ''dat'' fs)
      in map (\<lambda>table. ''orphan data file '' @ [CHR 0x27] @ table @ ''.dat'' @ [CHR 0x27] @ '' has no schema in catalog'')
           (filter (\<lambda>table. table \<notin> set catalog_tables) dat_tables))"

subsection \<open>The database\<close>

record database_stats =
  dbs_queries_executed :: u64
  dbs_total_rows :: u64

record database =
  db_catalog :: catalog
  db_storage :: storage
  db_indexes :: index_manager
  db_meta_file :: "bytes option"
  db_stats :: database_stats
  db_active_write_txns :: u64

definition file_of_pages :: "page_file \<Rightarrow> bytes" where
  "file_of_pages f = pf_read 0 (pf_len f) f"

definition pages_of_file :: "bytes \<Rightarrow> page_file" where
  "pages_of_file bs = pf_write 0 bs (pf_set_len (length bs) pf_empty)"

text \<open>The files of a running database; a paged table writes to its file through the mapping.\<close>

definition optional_file :: "string \<Rightarrow> bytes option \<Rightarrow> files" where
  "optional_file name content = (case content of None \<Rightarrow> [] | Some b \<Rightarrow> [(name, b)])"

fun backend_pages :: "string \<times> table_backend \<Rightarrow> (string \<times> page_file) list" where
  "backend_pages (t, Paged pt) = [(t, pt_file pt)]"
| "backend_pages (t, Memory _) = []"

definition db_files :: "database \<Rightarrow> files" where
  "db_files db =
     (let st = db_storage db; w = st_wal st in
      [(WAL_FILE, f_content (wal_file w))]
      @ optional_file CHECKPOINT_FILE (wal_checkpoint_file w)
      @ optional_file META_FILE (db_meta_file db)
      @ map (\<lambda>(t, b). (t @ ''.dat'', b)) (st_dat_files st)
      @ map (\<lambda>(t, f). (t @ ''.pages'', file_of_pages f)) (st_page_files st @ concat (map backend_pages (st_tables st))))"

definition load_meta :: "database_snapshot option \<Rightarrow> catalog \<times> index_manager" where
  "load_meta meta =
     (case meta of
        None \<Rightarrow> (catalog_new, [])
      | Some snapshot \<Rightarrow> (load_tables (ds_tables snapshot) catalog_new, im_load_all (ds_indexes snapshot) []))"

definition database_open_with_options :: "engine_codecs \<Rightarrow> files \<Rightarrow> storage_options \<Rightarrow> database res" where
  "database_open_with_options E fs options =
     (let C = ec_storage E in
      rbind (wal_open (sc_lsn C) (case map_of fs WAL_FILE of None \<Rightarrow> [] | Some b \<Rightarrow> b) (map_of fs CHECKPOINT_FILE)) (\<lambda>w.
      rbind (open_with_options C (files_with_ext ''dat'' fs)
               (map (\<lambda>(t, b). (t, pages_of_file b)) (files_with_ext ''pages'' fs)) w options) (\<lambda>storage.
      rbind (meta_load E (map_of fs META_FILE)) (\<lambda>meta.
      let (catalog, indexes) = load_meta meta in
      case sbind (sfold (\<lambda>table _. ensure_table C table) (list_tables catalog) ()) (\<lambda>_. replay_wal C) storage of
        (Inl e, _) \<Rightarrow> Inl e
      | (Inr replayed, storage) \<Rightarrow>
          (case rebuild_all C catalog (storage, indexes) of
             (Inl e, _) \<Rightarrow> Inl e
           | (Inr _, (storage, indexes)) \<Rightarrow>
               Inr \<lparr>db_catalog = catalog, db_storage = storage, db_indexes = indexes, db_meta_file = map_of fs META_FILE,
                    db_stats = \<lparr>dbs_queries_executed = 0, dbs_total_rows = 0\<rparr>, db_active_write_txns = 0\<rparr>)))))"

definition database_open :: "engine_codecs \<Rightarrow> files \<Rightarrow> database res" where
  "database_open E fs = database_open_with_options E fs storage_options_default"

definition in_memory :: "engine_codecs \<Rightarrow> database res" where
  "in_memory E = database_open E []"

definition persist :: "engine_codecs \<Rightarrow> database \<Rightarrow> database" where
  "persist E db =
     db\<lparr>db_meta_file := Some (meta_save E \<lparr>ds_version = 1, ds_tables = cat_snapshot (db_catalog db),
                                           ds_indexes = im_snapshot (db_indexes db)\<rparr>)\<rparr>"

text \<open>The executor works on the parts of the database and the session of its caller.\<close>

definition executor_new :: "database \<Rightarrow> session \<Rightarrow> exec_state" where
  "executor_new db se = \<lparr>ex_catalog = db_catalog db, ex_storage = db_storage db, ex_indexes = db_indexes db,
     ex_active_write_txns = db_active_write_txns db, ex_session = se\<rparr>"

definition executor_done :: "exec_state \<Rightarrow> database \<Rightarrow> database" where
  "executor_done s db = db\<lparr>db_catalog := ex_catalog s, db_storage := ex_storage s, db_indexes := ex_indexes s,
     db_active_write_txns := ex_active_write_txns s\<rparr>"

fun count_rows :: "storage_codecs \<Rightarrow> string list \<Rightarrow> storage \<Rightarrow> u64 \<times> storage" where
  "count_rows C [] st = (0, st)"
| "count_rows C (t # ts) st =
     (case st_row_count C t st of (n, st) \<Rightarrow> (case count_rows C ts st of (m, st) \<Rightarrow> (n + m, st)))"

definition update_stats :: "storage_codecs \<Rightarrow> database \<Rightarrow> database" where
  "update_stats C db =
     (case count_rows C (list_tables (db_catalog db)) (db_storage db) of
        (n, st) \<Rightarrow> db\<lparr>db_storage := st, db_stats := \<lparr>dbs_queries_executed = dbs_queries_executed (db_stats db) + 1,
                                                   dbs_total_rows = n\<rparr>\<rparr>)"

definition execute_session :: "engine_codecs \<Rightarrow> sql_library \<Rightarrow> string \<Rightarrow>
    (moodeng_error, database \<times> session, query_result) op" where
  "execute_session E L sql ds =
     (case ds of (db, se) \<Rightarrow>
        (case execute (ec_storage E) L sql (executor_new db se) of
           (Inl e, s) \<Rightarrow> (Inl e, (executor_done s db, ex_session s))
         | (Inr result, s) \<Rightarrow>
             let db1 = executor_done s db;
                 db2 = (if qr_meta_changed result then persist E db1 else db1)
             in (Inr result, (update_stats (ec_storage E) db2, ex_session s))))"

definition database_execute :: "engine_codecs \<Rightarrow> sql_library \<Rightarrow> string \<Rightarrow> (moodeng_error, database, query_result) op" where
  "database_execute E L sql db = (case execute_session E L sql (db, session_new) of (r, (db', _)) \<Rightarrow> (r, db'))"

definition database_check :: "database \<Rightarrow> string list" where
  "database_check db =
     (let issues = reconcile_storage (db_files db) (list_tables (db_catalog db))
      in if issues = [] then [''ok: catalog and storage are consistent''] else issues)"

definition flush_wal :: "database \<Rightarrow> database" where
  "flush_wal db = db\<lparr>db_storage := (db_storage db)\<lparr>st_wal := wal_flush (st_wal (db_storage db))\<rparr>\<rparr>"

subsection \<open>Backup\<close>

definition database_checkpoint :: "engine_codecs \<Rightarrow> (moodeng_error, database, unit) op" where
  "database_checkpoint E db =
     (case checkpoint (ec_storage E) (db_storage db) of
        (Inl e, st) \<Rightarrow> (Inl e, db\<lparr>db_storage := st\<rparr>)
      | (Inr _, st) \<Rightarrow> (Inr (), persist E (db\<lparr>db_storage := st\<rparr>)))"

text \<open>The archive of the files of a directory.\<close>

definition backup :: "engine_codecs \<Rightarrow> files \<Rightarrow> bytes" where
  "backup E fs = ser (ec_archive E) fs"

text \<open>The spin loop: \<open>obs i\<close> is the counter at the \<open>i\<close>-th look.\<close>

partial_function (option) wait_for_write_txns :: "(nat \<Rightarrow> u64) \<Rightarrow> nat \<Rightarrow> nat option" where
  "wait_for_write_txns obs i = (if 0 < obs i then wait_for_write_txns obs (i + 1) else Some i)"

text \<open>The second wait is under the backup lock, which no write statement can pass.\<close>

definition backup_live :: "engine_codecs \<Rightarrow> (nat \<Rightarrow> u64) \<Rightarrow> database \<Rightarrow> (bytes res \<times> database) option" where
  "backup_live E obs db =
     (case wait_for_write_txns obs 0 of None \<Rightarrow> None | Some i \<Rightarrow>
     (case wait_for_write_txns obs (i + 1) of None \<Rightarrow> None | Some _ \<Rightarrow>
        Some (case database_checkpoint E db of
                (Inl e, db') \<Rightarrow> (Inl e, db')
              | (Inr _, db') \<Rightarrow> (Inr (backup E (db_files db')), db'))))"

definition restore :: "engine_codecs \<Rightarrow> bytes \<Rightarrow> files \<Rightarrow> files res" where
  "restore E archive fs =
     (case deser (ec_archive E) archive of
        Inl e \<Rightarrow> Inl (StorageError (''restore: '' @ e))
      | Inr entries \<Rightarrow> Inr (fold (\<lambda>(n, b). AList.update n b) entries fs))"

definition list_backup_files :: "engine_codecs \<Rightarrow> bytes \<Rightarrow> string list res" where
  "list_backup_files E archive =
     (case deser (ec_archive E) archive of
        Inl e \<Rightarrow> Inl (StorageError (''list backup: '' @ e))
      | Inr entries \<Rightarrow> Inr (map fst entries))"

end
