(* ===== verification/Restart.thy ===== *)
theory Restart
  imports Engine
begin

text \<open>
  The way of a database through its files: what a checkpoint writes, what opening the directory reads, when
  that gives the database back, and that backup and restore do so too.
\<close>

subsection \<open>Rebuilding indexes\<close>

lemma uniq_keys_mono: "uniq_keys names cols R \<Longrightarrow> R' \<subseteq>\<^sub>m R \<Longrightarrow> uniq_keys names cols R'"
  unfolding uniq_keys_def map_le_def by (metis domI)

lemma rebuild_index_succeeds:
  assumes "distinct (map fst rows)" "im_unique meta \<Longrightarrow> uniq_keys names (im_columns meta) (row_vals (map_of rows))"
  shows "\<exists>idx. rebuild_index names meta rows = Inr idx"
  using assms
proof (induction rows rule: rev_induct)
  case Nil
  then show ?case by (simp add: rebuild_index_def)
next
  case (snoc e rows)
  obtain i r where e: "e = (i, r)" by fastforce
  have new: "map_of rows i = None" "distinct (map fst rows)"
    using snoc.prems(1) e by (auto simp: map_of_eq_None_iff)
  have upd: "row_vals (map_of (rows @ [e])) = (row_vals (map_of rows))(i \<mapsto> row_values r)"
    using new(1) e by (auto simp: fun_eq_iff map_add_def row_vals_def split: option.splits)
  have fresh: "row_vals (map_of rows) i = None" using new(1) by (simp add: row_vals_def)
  have "row_vals (map_of rows) \<subseteq>\<^sub>m row_vals (map_of (rows @ [e]))"
    unfolding upd using fresh by (auto simp: map_le_def)
  then obtain idx where idx: "rebuild_index names meta rows = Inr idx"
    using snoc.IH [OF new(2)] snoc.prems(2) uniq_keys_mono by blast
  note ag = rebuild_index_agrees [OF new(2) idx]
  have "\<not> key_clash names (row_vals (map_of rows)) (row_values r) idx"
  proof
    assume "key_clash names (row_vals (map_of rows)) (row_values r) idx"
    then obtain j v where j: "im_unique meta" "row_vals (map_of rows) j = Some v"
      "index_key (key_of_row (im_columns meta) names v) = index_key (key_of_row (im_columns meta) names (row_values r))"
      using ag by (auto simp: key_clash_def row_key_def)
    have "j = i" using snoc.prems(2) [OF j(1)] j(2,3) fresh unfolding upd uniq_keys_def
      by (metis fun_upd_other fun_upd_same option.distinct(1))
    then show False using j(2) fresh by simp
  qed
  then obtain idx' where "index_insert (row_key names idx (row_values r)) i idx = Inr idx'"
    using index_insert_fails_iff [of names "row_vals (map_of rows)" "im_name meta" idx "row_values r" i] ag
    by (cases "index_insert (row_key names idx (row_values r)) i idx") auto
  then show ?case using idx ag by (simp add: rebuild_index_def e row_key_def)
qed

lemma rebuild_index_error: "rebuild_index names meta rows = Inl e \<Longrightarrow> duplicate_key e"
proof (induction rows arbitrary: e rule: rev_induct)
  case Nil
  then show ?case by (simp add: rebuild_index_def)
next
  case (snoc x rows)
  obtain i r where x: "x = (i, r)" by fastforce
  let ?k = "key_of_row (im_columns meta) names (row_values r)"
  show ?case
  proof (cases "rebuild_index names meta rows")
    case (Inl e')
    then show ?thesis using snoc by (simp add: rebuild_index_def x)
  next
    case (Inr idx)
    then have "index_insert ?k i idx = Inl e" using snoc.prems by (simp add: rebuild_index_def x)
    then obtain msg where "e = DuplicateKey msg" using index_insert_error by blast
    then show ?thesis by simp
  qed
qed

text \<open>The indexes of one table, from its list in the catalog: their shape, and that the rows \<open>R\<close> have
  different keys in the unique ones.\<close>

definition metas_shape :: "index_meta list \<Rightarrow> (string \<times> string list \<times> bool) set" where
  "metas_shape metas = (\<lambda>meta. (im_name meta, im_columns meta, im_unique meta)) ` set metas"

definition metas_hold :: "table_schema \<Rightarrow> index_meta list \<Rightarrow> (u64 \<rightharpoonup> db_value list) \<Rightarrow> bool" where
  "metas_hold schema metas R \<longleftrightarrow>
     (\<forall>meta \<in> set metas. im_unique meta \<longrightarrow> uniq_keys (schema_names schema) (im_columns meta) R)"

definition rebuild_meta :: "storage_codecs \<Rightarrow> string \<Rightarrow> table_schema \<Rightarrow> index_meta \<Rightarrow>
    (moodeng_error, storage \<times> index_manager, unit) op" where
  "rebuild_meta C table schema meta sm =
     (case st_scan C table (fst sm) of
        (Inl e, s') \<Rightarrow> (Inl e, (s', snd sm))
      | (Inr rows, s') \<Rightarrow>
          (case rebuild_index (map col_name (ts_columns schema)) meta rows of
             Inl e \<Rightarrow> (Inl e, (s', snd sm))
           | Inr idx \<Rightarrow> (case im_create_index table idx (snd sm) of (r, m') \<Rightarrow> (r, (s', m')))))"

lemma rebuild_table_alt:
  "rebuild_table C cat table = sbind (slift (get_table cat table)) (\<lambda>schema.
     sfold (\<lambda>meta _. rebuild_meta C table schema meta) (ts_indexes schema) ())"
  unfolding rebuild_table_def rebuild_meta_def ..

lemma create_index_fresh:
  assumes "\<forall>n cols u. (n, cols, u) \<in> set (index_shape m table) \<longrightarrow> n \<noteq> idx_name idx"
    and "manager_agrees m table names R"
  shows "\<exists>m'. im_create_index table idx m = (Inr (), m')"
proof -
  let ?t = "case map_of m table of None \<Rightarrow> [] | Some t \<Rightarrow> t"
  have "map_of ?t (idx_name idx) = None"
  proof (rule ccontr)
    assume "map_of ?t (idx_name idx) \<noteq> None"
    then obtain i where i: "map_of ?t (idx_name idx) = Some i" by auto
    then obtain t where t: "map_of m table = Some t" "map_of t (idx_name idx) = Some i" by (auto split: option.splits)
    then have "idx_name i = idx_name idx"
      using assms(2) by (auto simp: manager_agrees_def indexes_agree_def index_agrees_def dest: amap_inv_lookup)
    moreover have "shape_of i \<in> set (index_shape m table)"
      using t map_of_SomeD [OF t(2)] by (force simp: index_shape_def table_indexes_def)
    ultimately show False using assms(1) by (auto simp: shape_of_def)
  qed
  then show ?thesis by (simp add: im_create_index_def Let_def)
qed

definition rebuilt :: "storage_codecs \<Rightarrow> string \<Rightarrow> table_schema \<Rightarrow> index_meta list \<Rightarrow> storage \<Rightarrow> index_manager \<Rightarrow>
    storage \<times> index_manager \<Rightarrow> bool" where
  "rebuilt C table schema metas s m sm \<longleftrightarrow> metas_hold schema metas (table_vals C s table)
     \<and> st_same C s (fst sm) \<and> mem_same s (fst sm)
     \<and> manager_agrees (snd sm) table (schema_names schema) (table_vals C s table)
     \<and> set (index_shape (snd sm) table) = metas_shape metas \<union> set (index_shape m table)
     \<and> (\<forall>t. t \<noteq> table \<longrightarrow> map_of (snd sm) t = map_of m t)"

lemma rebuild_meta_law:
  assumes "st_inv C s" "mem_only s" "manager_agrees m table (schema_names schema) (table_vals C s table)"
    and "\<forall>n cols u. (n, cols, u) \<in> set (index_shape m table) \<longrightarrow> n \<noteq> im_name meta"
  shows "wp (rebuild_meta C table schema meta) (\<lambda>_. rebuilt C table schema [meta] s m)
    (\<lambda>e _. duplicate_key e \<and> \<not> metas_hold schema [meta] (table_vals C s table)) (s, m)"
proof -
  obtain xs s' where scan: "st_scan C table s = (Inr xs, s')" "lists_rows xs (st_rows C s table)" "st_same C s s'" "mem_same s s'"
    using mem_scan [OF assms(1,2)] by blast
  have rows: "distinct (map fst xs)" "row_vals (map_of xs) = table_vals C s table"
    using scan(2) scanned_rows(1) [OF scan(2)] by (simp_all add: lists_rows_def table_vals_def)
  show ?thesis
  proof (cases "rebuild_index (schema_names schema) meta xs")
    case (Inl e)
    then have "\<not> metas_hold schema [meta] (table_vals C s table)"
      using rebuild_index_succeeds [OF rows(1), of meta "schema_names schema"] rows(2) by (auto simp: metas_hold_def)
    then show ?thesis using Inl scan(1) rebuild_index_error [OF Inl] by (simp add: wp_def rebuild_meta_def)
  next
    case (Inr idx)
    note ag = rebuild_index_agrees [OF rows(1) Inr, unfolded rows(2)]
    have name: "idx_name idx = im_name meta" using ag by (simp add: index_agrees_def)
    obtain m' where m': "im_create_index table idx m = (Inr (), m')"
      using create_index_fresh [of m table idx, OF _ assms(3)] assms(4) name by auto
    have idx_ok: "index_agrees (schema_names schema) (table_vals C s table) (idx_name idx) idx" using ag name by simp
    note law = im_create_index_law [OF assms(3) idx_ok m']
    have shape: "shape_of idx = (im_name meta, im_columns meta, im_unique meta)" using ag name by (simp add: shape_of_def)
    then have "metas_hold schema [meta] (table_vals C s table)"
      using manager_agrees_uniq [OF law(1), of "im_name meta" "im_columns meta"] law(3) by (simp add: metas_hold_def)
    then show ?thesis using scan Inr m' law shape by (auto simp: wp_def rebuild_meta_def rebuilt_def metas_shape_def)
  qed
qed

lemma rebuilt_frame:
  assumes "rebuilt C table schema metas s m (s1, m1)" "mem_only s"
  shows "st_inv C s1" "mem_only s1" "table_vals C s1 = table_vals C s"
  using assms table_vals_same [of C s s1] mem_sameD(1) [of s s1] by (auto simp: rebuilt_def st_same_def)

lemma rebuilt_append:
  assumes "rebuilt C table schema metas s m (s1, m1)" "rebuilt C table schema metas' s1 m1 sm"
  shows "rebuilt C table schema (metas @ metas') s m sm"
proof -
  have "table_vals C s1 = table_vals C s" using assms(1) table_vals_same [of C s s1] by (simp add: rebuilt_def)
  moreover have "st_same C s (fst sm)" "mem_same s (fst sm)"
    using assms by (auto simp: rebuilt_def st_same_def mem_same_def)
  ultimately show ?thesis using assms by (auto simp: rebuilt_def metas_hold_def metas_shape_def)
qed

lemma rebuild_metas_law:
  assumes "st_inv C s" "mem_only s" "manager_agrees m table (schema_names schema) (table_vals C s table)"
    and "distinct (map im_name metas)"
    and "\<forall>n cols u meta. (n, cols, u) \<in> set (index_shape m table) \<longrightarrow> meta \<in> set metas \<longrightarrow> n \<noteq> im_name meta"
  shows "wp (sfold (\<lambda>meta _. rebuild_meta C table schema meta) metas ()) (\<lambda>_. rebuilt C table schema metas s m)
    (\<lambda>e _. duplicate_key e \<and> \<not> metas_hold schema metas (table_vals C s table)) (s, m)"
  using assms
proof (induction metas arbitrary: s m)
  case Nil
  then show ?case by (simp add: wp_simps rebuilt_def metas_hold_def metas_shape_def st_same_def mem_same_def)
next
  case (Cons meta metas)
  let ?E = "\<lambda>e _. duplicate_key e \<and> \<not> metas_hold schema (meta # metas) (table_vals C s table)"
  have rest: "wp (sfold (\<lambda>meta _. rebuild_meta C table schema meta) metas ()) (\<lambda>_. rebuilt C table schema (meta # metas) s m)
      ?E (s1, m1)" if 1: "rebuilt C table schema [meta] s m (s1, m1)" for s1 m1
  proof -
    note fr = rebuilt_frame [OF 1 Cons.prems(2)]
    have sep: "\<forall>n cols u meta'. (n, cols, u) \<in> set (index_shape m1 table) \<longrightarrow> meta' \<in> set metas \<longrightarrow> n \<noteq> im_name meta'"
    proof (intro allI impI)
      fix n cols u meta' assume a: "(n, cols, u) \<in> set (index_shape m1 table)" "meta' \<in> set metas"
      have "im_name meta' \<in> im_name ` set metas" "im_name meta \<notin> im_name ` set metas"
        using a(2) Cons.prems(4) by auto
      then have "im_name meta \<noteq> im_name meta'" by metis
      moreover have "n = im_name meta \<or> (n, cols, u) \<in> set (index_shape m table)"
        using a(1) 1 by (auto simp: rebuilt_def metas_shape_def)
      ultimately show "n \<noteq> im_name meta'" using Cons.prems(5) a(2) by auto
    qed
    have ag: "manager_agrees m1 table (schema_names schema) (table_vals C s1 table)"
      using 1 fr(3) by (simp add: rebuilt_def)
    have dist: "distinct (map im_name metas)" using Cons.prems(4) by simp
    show ?thesis
      by (rule wp_mono [OF Cons.IH [OF fr(1,2) ag dist sep]])
        (use rebuilt_append [OF 1] fr(3) in \<open>auto simp: metas_hold_def\<close>)
  qed
  have fresh: "\<forall>n cols u. (n, cols, u) \<in> set (index_shape m table) \<longrightarrow> n \<noteq> im_name meta" using Cons.prems(5) by auto
  have "wp (rebuild_meta C table schema meta)
      (\<lambda>_. wp (sfold (\<lambda>meta _. rebuild_meta C table schema meta) metas ()) (\<lambda>_. rebuilt C table schema (meta # metas) s m) ?E)
      ?E (s, m)"
    by (rule wp_mono [OF rebuild_meta_law [OF Cons.prems(1-3) fresh]])
      (use rest in \<open>auto simp: metas_hold_def\<close>)
  then show ?case by (simp add: wp_simps)
qed

text \<open>The rows of every table have different keys in its unique indexes.\<close>

definition all_hold :: "catalog \<Rightarrow> string set \<Rightarrow> table_values \<Rightarrow> bool" where
  "all_hold cat tables V \<longleftrightarrow> (\<forall>t \<in> tables. \<forall>schema. map_of (cat_tables cat) t = Some schema \<longrightarrow>
     metas_hold schema (ts_indexes schema) (V t))"

text \<open>The indexes of the catalog are there and cover exactly the rows of their tables.\<close>

definition all_indexed :: "catalog \<Rightarrow> string set \<Rightarrow> table_values \<Rightarrow> index_manager \<Rightarrow> bool" where
  "all_indexed cat tables V m \<longleftrightarrow> (\<forall>t \<in> tables. \<forall>schema. map_of (cat_tables cat) t = Some schema \<longrightarrow>
     manager_agrees m t (schema_names schema) (V t) \<and> set (index_shape m t) = metas_shape (ts_indexes schema))"

lemma all_indexed_holds: "all_indexed cat tables V m \<Longrightarrow> all_hold cat tables V"
proof -
  have "metas_hold schema metas R" if "manager_agrees m t (schema_names schema) R" "set (index_shape m t) = metas_shape metas"
    for schema metas R t
    unfolding metas_hold_def
  proof (intro ballI impI)
    fix meta assume "meta \<in> set metas" "im_unique meta"
    then have "(im_name meta, im_columns meta, True) \<in> set (index_shape m t)"
      unfolding that(2) metas_shape_def by (auto intro: image_eqI [of _ _ meta])
    then show "uniq_keys (schema_names schema) (im_columns meta) R" by (rule manager_agrees_uniq [OF that(1)])
  qed
  then show "all_indexed cat tables V m \<Longrightarrow> all_hold cat tables V" unfolding all_indexed_def all_hold_def by blast
qed

lemma rebuild_tables_law:
  assumes "st_inv C s" "mem_only s" "distinct tables"
    and "\<forall>table \<in> set tables. map_of m table = None \<and> (\<exists>schema. map_of (cat_tables cat) table = Some schema
      \<and> distinct (map im_name (ts_indexes schema)))"
  shows "wp (sfold (\<lambda>table _. rebuild_table C cat table) tables ())
    (\<lambda>_ sm. st_same C s (fst sm) \<and> mem_same s (fst sm) \<and> all_indexed cat (set tables) (table_vals C s) (snd sm)
       \<and> (\<forall>t. t \<notin> set tables \<longrightarrow> map_of (snd sm) t = map_of m t))
    (\<lambda>e _. duplicate_key e \<and> \<not> all_hold cat (set tables) (table_vals C s)) (s, m)"
  using assms
proof (induction tables arbitrary: s m)
  case Nil
  then show ?case by (simp add: wp_simps all_indexed_def st_same_def mem_same_def)
next
  case (Cons table tables)
  let ?Q = "\<lambda>_ sm. st_same C s (fst sm) \<and> mem_same s (fst sm) \<and> all_indexed cat (set (table # tables)) (table_vals C s) (snd sm)
       \<and> (\<forall>t. t \<notin> set (table # tables) \<longrightarrow> map_of (snd sm) t = map_of m t)"
  let ?E = "\<lambda>e _. duplicate_key e \<and> \<not> all_hold cat (set (table # tables)) (table_vals C s)"
  obtain schema where schema: "map_of (cat_tables cat) table = Some schema" "map_of m table = None"
    "distinct (map im_name (ts_indexes schema))" using Cons.prems(4) by auto
  have none: "index_shape m table = []" "manager_agrees m table (schema_names schema) (table_vals C s table)"
    using schema(2) by (simp_all add: index_shape_def table_indexes_def manager_agrees_def)
  have rest: "wp (sfold (\<lambda>table _. rebuild_table C cat table) tables ()) ?Q ?E (s1, m1)"
    if 1: "rebuilt C table schema (ts_indexes schema) s m (s1, m1)" for s1 m1
  proof -
    note fr = rebuilt_frame [OF 1 Cons.prems(2)]
    have prems: "distinct tables" "\<forall>t \<in> set tables. map_of m1 t = None \<and> (\<exists>schema. map_of (cat_tables cat) t = Some schema
        \<and> distinct (map im_name (ts_indexes schema)))"
      using Cons.prems(3,4) 1 by (auto simp: rebuilt_def)
    have "?Q u sm" if sm: "st_same C s1 (fst sm)" "mem_same s1 (fst sm)" "all_indexed cat (set tables) (table_vals C s1) (snd sm)"
      "\<forall>t. t \<notin> set tables \<longrightarrow> map_of (snd sm) t = map_of m1 t" for sm and u :: unit
    proof -
      have here: "map_of (snd sm) table = map_of m1 table" using sm(4) Cons.prems(3) by simp
      have same: "manager_agrees (snd sm) table = manager_agrees m1 table" "index_shape (snd sm) table = index_shape m1 table"
        using here index_shape_cong [OF here] by (simp_all add: manager_agrees_def fun_eq_iff)
      have "st_same C s (fst sm)" "mem_same s (fst sm)" using 1 sm(1,2) by (auto simp: rebuilt_def st_same_def mem_same_def)
      moreover have "all_indexed cat (set (table # tables)) (table_vals C s) (snd sm)"
        using 1 sm(3) same schema(1) none(1) fr(3) by (auto simp: all_indexed_def rebuilt_def)
      moreover have "\<forall>t. t \<notin> set (table # tables) \<longrightarrow> map_of (snd sm) t = map_of m t"
        using sm(4) 1 by (simp add: rebuilt_def)
      ultimately show ?thesis by simp
    qed
    then show ?thesis
      by (intro wp_mono [OF Cons.IH [OF fr(1,2) prems]]) (use fr(3) in \<open>auto simp: all_hold_def\<close>)
  qed
  have sep: "\<forall>n cols u meta. (n, cols, u) \<in> set (index_shape m table) \<longrightarrow> meta \<in> set (ts_indexes schema) \<longrightarrow> n \<noteq> im_name meta"
    using none(1) by simp
  have "wp (sfold (\<lambda>meta _. rebuild_meta C table schema meta) (ts_indexes schema) ())
      (\<lambda>_. wp (sfold (\<lambda>table _. rebuild_table C cat table) tables ()) ?Q ?E) ?E (s, m)"
    by (rule wp_mono [OF rebuild_metas_law [OF Cons.prems(1,2) none(2) schema(3) sep]])
      (use rest schema(1) in \<open>auto simp: all_hold_def\<close>)
  then have "wp (rebuild_table C cat table) (\<lambda>_. wp (sfold (\<lambda>table _. rebuild_table C cat table) tables ()) ?Q ?E) ?E (s, m)"
    using schema(1) by (simp add: rebuild_table_alt wp_simps get_table_def)
  then show ?case by (simp add: wp_simps)
qed

subsection \<open>Files of a checkpoint\<close>

lemma checkpoint_loop_files:
  assumes "mem_only s"
  shows "\<exists>s'. sfold (\<lambda>table _ s. if map_of (st_tables s) table \<noteq> None then persist_table C table s
      else (Inr (), s)) names () s = (Inr (), s')
    \<and> st_tables s' = st_tables s \<and> st_options s' = st_options s \<and> st_page_files s' = st_page_files s \<and> st_wal s' = st_wal s
    \<and> map_of (st_dat_files s') = (\<lambda>t. if t \<in> set names then (case map_of (st_tables s) t of
          Some (Memory d) \<Rightarrow> Some (ser (sc_table C) d) | _ \<Rightarrow> map_of (st_dat_files s) t) else map_of (st_dat_files s) t)
    \<and> (distinct (map fst (st_dat_files s)) \<longrightarrow> distinct (map fst (st_dat_files s')))"
  using assms
proof (induction names arbitrary: s)
  case (Cons n names)
  let ?f = "\<lambda>table (_::unit) s. if map_of (st_tables s) table \<noteq> None then persist_table C table s else (Inr (), s)"
  show ?case
  proof (cases "map_of (st_tables s) n")
    case None
    obtain s' where s': "sfold ?f names () s = (Inr (), s')"
      "st_tables s' = st_tables s" "st_options s' = st_options s" "st_page_files s' = st_page_files s" "st_wal s' = st_wal s"
      "map_of (st_dat_files s') = (\<lambda>t. if t \<in> set names then (case map_of (st_tables s) t of
          Some (Memory d) \<Rightarrow> Some (ser (sc_table C) d) | _ \<Rightarrow> map_of (st_dat_files s) t) else map_of (st_dat_files s) t)"
      "distinct (map fst (st_dat_files s)) \<longrightarrow> distinct (map fst (st_dat_files s'))"
      using Cons.IH [OF Cons.prems] by blast
    moreover have "sfold ?f (n # names) () s = sfold ?f names () s" using None by (simp add: sbind_def)
    ultimately show ?thesis using None by (intro exI [of _ s']) (auto simp: fun_eq_iff)
  next
    case (Some b)
    then obtain d where d: "map_of (st_tables s) n = Some (Memory d)" using Cons.prems by (auto simp: mem_only_def)
    let ?s = "s\<lparr>st_dat_files := AList.update n (ser (sc_table C) d) (st_dat_files s)\<rparr>"
    have "mem_only ?s" using Cons.prems by (simp add: mem_only_def use_paged_def)
    from Cons.IH [OF this] obtain s' where s': "sfold ?f names () ?s = (Inr (), s')"
      "st_tables s' = st_tables ?s" "st_options s' = st_options ?s" "st_page_files s' = st_page_files ?s" "st_wal s' = st_wal ?s"
      "map_of (st_dat_files s') = (\<lambda>t. if t \<in> set names then (case map_of (st_tables ?s) t of
          Some (Memory d) \<Rightarrow> Some (ser (sc_table C) d) | _ \<Rightarrow> map_of (st_dat_files ?s) t) else map_of (st_dat_files ?s) t)"
      "distinct (map fst (st_dat_files ?s)) \<longrightarrow> distinct (map fst (st_dat_files s'))" by blast
    moreover have "sfold ?f (n # names) () s = sfold ?f names () ?s" using d by (simp add: sbind_def persist_table_def)
    ultimately show ?thesis using d
      by (intro exI [of _ s']) (auto simp: fun_eq_iff update_conv' distinct_update split: option.splits table_backend.splits)
  qed
qed simp

lemma checkpoint_files:
  assumes "mem_only s"
  shows "\<exists>s'. checkpoint C s = (Inr (), s') \<and> st_tables s' = st_tables s \<and> st_options s' = st_options s
    \<and> st_page_files s' = st_page_files s \<and> f_content (wal_file (st_wal s')) = []
    \<and> wal_checkpoint_file (st_wal s') = Some (ser (sc_lsn C) (wal_lsn (st_wal s)))
    \<and> map_of (st_dat_files s') = (\<lambda>t. case map_of (st_tables s) t of
          Some (Memory d) \<Rightarrow> Some (ser (sc_table C) d) | _ \<Rightarrow> map_of (st_dat_files s) t)
    \<and> (distinct (map fst (st_dat_files s)) \<longrightarrow> distinct (map fst (st_dat_files s')))"
proof -
  obtain t where t: "checkpoint_all C s = (Inr (), t)" "st_tables t = st_tables s" "st_options t = st_options s"
    "st_page_files t = st_page_files s" "st_wal t = st_wal s"
    "map_of (st_dat_files t) = (\<lambda>n. if n \<in> set (map fst (st_tables s)) then (case map_of (st_tables s) n of
          Some (Memory d) \<Rightarrow> Some (ser (sc_table C) d) | _ \<Rightarrow> map_of (st_dat_files s) n) else map_of (st_dat_files s) n)"
    "distinct (map fst (st_dat_files s)) \<longrightarrow> distinct (map fst (st_dat_files t))"
    using checkpoint_loop_files [OF assms, of C "map fst (st_tables s)"] unfolding checkpoint_all_def by blast
  have "n \<in> set (map fst (st_tables s)) \<longleftrightarrow> map_of (st_tables s) n \<noteq> None" for n by (simp add: map_of_eq_None_iff)
  then have "map_of (st_dat_files t) = (\<lambda>n. case map_of (st_tables s) n of
          Some (Memory d) \<Rightarrow> Some (ser (sc_table C) d) | _ \<Rightarrow> map_of (st_dat_files s) n)"
    unfolding t(6) by (auto simp: fun_eq_iff split: option.splits)
  then show ?thesis using t
    by (simp add: checkpoint_def sbind_def wal_truncate_def mark_checkpoint_def wal_flush_def sync_all_def)
qed

subsection \<open>Reading the files back\<close>

lemma split_ext_dat: "t \<noteq> [] \<Longrightarrow> split_ext (t @ ''.dat'') = Some (t, ''dat'')"
  by (simp add: split_ext_def)

lemma split_ext_fixed:
  "split_ext WAL_FILE = Some (''wal'', ''log'')" "split_ext CHECKPOINT_FILE = Some (''checkpoint'', ''bin'')"
  "split_ext META_FILE = Some (''meta'', ''bin'')"
  by (simp_all add: split_ext_def WAL_FILE_def CHECKPOINT_FILE_def META_FILE_def)

lemma files_with_ext_append: "files_with_ext x (fs @ gs) = files_with_ext x fs @ files_with_ext x gs"
  by (simp add: files_with_ext_def List.map_filter_def)

lemma files_with_ext_dats:
  assumes "[] \<notin> set (map fst dats)"
  shows "files_with_ext ''dat'' (map (\<lambda>(t, b). (t @ ''.dat'', b)) dats) = dats"
    "files_with_ext ''pages'' (map (\<lambda>(t, b). (t @ ''.dat'', b)) dats) = []"
  using assms by (induction dats) (auto simp: files_with_ext_def List.map_filter_def split_ext_dat)

lemma files_with_ext_fixed:
  assumes "x = ''dat'' \<or> x = ''pages''"
  shows "files_with_ext x [(WAL_FILE, b)] = []" "files_with_ext x (optional_file CHECKPOINT_FILE c) = []"
    "files_with_ext x (optional_file META_FILE c) = []"
  using assms by (auto simp: files_with_ext_def List.map_filter_def optional_file_def split_ext_fixed split: option.splits)

lemma db_files_mem:
  assumes "mem_only (db_storage db)" "st_page_files (db_storage db) = []" "distinct (map fst (st_tables (db_storage db)))"
  shows "db_files db = [(WAL_FILE, f_content (wal_file (st_wal (db_storage db))))]
      @ optional_file CHECKPOINT_FILE (wal_checkpoint_file (st_wal (db_storage db)))
      @ optional_file META_FILE (db_meta_file db) @ map (\<lambda>(t, b). (t @ ''.dat'', b)) (st_dat_files (db_storage db))"
proof -
  have "backend_pages e = []" if "e \<in> set (st_tables (db_storage db))" for e
  proof -
    obtain t b where e: "e = (t, b)" by fastforce
    then have "map_of (st_tables (db_storage db)) t = Some b" using that assms(3) by simp
    then obtain d where "b = Memory d" using assms(1) unfolding mem_only_def by blast
    then show ?thesis using e by simp
  qed
  then have "concat (map backend_pages (st_tables (db_storage db))) = []" by simp
  then show ?thesis unfolding db_files_def Let_def by (simp add: assms(2))
qed

lemma db_files_read:
  assumes "mem_only (db_storage db)" "st_page_files (db_storage db) = []" "[] \<notin> set (map fst (st_dat_files (db_storage db)))"
    and "distinct (map fst (st_tables (db_storage db)))"
  shows "files_with_ext ''dat'' (db_files db) = st_dat_files (db_storage db)" "files_with_ext ''pages'' (db_files db) = []"
    "map_of (db_files db) WAL_FILE = Some (f_content (wal_file (st_wal (db_storage db))))"
    "wal_checkpoint_file (st_wal (db_storage db)) = Some c \<Longrightarrow> map_of (db_files db) CHECKPOINT_FILE = Some c"
    "wal_checkpoint_file (st_wal (db_storage db)) = Some c \<Longrightarrow> db_meta_file db = Some m \<Longrightarrow> map_of (db_files db) META_FILE = Some m"
proof -
  note files = db_files_mem [OF assms(1,2,4)]
  show "files_with_ext ''dat'' (db_files db) = st_dat_files (db_storage db)" "files_with_ext ''pages'' (db_files db) = []"
    unfolding files files_with_ext_append
    by (simp_all only: files_with_ext_fixed files_with_ext_dats [OF assms(3)] append_Nil append_Nil2 simp_thms)
  show "map_of (db_files db) WAL_FILE = Some (f_content (wal_file (st_wal (db_storage db))))"
    unfolding files by simp
  show "map_of (db_files db) CHECKPOINT_FILE = Some c" if "wal_checkpoint_file (st_wal (db_storage db)) = Some c"
    unfolding files using that by (simp add: optional_file_def WAL_FILE_def CHECKPOINT_FILE_def)
  show "map_of (db_files db) META_FILE = Some m"
    if "wal_checkpoint_file (st_wal (db_storage db)) = Some c" "db_meta_file db = Some m"
    unfolding files using that by (simp add: optional_file_def WAL_FILE_def CHECKPOINT_FILE_def META_FILE_def)
qed

lemma db_files_distinct:
  assumes "mem_only (db_storage db)" "st_page_files (db_storage db) = []" "[] \<notin> set (map fst (st_dat_files (db_storage db)))"
    and "distinct (map fst (st_tables (db_storage db)))" "distinct (map fst (st_dat_files (db_storage db)))"
  shows "distinct (map fst (db_files db))"
proof -
  have ends: "(t @ ''.dat'') \<notin> {WAL_FILE, CHECKPOINT_FILE, META_FILE}" if "t \<noteq> []" for t
    using split_ext_dat [OF that] split_ext_fixed by auto
  have "distinct (map fst (map (\<lambda>(t, b). (t @ ''.dat'', b)) (st_dat_files (db_storage db))))"
  proof -
    have "map fst (map (\<lambda>(t, b). (t @ ''.dat'', b)) dats) = map (\<lambda>t. t @ ''.dat'') (map fst dats)" for dats :: files
      by (induction dats) auto
    then show ?thesis using assms(5) by (simp add: distinct_map inj_on_def del: map_map)
  qed
  then show ?thesis unfolding db_files_mem [OF assms(1,2,4)] using ends assms(3)
    by (auto simp: optional_file_def WAL_FILE_def CHECKPOINT_FILE_def META_FILE_def split: option.splits)
qed

lemma load_loop:
  assumes "\<not> use_paged s" "st_page_files s = []"
    and "\<forall>t \<in> set names. \<exists>buf. map_of (st_dat_files s) t = Some buf \<and> buf \<noteq> [] \<and> deser (sc_table C) buf = Inr (D t)"
  shows "\<exists>s'. sfold (\<lambda>name _. sbind (load_table C name) (\<lambda>b s. (Inr (), set_backend name b s))) names () s = (Inr (), s')
    \<and> map_of (st_tables s') = (\<lambda>t. if t \<in> set names then Some (Memory (D t)) else map_of (st_tables s) t)
    \<and> (distinct (map fst (st_tables s)) \<longrightarrow> distinct (map fst (st_tables s')))
    \<and> st_options s' = st_options s \<and> st_page_files s' = [] \<and> st_wal s' = st_wal s \<and> st_dat_files s' = st_dat_files s"
  using assms
proof (induction names arbitrary: s)
  case (Cons n names)
  let ?s = "set_backend n (Memory (D n)) s"
  have run: "sbind (load_table C n) (\<lambda>b s. (Inr (), set_backend n b s)) s = (Inr (), ?s)"
    using Cons.prems by (auto simp: sbind_def load_table_def Let_def read_table_file_def)
  have "\<not> use_paged ?s" "st_page_files ?s = []" "st_dat_files ?s = st_dat_files s"
    using Cons.prems by (simp_all add: set_backend_def use_paged_def)
  moreover have "\<forall>t \<in> set names. \<exists>buf. map_of (st_dat_files ?s) t = Some buf \<and> buf \<noteq> [] \<and> deser (sc_table C) buf = Inr (D t)"
    using Cons.prems(3) calculation(3) by simp
  ultimately obtain s' where
    s': "sfold (\<lambda>name _. sbind (load_table C name) (\<lambda>b s. (Inr (), set_backend name b s))) names () ?s = (Inr (), s')"
    "map_of (st_tables s') = (\<lambda>t. if t \<in> set names then Some (Memory (D t)) else map_of (st_tables ?s) t)"
    "distinct (map fst (st_tables ?s)) \<longrightarrow> distinct (map fst (st_tables s'))"
    "st_options s' = st_options ?s" "st_page_files s' = []" "st_wal s' = st_wal ?s" "st_dat_files s' = st_dat_files ?s"
    using Cons.IH [of ?s] by blast
  moreover have "sfold (\<lambda>name _. sbind (load_table C name) (\<lambda>b s. (Inr (), set_backend name b s))) (n # names) () s =
      sfold (\<lambda>name _. sbind (load_table C name) (\<lambda>b s. (Inr (), set_backend name b s))) names () ?s"
    unfolding sfold.simps by (subst sbind_def) (simp add: run)
  ultimately show ?case
    by (intro exI [of _ s']) (auto simp: set_backend_def update_conv' distinct_update fun_eq_iff)
qed simp

lemma ensure_loop:
  "\<forall>t \<in> set names. map_of (st_tables s) t \<noteq> None \<Longrightarrow> sfold (\<lambda>table _. ensure_table C table) names () s = (Inr (), s)"
  by (induction names) (auto simp: sbind_def ensure_table_def entry_or_new_def)

lemma replay_empty: "f_content (wal_file (st_wal s)) = [] \<Longrightarrow> replay_wal C s = (Inr 0, s)"
  by (simp add: replay_wal_def replay_since_def group_txns_def select_ops_def apply_all_def sbind_def)

subsection \<open>Restarting a database\<close>

text \<open>The parts of the hypotheses that concern the libraries: what is encoded is decoded to itself, and no
  encoding is empty.\<close>

definition db_snapshot :: "database \<Rightarrow> database_snapshot" where
  "db_snapshot db = \<lparr>ds_version = 1, ds_tables = cat_snapshot (db_catalog db), ds_indexes = im_snapshot (db_indexes db)\<rparr>"

definition codecs_faithful :: "engine_codecs \<Rightarrow> database \<Rightarrow> bool" where
  "codecs_faithful E db \<longleftrightarrow>
     (\<forall>t d. map_of (st_tables (db_storage db)) t = Some (Memory d) \<longrightarrow>
        codec_ok (sc_table (ec_storage E)) d \<and> ser (sc_table (ec_storage E)) d \<noteq> [])
     \<and> codec_ok (ec_meta E) (db_snapshot db) \<and> ser (ec_meta E) (db_snapshot db) \<noteq> []
     \<and> codec_ok (sc_lsn (ec_storage E)) (wal_lsn (st_wal (db_storage db)))"

text \<open>The directory holds no page files and no data file of a table the catalog does not have.\<close>

definition clean_dir :: "database \<Rightarrow> bool" where
  "clean_dir db \<longleftrightarrow> st_options (db_storage db) = storage_options_default \<and> st_page_files (db_storage db) = []
     \<and> distinct (map fst (st_dat_files (db_storage db)))
     \<and> set (map fst (st_dat_files (db_storage db))) \<subseteq> dom (map_of (cat_tables (db_catalog db)))
     \<and> map_of (cat_tables (db_catalog db)) [] = None"

text \<open>A database with its tables in memory, whose storage engine has exactly the tables of the catalog. Nothing is
  said of the indexes: they may have lost rows.\<close>

definition db_stored :: "engine_codecs \<Rightarrow> database \<Rightarrow> bool" where
  "db_stored E db \<longleftrightarrow> st_inv (ec_storage E) (db_storage db) \<and> mem_only (db_storage db) \<and> cat_wf (db_catalog db)
     \<and> tables_of (db_storage db) = dom (map_of (cat_tables (db_catalog db)))"

abbreviation db_vals :: "engine_codecs \<Rightarrow> database \<Rightarrow> table_values" where
  "db_vals E db \<equiv> table_vals (ec_storage E) (db_storage db)"

text \<open>No two rows of a table have the same key in a unique index of the catalog.\<close>

definition unique_keys_hold :: "engine_codecs \<Rightarrow> database \<Rightarrow> bool" where
  "unique_keys_hold E db \<longleftrightarrow> all_hold (db_catalog db) UNIV (db_vals E db)"

text \<open>The same schemas and the same tables, and every index covers exactly the rows of its table.\<close>

definition reopened :: "engine_codecs \<Rightarrow> database \<Rightarrow> database \<Rightarrow> bool" where
  "reopened E db db2 \<longleftrightarrow> map_of (cat_tables (db_catalog db2)) = map_of (cat_tables (db_catalog db))
     \<and> map_of (st_tables (db_storage db2)) = map_of (st_tables (db_storage db))
     \<and> all_indexed (db_catalog db2) UNIV (db_vals E db2) (db_indexes db2) \<and> db_stored E db2"

lemma db_storedD:
  assumes "db_stored E db"
  shows "st_inv (ec_storage E) (db_storage db)" "mem_only (db_storage db)" "cat_wf (db_catalog db)"
    "map_of (cat_tables (db_catalog db)) t = None \<Longrightarrow> map_of (st_tables (db_storage db)) t = None"
    "map_of (cat_tables (db_catalog db)) t = Some schema \<Longrightarrow> map_of (st_tables (db_storage db)) t \<noteq> None"
proof -
  note d = assms [unfolded db_stored_def]
  show "st_inv (ec_storage E) (db_storage db)" "mem_only (db_storage db)" "cat_wf (db_catalog db)" using d by blast+
  have "t \<in> tables_of (db_storage db) \<longleftrightarrow> t \<in> dom (map_of (cat_tables (db_catalog db)))" using d by blast
  then show "map_of (cat_tables (db_catalog db)) t = None \<Longrightarrow> map_of (st_tables (db_storage db)) t = None"
    "map_of (cat_tables (db_catalog db)) t = Some schema \<Longrightarrow> map_of (st_tables (db_storage db)) t \<noteq> None"
    by (simp_all add: domIff)
qed

text \<open>The state of an orderly run has both properties.\<close>

lemma db_inv_stored:
  assumes "db_inv (ec_storage E) (executor_new db se)"
  shows "db_stored E db" "unique_keys_hold E db"
proof -
  have inv: "ex_inv (ec_storage E) 0 (executor_new db se)"
    and ix: "map_of (cat_tables (db_catalog db)) t = Some schema \<Longrightarrow> indexed (db_indexes db) t schema" for t schema
    using assms by (simp_all add: db_inv_def executor_new_def)
  have "tables_of (db_storage db) \<subseteq> dom (map_of (cat_tables (db_catalog db)))"
    "dom (map_of (cat_tables (db_catalog db))) \<subseteq> tables_of (db_storage db)"
    using inv ex_invD(5) [OF inv] by (auto simp: ex_inv_def executor_new_def)
  then show "db_stored E db" using assms by (simp add: db_stored_def db_inv_iff executor_new_def)
  have "metas_hold schema (ts_indexes schema) (db_vals E db t)"
    if "map_of (cat_tables (db_catalog db)) t = Some schema" for t schema
  proof -
    have "manager_agrees (db_indexes db) t (schema_names schema) (db_vals E db t)"
      using ex_invD(6) [OF inv, of t schema] that by (simp add: executor_new_def)
    from manager_agrees_uniq [OF this] show ?thesis using ix [OF that] unfolding metas_hold_def indexed_def by metis
  qed
  then show "unique_keys_hold E db" by (simp add: unique_keys_hold_def all_hold_def)
qed

lemma all_dom:
  "all_hold cat (dom (map_of (cat_tables cat))) V = all_hold cat UNIV V"
  "all_indexed cat (dom (map_of (cat_tables cat))) V m = all_indexed cat UNIV V m"
  by (auto simp: all_hold_def all_indexed_def)

lemma rebuild_all_law:
  assumes "st_inv C st" "mem_only st" "cat_wf cat"
  shows "wp (rebuild_all C cat) (\<lambda>_ sm. st_same C st (fst sm) \<and> mem_same st (fst sm)
      \<and> all_indexed cat UNIV (table_vals C st) (snd sm))
    (\<lambda>e _. duplicate_key e \<and> \<not> all_hold cat UNIV (table_vals C st)) (st, m0)"
proof -
  have tables: "set (list_tables cat) = dom (map_of (cat_tables cat))" "distinct (list_tables cat)"
    using assms(3) by (simp_all add: list_tables_def dom_map_of_conv_image_fst cat_wf_def amap_inv_distinct)
  have "distinct (map im_name (ts_indexes schema))" if "map_of (cat_tables cat) t = Some schema" for t schema
  proof -
    have "schema_ok t schema" using assms(3) that by (auto simp: cat_wf_def dest: amap_inv_lookup)
    then show ?thesis by (simp add: schema_ok_def)
  qed
  then have "\<forall>t \<in> set (list_tables cat). map_of ([] :: index_manager) t = None
      \<and> (\<exists>schema. map_of (cat_tables cat) t = Some schema \<and> distinct (map im_name (ts_indexes schema)))"
    using tables(1) by auto
  from rebuild_tables_law [OF assms(1,2) tables(2) this] show ?thesis
    unfolding tables(1) all_dom rebuild_all_def wp_def by (auto split: prod.splits sum.splits)
qed

lemma st_inv_map:
  assumes "st_inv C s" "map_of (st_tables s') = map_of (st_tables s)" "distinct (map fst (st_tables s'))"
  shows "st_inv C s'"
  using assms by (simp add: st_inv_def amap_inv_iff)

text \<open>The files of a directory that a checkpoint has written, opened again.\<close>

lemma open_storage_law:
  assumes "db_stored E db" "st_options (db_storage db) = storage_options_default"
    and "map_of dats = (\<lambda>t. case map_of (st_tables (db_storage db)) t of
          Some (Memory d) \<Rightarrow> Some (ser (sc_table (ec_storage E)) d) | _ \<Rightarrow> None)"
    and "codecs_faithful E db" "f_content (wal_file w) = []"
  shows "\<exists>st. open_with_options (ec_storage E) dats [] w storage_options_default = Inr st
    \<and> map_of (st_tables st) = map_of (st_tables (db_storage db)) \<and> st_inv (ec_storage E) st \<and> mem_only st
    \<and> f_content (wal_file (st_wal st)) = []"
proof -
  let ?C = "ec_storage E" and ?T = "map_of (st_tables (db_storage db))"
  let ?s = "\<lparr>st_options = storage_options_default, st_tables = [], st_dat_files = dats, st_page_files = [], st_wal = w\<rparr>"
  define D where "D t = (case ?T t of Some (Memory d) \<Rightarrow> d | _ \<Rightarrow> table_data_default)" for t
  define names where "names = remdups (map fst dats)"
  have in_names: "t \<in> set names \<longleftrightarrow> t \<in> fst ` set dats" for t by (simp add: names_def)
  note ok = db_storedD [OF assms(1)]
  have mem: "\<exists>d. b = Memory d" if "?T t = Some b" for t b using ok(2) that unfolding mem_only_def by blast
  have tab: "?T t = Some (Memory (D t))" if "map_of dats t = Some buf" for t buf
    using that mem [of t] unfolding assms(3) D_def by (auto split: option.splits table_backend.splits)
  have "\<forall>t \<in> set names. \<exists>buf. map_of (st_dat_files ?s) t = Some buf \<and> buf \<noteq> []
      \<and> deser (sc_table ?C) buf = Inr (D t)"
  proof
    fix t assume "t \<in> set names"
    then obtain buf where buf: "map_of dats t = Some buf" using in_names by (metis map_of_eq_None_iff not_None_eq)
    obtain d where d: "?T t = Some (Memory d)" using tab [OF buf] by blast
    then have "buf = ser (sc_table ?C) d" "D t = d" using buf by (simp_all add: assms(3) D_def)
    then show "\<exists>buf. map_of (st_dat_files ?s) t = Some buf \<and> buf \<noteq> [] \<and> deser (sc_table ?C) buf = Inr (D t)"
      using buf d assms(4) by (simp add: codecs_faithful_def codec_ok_def)
  qed
  note bufs = this
  have mode: "\<not> use_paged ?s" "st_page_files ?s = []" by (simp_all add: use_paged_def storage_options_default_def)
  obtain st where l: "sfold (\<lambda>name _. sbind (load_table ?C name) (\<lambda>b s. (Inr (), set_backend name b s)))
        names () ?s = (Inr (), st)"
      "map_of (st_tables st) = (\<lambda>t. if t \<in> set names then Some (Memory (D t)) else map_of (st_tables ?s) t)"
      "distinct (map fst (st_tables ?s)) \<longrightarrow> distinct (map fst (st_tables st))"
      "st_options st = st_options ?s" "st_wal st = st_wal ?s"
    using load_loop [OF mode bufs] by blast
  have st: "load_all ?C ?s = (Inr (), st)" "distinct (map fst (st_tables st))"
    "map_of (st_tables st) = (\<lambda>t. if t \<in> fst ` set dats then Some (Memory (D t)) else None)"
    "st_options st = storage_options_default" "st_wal st = w"
    using l in_names by (simp_all add: load_all_def names_def [symmetric] fun_eq_iff)
  have map: "map_of (st_tables st) = ?T"
  proof (rule ext)
    fix t
    show "map_of (st_tables st) t = ?T t"
    proof (cases "?T t")
      case None
      then have "map_of dats t = None" by (simp add: assms(3))
      then have "t \<notin> fst ` set dats" by (simp add: map_of_eq_None_iff)
      then show ?thesis using None st(3) by simp
    next
      case (Some b)
      then obtain d where d: "b = Memory d" using mem by blast
      then have "map_of dats t \<noteq> None" using Some by (simp add: assms(3))
      then have "t \<in> fst ` set dats" by (simp add: map_of_eq_None_iff)
      then show ?thesis using Some d st(3) by (simp add: D_def)
    qed
  qed
  have "mem_only st" using ok(2) map st(4) by (simp add: mem_only_def use_paged_def storage_options_default_def)
  then show ?thesis using st map st_inv_map [OF ok(1) map st(2)] assms(5)
    by (auto simp: open_with_options_def Let_def)
qed

lemma checkpoint_and_open:
  assumes "db_stored E db" "clean_dir db" "codecs_faithful E db"
  shows "\<exists>db1. database_checkpoint E db = (Inr (), db1) \<and> distinct (map fst (db_files db1))
    \<and> (case database_open E (db_files db1) of
         Inr db2 \<Rightarrow> unique_keys_hold E db \<and> reopened E db db2
       | Inl e \<Rightarrow> duplicate_key e \<and> \<not> unique_keys_hold E db)"
proof -
  let ?C = "ec_storage E" and ?st = "db_storage db"
  note ok = db_storedD [OF assms(1)]
  obtain st1 where st1: "checkpoint ?C ?st = (Inr (), st1)" "st_tables st1 = st_tables ?st" "st_options st1 = st_options ?st"
    "st_page_files st1 = st_page_files ?st" "f_content (wal_file (st_wal st1)) = []"
    "wal_checkpoint_file (st_wal st1) = Some (ser (sc_lsn ?C) (wal_lsn (st_wal ?st)))"
    "map_of (st_dat_files st1) = (\<lambda>t. case map_of (st_tables ?st) t of
          Some (Memory d) \<Rightarrow> Some (ser (sc_table ?C) d) | _ \<Rightarrow> map_of (st_dat_files ?st) t)"
    "distinct (map fst (st_dat_files st1))"
    using checkpoint_files [OF ok(2)] assms(2) unfolding clean_dir_def by blast
  let ?snap = "db_snapshot db"
  let ?db1 = "db\<lparr>db_storage := st1, db_meta_file := Some (ser (ec_meta E) ?snap)\<rparr>"
  have cp: "database_checkpoint E db = (Inr (), ?db1)"
    using st1(1) by (simp add: database_checkpoint_def persist_def meta_save_def db_snapshot_def)
  have dat: "map_of (st_dat_files ?st) t = None" if "map_of (st_tables ?st) t = None" for t
  proof (rule ccontr)
    assume "map_of (st_dat_files ?st) t \<noteq> None"
    then have "t \<in> dom (map_of (cat_tables (db_catalog db)))"
      using assms(2) unfolding clean_dir_def by (auto simp: map_of_eq_None_iff)
    then obtain schema where "map_of (cat_tables (db_catalog db)) t = Some schema" by blast
    from ok(5) [OF this] that show False by simp
  qed
  have dats: "map_of (st_dat_files st1) = (\<lambda>t. case map_of (st_tables ?st) t of
          Some (Memory d) \<Rightarrow> Some (ser (sc_table ?C) d) | _ \<Rightarrow> None)"
    using ok(2) dat unfolding st1(7) by (fastforce simp: fun_eq_iff mem_only_def split: option.splits table_backend.splits)
  have mem1: "mem_only st1" using ok(2) st1(2,3) by (simp add: mem_only_def use_paged_def)
  have "map_of (st_tables ?st) [] = None" using assms(2) ok(4) by (simp add: clean_dir_def)
  then have "map_of (st_dat_files st1) [] = None" by (simp add: dats)
  then have nil: "[] \<notin> set (map fst (st_dat_files st1))" by (simp add: map_of_eq_None_iff)
  have dist: "distinct (map fst (st_tables st1))" using ok(1) st1(2) by (simp add: st_inv_def amap_inv_distinct)
  have db1: "mem_only (db_storage ?db1)" "st_page_files (db_storage ?db1) = []"
    "[] \<notin> set (map fst (st_dat_files (db_storage ?db1)))" "distinct (map fst (st_tables (db_storage ?db1)))"
    using mem1 nil dist st1(4) assms(2) by (simp_all add: clean_dir_def)
  note files = db_files_read [OF db1]
  obtain w where w: "wal_open (sc_lsn ?C) [] (Some (ser (sc_lsn ?C) (wal_lsn (st_wal ?st)))) = Inr w" "f_content (wal_file w) = []"
    using assms(3) by (cases "ser (sc_lsn ?C) (wal_lsn (st_wal ?st)) = []") (auto simp: wal_open_def codecs_faithful_def codec_ok_def)
  have opts: "st_options ?st = storage_options_default" using assms(2) by (simp add: clean_dir_def)
  obtain st2 where st2: "open_with_options ?C (st_dat_files st1) [] w storage_options_default = Inr st2"
    "map_of (st_tables st2) = map_of (st_tables ?st)" "st_inv ?C st2" "mem_only st2" "f_content (wal_file (st_wal st2)) = []"
    using open_storage_law [OF assms(1) opts dats assms(3) w(2)] by blast
  have meta: "meta_load E (map_of (db_files ?db1) META_FILE) = Inr (Some ?snap)"
    using files(5) st1(6) assms(3) by (simp add: meta_load_def codecs_faithful_def codec_ok_def META_VERSION_def db_snapshot_def)
  let ?cat = "load_tables (cat_snapshot (db_catalog db)) catalog_new"
  have cat: "map_of (cat_tables ?cat) = map_of (cat_tables (db_catalog db))" "cat_wf ?cat"
    using snapshot_load_map [OF ok(3)] snapshot_load_wf [OF ok(3)] by simp_all
  have tables: "\<forall>t \<in> set (list_tables ?cat). map_of (st_tables st2) t \<noteq> None"
  proof
    fix t assume "t \<in> set (list_tables ?cat)"
    then have "t \<in> dom (map_of (cat_tables ?cat))" by (simp add: list_tables_def dom_map_of_conv_image_fst)
    then show "map_of (st_tables st2) t \<noteq> None" using ok(5) st2(2) cat(1) by auto
  qed
  have run: "sbind (sfold (\<lambda>table _. ensure_table ?C table) (list_tables ?cat) ()) (\<lambda>_. replay_wal ?C) st2 = (Inr 0, st2)"
    using ensure_loop [OF tables, of ?C] replay_empty [OF st2(5), of ?C] by (simp add: sbind_def)
  have vals: "table_vals ?C st = db_vals E db" if "map_of (st_tables st) = map_of (st_tables ?st)" for st
    using that by (simp add: table_vals_def st_rows_def fun_eq_iff)
  have hold: "all_hold ?cat UNIV (table_vals ?C st2) = unique_keys_hold E db"
    using cat(1) vals [OF st2(2)] by (simp add: unique_keys_hold_def all_hold_def)
  let ?m0 = "im_load_all (im_snapshot (db_indexes db)) []"
  note open_eq = database_open_def database_open_with_options_def Let_def files(1,2)
  note read = files(3) files(4) [of "ser (sc_lsn ?C) (wal_lsn (st_wal ?st))"]
  have "case database_open E (db_files ?db1) of
         Inr db2 \<Rightarrow> unique_keys_hold E db \<and> reopened E db db2
       | Inl e \<Rightarrow> duplicate_key e \<and> \<not> unique_keys_hold E db"
  proof -
    obtain res sm where Pair: "rebuild_all ?C ?cat (st2, ?m0) = (res, sm)" by (rule prod.exhaust)
    note law = rebuild_all_law [OF st2(3,4) cat(2), of ?m0, unfolded wp_def Pair hold]
    show ?thesis
    proof (cases res)
      case (Inl e)
      have "database_open E (db_files ?db1) = Inl e"
        unfolding open_eq using read st1(5,6) w(1) st2(1) meta run Pair Inl by (simp add: load_meta_def db_snapshot_def)
      then show ?thesis using law Inl by simp
    next
      case (Inr u)
      obtain st3 m where sm: "sm = (st3, m)" by fastforce
      let ?db2 = "\<lparr>db_catalog = ?cat, db_storage = st3, db_indexes = m, db_meta_file = map_of (db_files ?db1) META_FILE,
        db_stats = \<lparr>dbs_queries_executed = 0, dbs_total_rows = 0\<rparr>, db_active_write_txns = 0\<rparr>"
      have op: "database_open E (db_files ?db1) = Inr ?db2"
        unfolding open_eq using read st1(5,6) w(1) st2(1) meta run Pair Inr sm by (simp add: load_meta_def db_snapshot_def)
      have r: "st_same ?C st2 st3" "mem_same st2 st3" "all_indexed ?cat UNIV (table_vals ?C st2) m" using law Inr sm by simp_all
      have tabs: "map_of (st_tables st3) = map_of (st_tables ?st)" using r(2) st2(2) by (simp add: mem_same_def)
      have "all_indexed ?cat UNIV (table_vals ?C st3) m" using r(3) table_vals_same [OF r(1)] by simp
      moreover have "db_stored E ?db2"
        using r(1,2) st2(4) mem_sameD(1) [OF r(2)] cat tabs assms(1) by (simp add: db_stored_def st_same_def)
      ultimately have "reopened E db ?db2" using cat(1) tabs by (simp add: reopened_def)
      moreover have "unique_keys_hold E db" using all_indexed_holds [OF r(3)] hold by simp
      ultimately show ?thesis using op by simp
    qed
  qed
  moreover have "distinct (map fst (db_files ?db1))"
    using db_files_distinct [OF db1] st1(8) by simp
  ultimately show ?thesis using cp by (intro exI [of _ ?db1]) simp
qed

lemma checkpoint_opens:
  assumes "db_stored E db" "unique_keys_hold E db" "clean_dir db" "codecs_faithful E db"
  shows "\<exists>db1 db2. database_checkpoint E db = (Inr (), db1) \<and> distinct (map fst (db_files db1))
    \<and> database_open E (db_files db1) = Inr db2 \<and> reopened E db db2"
proof -
  obtain db1 where 1: "database_checkpoint E db = (Inr (), db1)" "distinct (map fst (db_files db1))"
    "case database_open E (db_files db1) of
         Inr db2 \<Rightarrow> unique_keys_hold E db \<and> reopened E db db2
       | Inl e \<Rightarrow> duplicate_key e \<and> \<not> unique_keys_hold E db"
    using checkpoint_and_open [OF assms(1,3,4)] by blast
  then show ?thesis using assms(2) by (cases "database_open E (db_files db1)") auto
qed

text \<open>The wait for write transactions ends exactly when the counter is zero at some look.\<close>

lemma wait_skip: "\<forall>j. i \<le> j \<and> j < k \<longrightarrow> 0 < obs j \<Longrightarrow> i \<le> k \<Longrightarrow> wait_for_write_txns obs i = wait_for_write_txns obs k"
proof (induction "k - i" arbitrary: i)
  case (Suc n)
  then have "i < k" "0 < obs i" by auto
  then have "wait_for_write_txns obs i = wait_for_write_txns obs (i + 1)"
    by (subst wait_for_write_txns.simps) simp
  also have "\<dots> = wait_for_write_txns obs k" using Suc \<open>i < k\<close> by auto
  finally show ?case .
qed simp

lemma wait_returns:
  assumes "i \<le> k" "obs k = 0"
  shows "\<exists>j. wait_for_write_txns obs i = Some j \<and> j \<le> k"
proof -
  define j where "j = (LEAST j. i \<le> j \<and> obs j = 0)"
  have j: "i \<le> j" "obs j = 0" using LeastI [of "\<lambda>j. i \<le> j \<and> obs j = 0" k] assms unfolding j_def by auto
  have "0 < obs l" if "i \<le> l" "l < j" for l
    using not_less_Least [of l "\<lambda>j. i \<le> j \<and> obs j = 0"] that unfolding j_def by (auto simp: word_gt_0)
  then have "wait_for_write_txns obs i = wait_for_write_txns obs j" using wait_skip [of i j obs] j(1) by blast
  also have "\<dots> = Some j" using j(2) by (subst wait_for_write_txns.simps) simp
  moreover have "j \<le> k" unfolding j_def by (rule Least_le) (use assms in simp)
  ultimately show ?thesis by simp
qed

lemma restore_into_empty:
  assumes "distinct (map fst fs)"
  shows "fold (\<lambda>(n, b). AList.update n b) fs [] = fs"
proof -
  have "fold (\<lambda>(n, b). AList.update n b) fs acc = acc @ fs" if "distinct (map fst (acc @ fs))" for acc
    using that
  proof (induction fs arbitrary: acc)
    case (Cons e fs)
    obtain n b where e: "e = (n, b)" by fastforce
    have "map_of acc n = None" using Cons.prems e by (auto simp: map_of_eq_None_iff)
    then have "AList.update n b acc = acc @ [e]" using update_fresh e by simp
    then show ?case using Cons.IH [of "acc @ [e]"] Cons.prems e by simp
  qed simp
  from this [of "[]"] assms show ?thesis by simp
qed

text \<open>C3: when a database survives a restart. The tables are in memory, the storage engine has the tables of the
  catalog, and the directory holds no page files and no data files of other tables; the indexes may be in
  any state. A checkpoint succeeds. If no two rows of a table have the same key in a unique index, opening the
  directory succeeds and gives a database with the same schemas and the same tables, rows, versions and next
  ids included, whose indexes cover exactly the rows. If two rows do, as after a refused INSERT of a
  duplicate key, opening the directory fails with a duplicate key error.\<close>

theorem restart_restores:
  assumes "db_stored E db" and "clean_dir db" and "codecs_faithful E db"
  shows "\<exists>db1. database_checkpoint E db = (Inr (), db1)
    \<and> (case database_open E (db_files db1) of
         Inr db2 \<Rightarrow> unique_keys_hold E db \<and> reopened E db db2
       | Inl e \<Rightarrow> duplicate_key e \<and> \<not> unique_keys_hold E db)"
  using checkpoint_and_open [OF assms] by blast

text \<open>C11: backup and restore. The database is as in the theorem on restarts, and no two rows have the same key
  in a unique index. When the counter of write transactions is seen at zero, once before and once after the
  backup lock is taken, a live backup returns; restoring its archive into an empty directory and opening that
  directory succeeds and gives a database with the same schemas and the same tables, whose indexes cover
  exactly the rows.\<close>

theorem backup_restores:
  assumes "db_stored E db" and "unique_keys_hold E db" and "clean_dir db" and "codecs_faithful E db"
    and "\<forall>fs. codec_ok (ec_archive E) fs"
    and "obs i = 0" and "obs j = 0" and "i < j"
  shows "\<exists>archive db1 fs db2. backup_live E obs db = Some (Inr archive, db1) \<and> restore E archive [] = Inr fs
    \<and> database_open E fs = Inr db2 \<and> reopened E db db2"
proof -
  obtain db1 db2 where d: "database_checkpoint E db = (Inr (), db1)" "database_open E (db_files db1) = Inr db2"
    "distinct (map fst (db_files db1))" "reopened E db db2"
    using checkpoint_opens [OF assms(1-4)] by blast
  obtain a where a: "wait_for_write_txns obs 0 = Some a" "a \<le> i" using wait_returns [of 0 i obs] assms(6) by auto
  then have "a + 1 \<le> j" using assms(8) by simp
  from wait_returns [of "a + 1" j obs, OF this assms(7)] obtain b where "wait_for_write_txns obs (a + 1) = Some b" by blast
  then have "backup_live E obs db = Some (Inr (backup E (db_files db1)), db1)"
    using a(1) d(1) by (simp add: backup_live_def)
  moreover have "restore E (backup E (db_files db1)) [] = Inr (db_files db1)"
    using assms(5) restore_into_empty [OF d(3)] by (simp add: restore_def backup_def codec_ok_def)
  ultimately show ?thesis using d by blast
qed

subsection \<open>Concrete databases\<close>

definition example_db :: database where
  "example_db = \<lparr>db_catalog = ex_catalog example_created, db_storage = ex_storage example_created,
     db_indexes = ex_indexes example_created, db_meta_file = None,
     db_stats = \<lparr>dbs_queries_executed = 0, dbs_total_rows = 0\<rparr>, db_active_write_txns = 0\<rparr>"

text \<open>The same database with rows in its table, which has a primary key.\<close>

definition example_data :: "(u64 \<times> row) list \<Rightarrow> table_data" where
  "example_data rows = \<lparr>td_rows = rows, td_next_id = 3\<rparr>"

definition filled_db :: "(u64 \<times> row) list \<Rightarrow> database" where
  "filled_db rows = example_db\<lparr>db_storage := (empty_storage wal_fresh)\<lparr>st_tables := [(''t'', Memory (example_data rows))]\<rparr>\<rparr>"

fun dec_byte :: "bytes \<Rightarrow> (u8 \<times> bytes) option" where
  "dec_byte [] = None"
| "dec_byte (b # bs) = Some (b, bs)"

definition example_engine :: engine_codecs where
  "example_engine = \<lparr>ec_storage = example_storage_codecs,
     ec_meta = \<lparr>ser = (\<lambda>_. [1]), deser = (\<lambda>_. Inr (db_snapshot example_db))\<rparr>,
     ec_archive = codec_of (enc_list (enc_pair (enc_list enc_char) (enc_list (\<lambda>b. [b]))))
       (dec_list_all (dec_pair (dec_list_all dec_char) (dec_list_all dec_byte)))\<rparr>"

lemma example_archive: "codec_ok (ec_archive example_engine) fs"
proof -
  have "stream_ok (\<lambda>b :: u8. [b]) dec_byte" by (simp add: stream_ok_def)
  then have "stream_ok (enc_list (enc_pair (enc_list enc_char) (enc_list (\<lambda>b. [b]))))
       (dec_list_all (dec_pair (dec_list_all dec_char) (dec_list_all dec_byte)))"
    by (intro stream_ok_list stream_ok_pair stream_ok_char)
  from codec_of_ok [OF this, of fs "[]"] show ?thesis by (simp add: example_engine_def codec_ok_def)
qed

lemma filled_db_stored:
  assumes "td_inv (example_data rows)"
  shows "db_stored example_engine (filled_db rows)"
proof -
  have "db_inv example_storage_codecs example_created" by (rule orderly_inv [OF example_created_orderly])
  then have "cat_wf (ex_catalog example_created)" by (simp add: db_inv_def)
  then show ?thesis using assms
    by (auto simp: db_stored_def filled_db_def example_db_def example_engine_def st_inv_def mem_only_def use_paged_def empty_storage_def
        storage_options_default_def example_created_def amap_inv_def split: if_splits)
qed

lemma filled_db_vals: "db_vals E (filled_db rows) ''t'' = row_vals (map_of rows)"
  by (simp add: table_vals_def st_rows_def filled_db_def example_db_def example_data_def)

lemma filled_db_files:
  assumes "codec_ok (sc_table example_storage_codecs) (example_data rows)"
    "ser (sc_table example_storage_codecs) (example_data rows) \<noteq> []"
  shows "clean_dir (filled_db rows)" "codecs_faithful example_engine (filled_db rows)"
proof -
  show "clean_dir (filled_db rows)"
    by (simp add: clean_dir_def filled_db_def example_db_def example_created_def empty_storage_def)
  have "codec_ok lsn_codec l" for l using lsn_codec_ok by blast
  then show "codecs_faithful example_engine (filled_db rows)" using assms
    by (auto simp: codecs_faithful_def example_engine_def filled_db_def example_db_def example_created_def empty_storage_def
        codec_ok_def example_storage_codecs_def db_snapshot_def split: if_splits)
qed

text \<open>One row, and two rows with the same key.\<close>

abbreviation "example_one \<equiv> [(1 :: u64, row_new [Int8 5])]"
abbreviation "example_two \<equiv> [(1 :: u64, row_new [Int8 5]), (2, row_new [Int8 5])]"

lemma example_data_inv: "td_inv (example_data example_one)" "td_inv (example_data example_two)"
  by (simp_all add: example_data_def td_inv_def amap_inv_def)

lemma example_data_codecs:
  "codec_ok (sc_table example_storage_codecs) (example_data example_one)"
  "ser (sc_table example_storage_codecs) (example_data example_one) \<noteq> []"
  "codec_ok (sc_table example_storage_codecs) (example_data example_two)"
  "ser (sc_table example_storage_codecs) (example_data example_two) \<noteq> []"
  by code_simp+

lemmas example_one_ok = filled_db_stored [OF example_data_inv(1)] filled_db_files [OF example_data_codecs(1,2)]
lemmas example_two_ok = filled_db_stored [OF example_data_inv(2)] filled_db_files [OF example_data_codecs(3,4)]

lemma example_one_unique: "unique_keys_hold example_engine (filled_db example_one)"
proof -
  have "uniq_keys names cols (db_vals example_engine (filled_db example_one) ''t'')" for names cols
    unfolding filled_db_vals by (auto simp: uniq_keys_def row_vals_def split: if_splits)
  moreover have "t = ''t''" if "map_of (cat_tables (db_catalog (filled_db example_one))) t = Some schema" for t schema
    using that by (auto simp: filled_db_def example_db_def example_created_def split: if_splits)
  ultimately show ?thesis unfolding unique_keys_hold_def all_hold_def metas_hold_def by blast
qed

lemma example_two_not_unique: "\<not> unique_keys_hold example_engine (filled_db example_two)"
proof
  assume "unique_keys_hold example_engine (filled_db example_two)"
  then have "metas_hold example_pk_schema (ts_indexes example_pk_schema) (row_vals (map_of example_two))"
    unfolding unique_keys_hold_def all_hold_def filled_db_vals [symmetric, of example_two example_engine]
    by (simp add: filled_db_def example_db_def example_created_def)
  then have "uniq_keys [''a''] [''a''] (row_vals (map_of example_two))"
    by (simp add: metas_hold_def example_pk_schema_def example_columns_def)
  moreover have "row_vals (map_of example_two) 1 = Some [Int8 5]" "row_vals (map_of example_two) 2 = Some [Int8 5]"
    by (simp_all add: row_vals_def row_new_def)
  ultimately have "(1 :: u64) = 2" unfolding uniq_keys_def by metis
  then show False by simp
qed

theorem restart_restores_witness:
  "(\<exists>db1 db2. database_checkpoint example_engine (filled_db example_one) = (Inr (), db1)
      \<and> database_open example_engine (db_files db1) = Inr db2
      \<and> map_of (cat_tables (db_catalog db2)) ''t'' = Some example_pk_schema
      \<and> map_of (st_tables (db_storage db2)) ''t'' = Some (Memory (example_data example_one)))
   \<and> (\<exists>db1 msg. database_checkpoint example_engine (filled_db example_two) = (Inr (), db1)
      \<and> database_open example_engine (db_files db1) = Inl (DuplicateKey msg))"
proof
  obtain db1 where 1: "database_checkpoint example_engine (filled_db example_one) = (Inr (), db1)"
    "case database_open example_engine (db_files db1) of
         Inr db2 \<Rightarrow> unique_keys_hold example_engine (filled_db example_one) \<and> reopened example_engine (filled_db example_one) db2
       | Inl e \<Rightarrow> duplicate_key e \<and> \<not> unique_keys_hold example_engine (filled_db example_one)"
    using restart_restores [OF example_one_ok] by blast
  then show "\<exists>db1 db2. database_checkpoint example_engine (filled_db example_one) = (Inr (), db1)
      \<and> database_open example_engine (db_files db1) = Inr db2
      \<and> map_of (cat_tables (db_catalog db2)) ''t'' = Some example_pk_schema
      \<and> map_of (st_tables (db_storage db2)) ''t'' = Some (Memory (example_data example_one))"
    using example_one_unique
    by (auto simp: reopened_def filled_db_def example_db_def example_created_def split: sum.splits)
  obtain db1 where 2: "database_checkpoint example_engine (filled_db example_two) = (Inr (), db1)"
    "case database_open example_engine (db_files db1) of
         Inr db2 \<Rightarrow> unique_keys_hold example_engine (filled_db example_two) \<and> reopened example_engine (filled_db example_two) db2
       | Inl e \<Rightarrow> duplicate_key e \<and> \<not> unique_keys_hold example_engine (filled_db example_two)"
    using restart_restores [OF example_two_ok] by blast
  then show "\<exists>db1 msg. database_checkpoint example_engine (filled_db example_two) = (Inr (), db1)
      \<and> database_open example_engine (db_files db1) = Inl (DuplicateKey msg)"
    using example_two_not_unique by (auto split: sum.splits elim: duplicate_key.elims)
qed

theorem backup_restores_witness:
  "\<exists>archive db1 fs db2. backup_live example_engine (\<lambda>_. 0) (filled_db example_one) = Some (Inr archive, db1)
    \<and> restore example_engine archive [] = Inr fs \<and> database_open example_engine fs = Inr db2
    \<and> map_of (st_tables (db_storage db2)) ''t'' = Some (Memory (example_data example_one))"
proof -
  have "\<forall>fs. codec_ok (ec_archive example_engine) fs" using example_archive by blast
  from backup_restores [OF example_one_ok(1) example_one_unique example_one_ok(2,3) this, of "\<lambda>_. 0" 0 1]
  obtain archive db1 fs db2 where "backup_live example_engine (\<lambda>_. 0) (filled_db example_one) = Some (Inr archive, db1)"
    "restore example_engine archive [] = Inr fs" "database_open example_engine fs = Inr db2"
    "reopened example_engine (filled_db example_one) db2" by auto
  then show ?thesis by (auto simp: reopened_def filled_db_def example_db_def empty_storage_def)
qed

end
