(* ===== verification/Server.thy ===== *)
theory Server
  imports Config Restart
begin

text \<open>
  \<open>moodeng-server/src/session.rs\<close>, \<open>protocol.rs\<close> and the counters of \<open>metrics.rs\<close>: one connection, from
  the first byte to the end of its task. TLS turns the bytes that follow the upgrade into the client's
  plaintext, or fails; what a client sees is \<open>n_out\<close>, after decryption. The clock is the list of the
  durations it measured. The detail of an encoding error is left out of its text, which only the log shows.
\<close>

subsection \<open>Sessions\<close>

record connection_session =
  cs_session :: session
  cs_prepared :: "(string \<times> string) list"
  cs_portal_params :: "string option list"
  cs_last_statement :: "string option"
  cs_in_error :: bool

definition connection_session_new :: connection_session where
  "connection_session_new = \<lparr>cs_session = session_new, cs_prepared = [], cs_portal_params = [], cs_last_statement = None,
     cs_in_error = False\<rparr>"

definition ready_status :: "connection_session \<Rightarrow> char" where
  "ready_status c =
     (if cs_in_error c then CHR ''E'' else if is_active (se_transaction (cs_session c)) then CHR ''T'' else CHR ''I'')"

subsection \<open>Counters\<close>

record server_metrics =
  connections_active :: u64
  connections_accepted :: u64
  connections_rejected :: u64
  queries_total :: u64
  query_errors_total :: u64
  slow_queries_total :: u64
  query_duration_ms_total :: u64

definition metrics_new :: server_metrics where
  "metrics_new = \<lparr>connections_active = 0, connections_accepted = 0, connections_rejected = 0, queries_total = 0,
     query_errors_total = 0, slow_queries_total = 0, query_duration_ms_total = 0\<rparr>"

definition active_connections :: "server_metrics \<Rightarrow> u64" where
  "active_connections m = connections_active m"

definition connection_accepted :: "server_metrics \<Rightarrow> server_metrics" where
  "connection_accepted m = m\<lparr>connections_accepted := connections_accepted m + 1\<rparr>"

definition connection_rejected :: "server_metrics \<Rightarrow> server_metrics" where
  "connection_rejected m = m\<lparr>connections_rejected := connections_rejected m + 1\<rparr>"

definition connection_opened :: "server_metrics \<Rightarrow> server_metrics" where
  "connection_opened m = m\<lparr>connections_active := connections_active m + 1\<rparr>"

definition connection_closed :: "server_metrics \<Rightarrow> server_metrics" where
  "connection_closed m = m\<lparr>connections_active := connections_active m - 1\<rparr>"

definition query_executed :: "u64 \<Rightarrow> bool \<Rightarrow> server_metrics \<Rightarrow> server_metrics" where
  "query_executed duration_ms slow m =
     (let m = m\<lparr>queries_total := queries_total m + 1, query_duration_ms_total := query_duration_ms_total m + duration_ms\<rparr>
      in if slow then m\<lparr>slow_queries_total := slow_queries_total m + 1\<rparr> else m)"

definition query_failed :: "u64 \<Rightarrow> server_metrics \<Rightarrow> server_metrics" where
  "query_failed duration_ms m =
     m\<lparr>queries_total := queries_total m + 1, query_errors_total := query_errors_total m + 1,
       query_duration_ms_total := query_duration_ms_total m + duration_ms\<rparr>"

definition metric :: "string \<Rightarrow> string \<Rightarrow> string \<Rightarrow> nat \<Rightarrow> string" where
  "metric name help kind v =
     ''# HELP '' @ name @ '' '' @ help @ [CHR 0x0A] @ ''# TYPE '' @ name @ '' '' @ kind @ [CHR 0x0A]
       @ name @ '' '' @ show_nat v @ [CHR 0x0A]"

definition render :: "database \<Rightarrow> server_metrics \<Rightarrow> string" where
  "render db m =
     metric ''moodeng_up'' ''MoodengSQL server is running.'' ''gauge'' 1
     @ metric ''moodeng_connections_active'' ''Current open client connections.'' ''gauge'' (unat (connections_active m))
     @ metric ''moodeng_connections_accepted_total'' ''Total accepted client connections.'' ''counter'' (unat (connections_accepted m))
     @ metric ''moodeng_connections_rejected_total'' ''Connections rejected at max_connections.'' ''counter'' (unat (connections_rejected m))
     @ metric ''moodeng_queries_total'' ''Total SQL queries executed.'' ''counter'' (unat (queries_total m))
     @ metric ''moodeng_query_errors_total'' ''Total failed SQL queries.'' ''counter'' (unat (query_errors_total m))
     @ metric ''moodeng_slow_queries_total'' ''Queries exceeding slow_query_ms threshold.'' ''counter'' (unat (slow_queries_total m))
     @ metric ''moodeng_query_duration_ms_total'' ''Cumulative query duration in milliseconds.'' ''counter'' (unat (query_duration_ms_total m))
     @ metric ''moodeng_tables'' ''Number of user tables in the catalog.'' ''gauge'' (length (list_tables (db_catalog db)))"

text \<open>The answer to every connection to the metrics port.\<close>

definition metrics_response :: "database \<Rightarrow> server_metrics \<Rightarrow> bytes" where
  "metrics_response db m =
     (let crlf = [CHR 0x0D, CHR 0x0A]; body = render db m
      in as_bytes (''HTTP/1.1 200 OK'' @ crlf @ ''Content-Type: text/plain; version=0.0.4; charset=utf-8'' @ crlf
           @ ''Content-Length: '' @ show_nat (length body) @ crlf @ ''Connection: close'' @ crlf @ crlf @ body))"

subsection \<open>Running SQL\<close>

record server_env =
  sv_codecs :: engine_codecs
  sv_lib :: sql_library
  sv_crypto :: crypto
  sv_host :: host_env
  sv_query_log :: query_log_config
  sv_elapsed :: "nat \<Rightarrow> u64"
  sv_nonce :: bytes

record server_state = net +
  sv_conn :: connection_session
  sv_db :: database
  sv_metrics :: server_metrics
  sv_ticks :: nat

type_synonym 'a server_op = "(net_error, server_state, 'a) op"

text \<open>The length of the Unicode white space at the head of a text, 0 if there is none.\<close>

definition white_len :: "string \<Rightarrow> nat" where
  "white_len s =
     (let a = byte_at (as_bytes s) 0; b = byte_at (as_bytes s) 1; c = byte_at (as_bytes s) 2 in
      if s = [] then 0
      else if 9 \<le> a \<and> a \<le> 13 \<or> a = 32 then 1
      else if a = 0xC2 \<and> (b = 0x85 \<or> b = 0xA0) then 2
      else if a = 0xE1 \<and> b = 0x9A \<and> c = 0x80 then 3
      else if a = 0xE2 \<and> b = 0x80 \<and> (0x80 \<le> c \<and> c \<le> 0x8A \<or> c = 0xA8 \<or> c = 0xA9 \<or> c = 0xAF) then 3
      else if a = 0xE2 \<and> b = 0x81 \<and> c = 0x9F then 3
      else if a = 0xE3 \<and> b = 0x80 \<and> c = 0x80 then 3
      else 0)"

text \<open>\<open>split_whitespace\<close>; the second argument is the word being read.\<close>

function words_of :: "string \<Rightarrow> string \<Rightarrow> string list" where
  "words_of s word =
     (if s = [] then (if word = [] then [] else [word])
      else if 0 < white_len s then (if word = [] then [] else [word]) @ words_of (drop (white_len s) s) []
      else words_of (tl s) (word @ [hd s]))"
  by pat_completeness auto
termination
  by (relation "measure (length \<circ> fst)") auto

declare words_of.simps [simp del]

text \<open>Slicing a text at a byte that is not the first of a character panics.\<close>

definition ELLIPSIS :: string where "ELLIPSIS = text_of [0xE2, 0x80, 0xA6]"

definition summarize_sql :: "string \<Rightarrow> string option" where
  "summarize_sql sql =
     (let one_line = join_with '' '' (words_of sql [])
      in if length one_line \<le> 200 then Some one_line
         else if is_continuation (byte_at (as_bytes one_line) 200) then None
         else Some (take 200 one_line @ ELLIPSIS))"

fun error_text :: "moodeng_error \<Rightarrow> string" where
  "error_text (Parse e) = ''SQL parse error: '' @ e"
| "error_text (Execution e) = ''execution error: '' @ e"
| "error_text (TableNotFound t) = ''table '' @ [CHR 0x27] @ t @ [CHR 0x27] @ '' does not exist''"
| "error_text (ColumnNotFound c) = ''column '' @ [CHR 0x27] @ c @ [CHR 0x27] @ '' does not exist''"
| "error_text (TypeMismatch e a) = ''type mismatch: expected '' @ e @ '', got '' @ a"
| "error_text (DuplicateKey k) = ''duplicate key: '' @ k"
| "error_text (VersionConflict t i) = ''row version conflict on '' @ t @ '' id '' @ show_nat (unat i)"
| "error_text (IndexExists i) = ''index '' @ [CHR 0x27] @ i @ [CHR 0x27] @ '' already exists''"
| "error_text (StorageError e) = ''storage error: '' @ e"
| "error_text (Io e) = ''IO error: '' @ e"
| "error_text (OtherError e) = e"

definition log_query_outcome :: "server_env \<Rightarrow> bool \<Rightarrow> server_state \<Rightarrow> server_state" where
  "log_query_outcome V failed s =
     (let duration_ms = sv_elapsed V (sv_ticks s);
          slow = ql_slow_query_ms (sv_query_log V) \<le> duration_ms
      in s\<lparr>sv_ticks := sv_ticks s + 1,
           sv_metrics := (if failed then query_failed duration_ms (sv_metrics s)
                          else query_executed duration_ms slow (sv_metrics s))\<rparr>)"

definition set_conn :: "connection_session \<Rightarrow> server_state \<Rightarrow> server_state" where
  "set_conn c s = s\<lparr>sv_conn := c\<rparr>"

definition run_sql :: "server_env \<Rightarrow> string \<Rightarrow> unit server_op" where
  "run_sql V sql s =
     (case summarize_sql sql of
        None \<Rightarrow> (Inl Panic, s)
      | Some sql_preview \<Rightarrow>
          (case execute_session (sv_codecs V) (sv_lib V) sql (sv_db s, cs_session (sv_conn s)) of
             (Inr result, (db, se)) \<Rightarrow>
               send_query_result result
                 (log_query_outcome V False (s\<lparr>sv_db := db, sv_conn := (sv_conn s)\<lparr>cs_session := se, cs_in_error := False\<rparr>\<rparr>))
           | (Inl e, (db, se)) \<Rightarrow>
               send_error (error_text e)
                 (log_query_outcome V True (s\<lparr>sv_db := db, sv_conn := (sv_conn s)\<lparr>cs_session := se, cs_in_error := True\<rparr>\<rparr>))))"

definition send_ready :: "unit server_op" where
  "send_ready s = send_message CHR ''Z'' (as_bytes [ready_status (sv_conn s)]) s"

definition handle_parse :: "bytes \<Rightarrow> connection_session \<Rightarrow> connection_session" where
  "handle_parse payload conn =
     (let (name, cur) = read_cstring_buf payload; (sql, cur) = read_cstring_buf cur
      in if name = [] then conn\<lparr>cs_last_statement := Some sql\<rparr>
         else conn\<lparr>cs_prepared := AList.update name sql (cs_prepared conn)\<rparr>)"

fun bind_params :: "nat \<Rightarrow> bytes \<Rightarrow> string option list \<Rightarrow> string option list" where
  "bind_params 0 cur params = params"
| "bind_params (Suc n) cur params =
     (if 4 \<le> length cur
      then let len = from_be_bytes (take 4 cur) :: u32; cur = drop 4 cur
           in if sint len < 0 then bind_params n cur (params @ [None])
              else if unat len \<le> length cur
              then bind_params n (drop (unat len) cur) (params @ [Some (from_utf8_lossy (take (unat len) cur))])
              else bind_params n cur params
      else bind_params n cur params)"

definition handle_bind :: "bytes \<Rightarrow> connection_session \<Rightarrow> connection_session" where
  "handle_bind payload conn =
     (let (portal, cur) = read_cstring_buf payload; (stmt, cur) = read_cstring_buf cur;
          cur = (if 2 \<le> length cur then drop 2 cur else cur);
          conn = (if 2 \<le> length cur
                  then conn\<lparr>cs_portal_params := bind_params (nat (sint (from_be_bytes (take 2 cur) :: u16))) (drop 2 cur) []\<rparr>
                  else conn)
      in if stmt \<noteq> []
         then (case map_of (cs_prepared conn) stmt of
                 Some sql \<Rightarrow> conn\<lparr>cs_last_statement := Some sql\<rparr>
               | None \<Rightarrow> conn)
         else conn)"

definition handle_execute :: "server_env \<Rightarrow> bytes \<Rightarrow> unit server_op" where
  "handle_execute V payload s =
     (let sql = (case cs_last_statement (sv_conn s) of None \<Rightarrow> [] | Some sql \<Rightarrow> sql)
      in if sql = [] then (Inr (), s)
         else run_sql V (substitute_params sql (cs_portal_params (sv_conn s))) s)"

text \<open>The body of the loop: whether the session goes on.\<close>

definition handle_message :: "server_env \<Rightarrow> u8 \<Rightarrow> bytes \<Rightarrow> bool server_op" where
  "handle_message V msg_type payload =
     (if msg_type = hd (as_bytes ''Q'')
      then let sql = read_cstring payload
           in if sql = [] then sret True
              else sbind (run_sql V sql) (\<lambda>_. sbind send_ready (\<lambda>_. sret True))
      else if msg_type = hd (as_bytes ''P'')
      then sbind (smodify (\<lambda>s. set_conn (handle_parse payload (sv_conn s)) s)) (\<lambda>_. sret True)
      else if msg_type = hd (as_bytes ''B'')
      then sbind (smodify (\<lambda>s. set_conn (handle_bind payload (sv_conn s)) s)) (\<lambda>_. sret True)
      else if msg_type = hd (as_bytes ''E'')
      then sbind (handle_execute V payload) (\<lambda>_. sret True)
      else if msg_type = hd (as_bytes ''S'')
      then sbind (smodify (\<lambda>s. set_conn ((sv_conn s)\<lparr>cs_in_error := False\<rparr>) s)) (\<lambda>_. sbind send_ready (\<lambda>_. sret True))
      else if msg_type = hd (as_bytes ''X'') then sret False
      else sret True)"

text \<open>Handling a message writes, and leaves the unread input alone.\<close>

lemma send_ready_eq [simp]: "send_ready s = (Inr (), emit (frame CHR ''Z'' (as_bytes [ready_status (sv_conn s)])) s)"
  by (simp add: send_ready_def)

lemma log_query_outcome_in [simp]: "n_in (log_query_outcome V failed s) = n_in s" "n_out (log_query_outcome V failed s) = n_out s"
  "sv_conn (log_query_outcome V failed s) = sv_conn s" "sv_db (log_query_outcome V failed s) = sv_db s"
  by (simp_all add: log_query_outcome_def Let_def)

lemma run_sql_in: "leaves_input (run_sql V sql)"
  by (simp add: leaves_input_def run_sql_def split: option.split prod.split sum.split)

lemma handle_message_in: "leaves_input (handle_message V t payload)"
proof -
  have modify: "leaves_input (smodify (\<lambda>s. set_conn (f (sv_conn s)) s))" for f
    by (simp add: leaves_input_def set_conn_def)
  have ready: "leaves_input send_ready" by (simp add: leaves_input_def)
  have "leaves_input (handle_execute V payload)"
    using run_sql_in by (auto simp: leaves_input_def handle_execute_def Let_def)
  then show ?thesis
    by (simp add: handle_message_def Let_def modify ready run_sql_in leaves_input_sbind)
qed

lemma read_bytes_less: "read_bytes n s = (r, t) \<Longrightarrow> length (n_in t) \<le> length (n_in s)"
  by (auto simp: read_bytes_def read_exact_def split: if_splits)

lemma read_body_less: "read_body s = (r, t) \<Longrightarrow> length (n_in t) \<le> length (n_in s)"
  by (force simp: read_body_def read_i32_def sbind_def dest: read_bytes_less split: prod.splits sum.splits option.splits)

text \<open>The loop of \<open>run_session\<close>. It ends with the input, at an error, or at a terminate message.\<close>

function session_loop :: "server_env \<Rightarrow> unit server_op" where
  "session_loop V s =
     (case n_in s of
        [] \<Rightarrow> (Inr (), s)
      | msg_type # bs \<Rightarrow>
          (case read_body (s\<lparr>n_in := bs\<rparr>) of
             (Inl e, s) \<Rightarrow> (Inl e, s)
           | (Inr payload, s) \<Rightarrow>
               (case handle_message V msg_type payload s of
                  (Inl e, s) \<Rightarrow> (Inl e, s)
                | (Inr go_on, s) \<Rightarrow> if go_on then session_loop V s else (Inr (), s))))"
  by pat_completeness auto
termination
proof (relation "measure (length \<circ> n_in \<circ> snd)")
  fix V :: server_env and s t u :: server_state and b bs payload go_on and r :: "net_error + bytes" and q :: "net_error + bool"
  assume "n_in s = b # bs" "(r, t) = read_body (s\<lparr>n_in := bs\<rparr>)" "r = Inr payload"
    "(q, u) = handle_message V b payload t" "q = Inr go_on" "go_on"
  then show "((V, u), (V, s)) \<in> measure (length \<circ> n_in \<circ> snd)"
    using read_body_less [of "s\<lparr>n_in := bs\<rparr>" r t] leaves_inputD [OF handle_message_in, of V b payload t q u] by simp
qed simp

declare session_loop.simps [simp del]

subsection \<open>Authentication\<close>

definition authenticate_cleartext :: "server_env \<Rightarrow> auth_config \<Rightarrow> bool server_op" where
  "authenticate_cleartext V auth =
     sbind (send_message CHR ''R'' (be_bytes 4 (3 :: u32))) (\<lambda>_.
     sbind read_u8 (\<lambda>msg_type.
     if msg_type \<noteq> hd (as_bytes ''p'') then sbind (send_error ''expected password message'') (\<lambda>_. sret False)
     else sbind read_body (\<lambda>pw_buf.
     let password = read_cstring pw_buf in
     if \<not> auth_verify (sv_host V) auth password then sbind (send_error ''authentication failed'') (\<lambda>_. sret False)
     else sret True)))"

definition read_sasl_message :: "(string \<times> bytes) server_op" where
  "read_sasl_message =
     sbind read_u8 (\<lambda>msg_type.
     if msg_type \<noteq> hd (as_bytes ''p'') then sfail (Bail (''expected SASL password message, got '' @ show_nat (unat msg_type)))
     else sbind read_body (\<lambda>payload.
     let (mechanism, cur) = read_cstring_buf payload in
     if length cur < 4 then sfail (Bail ''truncated SASL payload'')
     else let data_len = from_be_bytes (take 4 cur) :: u32; cur = drop 4 cur in
          if sint data_len < 0 then sret (mechanism, [])
          else if length cur < unat data_len then sfail (Bail ''truncated SASL response data'')
          else sret (mechanism, take (unat data_len) cur)))"

definition bail :: "string + 'a \<Rightarrow> 'a server_op" where
  "bail r = (case r of Inl e \<Rightarrow> sfail (Bail e) | Inr x \<Rightarrow> sret x)"

definition utf8_or_bail :: "string \<Rightarrow> bytes \<Rightarrow> string server_op" where
  "utf8_or_bail msg bs = (case from_utf8 bs of None \<Rightarrow> sfail (Bail msg) | Some s \<Rightarrow> sret s)"

definition authenticate_scram :: "server_env \<Rightarrow> auth_config \<Rightarrow> bool server_op" where
  "authenticate_scram V auth =
     sbind (send_message CHR ''R'' (be_bytes 4 (10 :: u32) @ as_bytes SCRAM_SHA256 @ [0, 0])) (\<lambda>_.
     sbind read_sasl_message (\<lambda>(mechanism, client_first).
     if mechanism \<noteq> [] \<and> mechanism \<noteq> SCRAM_SHA256
     then sbind (send_error ''unsupported SASL mechanism'') (\<lambda>_. sret False)
     else
     sbind (utf8_or_bail ''invalid SCRAM client-first encoding'' client_first) (\<lambda>client_first.
     sbind (bail (ok_or ''SCRAM credentials not configured'' (ac_scram_credentials auth))) (\<lambda>creds.
     sbind (bail (scram_start (sv_crypto V) (sv_nonce V) creds client_first)) (\<lambda>(session, server_first).
     sbind (send_message CHR ''R'' (be_bytes 4 (11 :: u32) @ cstring server_first)) (\<lambda>_.
     sbind read_sasl_message (\<lambda>(_, client_final_bytes).
     sbind (utf8_or_bail ''invalid SCRAM client-final encoding'' client_final_bytes) (\<lambda>client_final.
     case scram_finish (sv_crypto V) session client_final of
       Inr server_final \<Rightarrow>
         sbind (send_message CHR ''R'' (be_bytes 4 (12 :: u32) @ cstring server_final)) (\<lambda>_. sret True)
     | Inl e \<Rightarrow> sbind (send_error (''authentication failed: '' @ e)) (\<lambda>_. sret False)))))))))"

definition authenticate :: "server_env \<Rightarrow> auth_config \<Rightarrow> bool server_op" where
  "authenticate V auth = (if scram_available auth then authenticate_scram V auth else authenticate_cleartext V auth)"

subsection \<open>The session\<close>

definition PARAMETERS :: "(string \<times> string) list" where
  "PARAMETERS = [(''server_version'', ''16.0-moodeng''), (''server_encoding'', ''UTF8''), (''client_encoding'', ''UTF8'')]"

definition greet :: "unit server_op" where
  "greet =
     sbind (send_message CHR ''R'' (be_bytes 4 (0 :: u32))) (\<lambda>_.
     sbind (sfold (\<lambda>(k, v) _. send_message CHR ''S'' (cstring k @ cstring v)) PARAMETERS ()) (\<lambda>_.
       send_message CHR ''Z'' (as_bytes ''I'')))"

definition run_session :: "server_env \<Rightarrow> auth_config \<Rightarrow> bool \<Rightarrow> unit server_op" where
  "run_session V auth encrypted =
     sbind read_body (\<lambda>buf.
     if length buf < 4 then sfail Panic
     else if auth_required auth \<and> \<not> encrypted \<and> ac_require_tls_for_password auth \<and> \<not> scram_available auth
     then send_error ''password authentication requires TLS''
     else
     sbind (if auth_required auth then authenticate V auth else sret True) (\<lambda>ok.
     if \<not> ok then sret ()
     else
     sbind greet (\<lambda>_.
     sbind (smodify (set_conn connection_session_new)) (\<lambda>_.
       session_loop V))))"

definition SSL_REQUEST_CODE :: u32 where "SSL_REQUEST_CODE = 80877103"

text \<open>The start-up message is read from the socket and put back in front of it (\<open>PrefixedStream\<close>).\<close>

definition reread_startup :: "u32 \<Rightarrow> unit server_op" where
  "reread_startup len =
     (case body_size len of
        None \<Rightarrow> sfail Panic
      | Some n \<Rightarrow> sbind (read_bytes n) (\<lambda>startup_body.
                  smodify (\<lambda>s. s\<lparr>n_in := be_bytes 4 len @ startup_body @ n_in s\<rparr>)))"

text \<open>\<open>acceptor\<close> is the TLS library's handshake; the result is whether the connection is encrypted.\<close>

definition negotiate_stream :: "tls_settings \<Rightarrow> (bytes \<Rightarrow> string + bytes) option \<Rightarrow> bool server_op" where
  "negotiate_stream tls acceptor =
     sbind read_i32 (\<lambda>len.
     if len = 8
     then sbind read_i32 (\<lambda>code.
          if code = SSL_REQUEST_CODE
          then (case acceptor of
                  Some acc \<Rightarrow>
                    sbind (write_all (as_bytes ''S'')) (\<lambda>_.
                    sbind (sgets n_in) (\<lambda>bs.
                    sbind (bail (acc bs)) (\<lambda>plaintext.
                    sbind (smodify (\<lambda>s. s\<lparr>n_in := plaintext\<rparr>)) (\<lambda>_. sret True))))
                | None \<Rightarrow>
                    sbind (write_all (as_bytes ''N'')) (\<lambda>_.
                    sbind read_i32 (\<lambda>startup_len.
                    sbind (reread_startup startup_len) (\<lambda>_. sret False))))
          else sfail (Bail (''unexpected pre-startup message code '' @ show_int (sint code))))
     else if tls_require tls
     then sbind (send_error_plain ''SSL required'') (\<lambda>_. sfail (Bail ''plaintext connection rejected: require_tls=true''))
     else sbind (reread_startup len) (\<lambda>_. sret False))"

definition handle_connection :: "server_env \<Rightarrow> auth_config \<Rightarrow> tls_settings \<Rightarrow> (bytes \<Rightarrow> string + bytes) option \<Rightarrow> unit server_op" where
  "handle_connection V auth tls acceptor =
     sbind (negotiate_stream tls acceptor) (\<lambda>encrypted. run_session V auth encrypted)"

end
