(* ===== verification/Session.thy ===== *)
theory Session
  imports Server
begin

text \<open>
  Laws of a connection: what a client has to show before a statement of it runs, when the connection is
  encrypted, what the server answers to a query, and what the messages of the extended protocol mean.
\<close>

subsection \<open>Before authentication\<close>

text \<open>Computations that leave the database and the counters alone.\<close>

definition idle :: "'a server_op \<Rightarrow> bool" where
  "idle m \<longleftrightarrow> (\<forall>s. sv_db (snd (m s)) = sv_db s \<and> sv_metrics (snd (m s)) = sv_metrics s)"

lemma idleD: "idle m \<Longrightarrow> m s = (r, t) \<Longrightarrow> sv_db t = sv_db s \<and> sv_metrics t = sv_metrics s"
  by (metis idle_def snd_conv)

named_theorems idle_rules \<open>what a computation is composed of\<close>

lemma idle_sbind [idle_rules]: "idle m \<Longrightarrow> (\<And>x. idle (f x)) \<Longrightarrow> idle (sbind m f)"
  unfolding idle_def sbind_def by (simp split: prod.split sum.split) (metis snd_conv)

lemma idle_branches [idle_rules]:
  "idle a \<Longrightarrow> idle b \<Longrightarrow> idle (if P then a else b)" "(\<And>x y. idle (f x y)) \<Longrightarrow> idle (case p of (x, y) \<Rightarrow> f x y)"
  "idle a \<Longrightarrow> (\<And>x. idle (g x)) \<Longrightarrow> idle (case q of None \<Rightarrow> a | Some x \<Rightarrow> g x)"
  "(\<And>e. idle (h e)) \<Longrightarrow> (\<And>x. idle (g x)) \<Longrightarrow> idle (case r of Inl e \<Rightarrow> h e | Inr x \<Rightarrow> g x)"
  by (simp_all split: prod.split option.split sum.split)

lemma emit_state [simp]: "sv_db (emit bs s) = sv_db s" "sv_metrics (emit bs s) = sv_metrics s" "sv_conn (emit bs s) = sv_conn s"
  "sv_ticks (emit bs s) = sv_ticks s"
  by (simp_all add: emit_def)

lemma idle_basic [idle_rules]:
  "idle (sret x)" "idle (sfail e)" "idle (sgets f)" "idle (send_message t b)" "idle (send_error m)" "idle (send_error_plain m)"
  "idle (write_all bs)" "idle (read_bytes n)" "idle (bail q)" "idle (utf8_or_bail m bs)" "idle (smodify (\<lambda>s. s\<lparr>n_in := k s\<rparr>))"
  by (simp_all add: idle_def write_all_def read_bytes_def bail_def utf8_or_bail_def split: option.split sum.split)

lemma idle_read [idle_rules]: "idle read_u8" "idle read_i32" "idle read_body" "idle read_sasl_message" "idle (reread_startup len)"
  unfolding read_u8_def read_i32_def read_body_def read_sasl_message_def reread_startup_def Let_def
  by (intro idle_rules)+

lemma idle_authenticate: "idle (authenticate V auth)"
  unfolding authenticate_def authenticate_scram_def authenticate_cleartext_def Let_def
  by (intro idle_rules)

lemma idle_negotiate: "idle (negotiate_stream tls acceptor)"
  unfolding negotiate_stream_def by (intro idle_rules)

text \<open>What a client has to send after its start-up message: a password message whose password the stored
  hash verifies, or the two messages of a SCRAM exchange that succeeds.\<close>

definition shows_password :: "server_env \<Rightarrow> auth_config \<Rightarrow> server_state \<Rightarrow> bool" where
  "shows_password V auth s \<longleftrightarrow> (\<exists>body t. read_frame s = (Inr (hd (as_bytes ''p''), body), t)
     \<and> auth_verify (sv_host V) auth (read_cstring body))"

definition shows_proof :: "server_env \<Rightarrow> scram_credentials \<Rightarrow> server_state \<Rightarrow> bool" where
  "shows_proof V creds s \<longleftrightarrow> (\<exists>m1 first t m2 final u client_first client_final S server_first answer.
     read_sasl_message s = (Inr (m1, first), t) \<and> read_sasl_message t = (Inr (m2, final), u)
     \<and> from_utf8 first = Some client_first \<and> from_utf8 final = Some client_final
     \<and> scram_start (sv_crypto V) (sv_nonce V) creds client_first = Inr (S, server_first)
     \<and> scram_finish (sv_crypto V) S client_final = Inr answer)"

definition shows_credentials :: "server_env \<Rightarrow> auth_config \<Rightarrow> server_state \<Rightarrow> bool" where
  "shows_credentials V auth s \<longleftrightarrow>
     (case ac_scram_credentials auth of None \<Rightarrow> shows_password V auth s | Some creds \<Rightarrow> shows_proof V creds s)"

text \<open>Reading does not look at what was written.\<close>

definition blind :: "'a server_op \<Rightarrow> bool" where
  "blind m \<longleftrightarrow> (\<forall>bs s. m (emit bs s) = apsnd (emit bs) (m s))"

lemma blind_read_bytes: "blind (read_bytes n)"
  by (simp add: blind_def read_bytes_def emit_def split: option.split)

lemma blind_sbind: "blind m \<Longrightarrow> (\<And>x. blind (f x)) \<Longrightarrow> blind (sbind m f)"
  by (simp add: blind_def sbind_def split: prod.split sum.split)

lemma blind_branches:
  "blind a \<Longrightarrow> blind b \<Longrightarrow> blind (if P then a else b)" "(\<And>x y. blind (f x y)) \<Longrightarrow> blind (case p of (x, y) \<Rightarrow> f x y)"
  "blind a \<Longrightarrow> (\<And>x. blind (g x)) \<Longrightarrow> blind (case q of None \<Rightarrow> a | Some x \<Rightarrow> g x)" "blind (sret x)" "blind (sfail e)"
  by (simp_all add: blind_def split: prod.split option.split)

lemmas blind_rules = blind_read_bytes blind_sbind blind_branches

lemma blind_readers: "blind read_u8" "blind read_body" "blind read_frame" "blind read_sasl_message"
  unfolding read_frame_def read_u8_def read_i32_def read_body_def read_sasl_message_def Let_def
  by (intro blind_rules)+

lemma blind_run: "blind m \<Longrightarrow> m (emit bs s) = (r, t) \<Longrightarrow> \<exists>u. m s = (r, u) \<and> t = emit bs u"
  by (cases "m s") (simp add: blind_def)

lemma cleartext_accepts:
  assumes "authenticate_cleartext V auth s = (Inr True, t)"
  shows "shows_password V auth s"
proof -
  define e where "e = emit (frame CHR ''R'' (be_bytes 4 (3 :: u32))) s"
  have "\<exists>body u. read_frame e = (Inr (hd (as_bytes ''p''), body), u) \<and> auth_verify (sv_host V) auth (read_cstring body)"
    using assms unfolding authenticate_cleartext_def e_def
    by (auto simp: read_frame_def sbind_split Let_def split: if_splits)
  then show ?thesis unfolding shows_password_def e_def using blind_run [OF blind_readers(3)] by blast
qed

lemma bail_Inr: "bail r s = (Inr x, t) \<longleftrightarrow> r = Inr x \<and> t = s"
  by (cases r) (auto simp: bail_def)

lemma utf8_or_bail_Inr: "utf8_or_bail m bs s = (Inr x, t) \<longleftrightarrow> from_utf8 bs = Some x \<and> t = s"
  by (cases "from_utf8 bs") (auto simp: utf8_or_bail_def)

lemma scram_accepts:
  assumes run: "authenticate_scram V auth s = (Inr True, t)" and auth: "ac_scram_credentials auth = Some creds"
  shows "shows_proof V creds s"
proof -
  define e where "e = emit (frame CHR ''R'' (be_bytes 4 (10 :: u32) @ as_bytes SCRAM_SHA256 @ [0, 0])) s"
  obtain m1 first u client_first S server_first where 1: "read_sasl_message e = (Inr (m1, first), u)"
      "from_utf8 first = Some client_first" "scram_start (sv_crypto V) (sv_nonce V) creds client_first = Inr (S, server_first)"
    and more: "sbind (send_message CHR ''R'' (be_bytes 4 (11 :: u32) @ cstring server_first)) (\<lambda>_.
     sbind read_sasl_message (\<lambda>(_, client_final_bytes).
     sbind (utf8_or_bail ''invalid SCRAM client-final encoding'' client_final_bytes) (\<lambda>client_final.
     case scram_finish (sv_crypto V) S client_final of
       Inr server_final \<Rightarrow>
         sbind (send_message CHR ''R'' (be_bytes 4 (12 :: u32) @ cstring server_final)) (\<lambda>_. sret True)
     | Inl e \<Rightarrow> sbind (send_error (''authentication failed: '' @ e)) (\<lambda>_. sret False)))) u = (Inr True, t)"
    using run auth unfolding authenticate_scram_def e_def
    by (auto simp: sbind_split bail_Inr utf8_or_bail_Inr ok_or_def split: if_splits)
  define e2 where "e2 = emit (frame CHR ''R'' (be_bytes 4 (11 :: u32) @ cstring server_first)) u"
  obtain m2 final v client_final where f: "read_sasl_message e2 = (Inr (m2, final), v)"
      "from_utf8 final = Some client_final" and last: "(case scram_finish (sv_crypto V) S client_final of
       Inr server_final \<Rightarrow>
         sbind (send_message CHR ''R'' (be_bytes 4 (12 :: u32) @ cstring server_final)) (\<lambda>_. sret True)
     | Inl e \<Rightarrow> sbind (send_error (''authentication failed: '' @ e)) (\<lambda>_. sret False)) v = (Inr True, t)"
    using more unfolding e2_def by (auto simp: sbind_split utf8_or_bail_Inr)
  obtain answer where 2: "read_sasl_message e2 = (Inr (m2, final), v)"
      "from_utf8 final = Some client_final" "scram_finish (sv_crypto V) S client_final = Inr answer"
    using f last by (cases "scram_finish (sv_crypto V) S client_final") (auto simp: sbind_def)
  obtain u0 where u: "read_sasl_message s = (Inr (m1, first), u0)" "\<exists>bs. u = emit bs u0"
    using blind_run [OF blind_readers(4) 1(1) [unfolded e_def]] by blast
  then obtain bs where "read_sasl_message (emit bs u0) = (Inr (m2, final), v)"
    using 2(1) unfolding e2_def by auto
  then obtain w where "read_sasl_message u0 = (Inr (m2, final), w)" using blind_run [OF blind_readers(4)] by blast
  then show ?thesis unfolding shows_proof_def
    by (intro exI conjI) (rule u(1) 1(2,3) 2(2,3) | assumption)+
qed

lemma authenticate_accepts:
  assumes "authenticate V auth s = (Inr True, t)"
  shows "shows_credentials V auth s"
  using assms cleartext_accepts scram_accepts
  by (auto simp: authenticate_def shows_credentials_def scram_available_def split: if_splits option.split)

text \<open>C12: No statement runs for a client that has not authenticated: if authentication is configured and a
  connection, whatever bytes it sends, changes the database or is counted as having sent a query, then
  the message or messages after its start-up message carry credentials that the server accepts.\<close>

theorem no_query_without_credentials:
  assumes auth: "auth_required auth" and run: "handle_connection V auth tls acceptor s = (r, t)"
    and effect: "sv_db t \<noteq> sv_db s \<or> sv_metrics t \<noteq> sv_metrics s"
  shows "\<exists>encrypted s0 startup s1. negotiate_stream tls acceptor s = (Inr encrypted, s0) \<and> read_body s0 = (Inr startup, s1)
    \<and> shows_credentials V auth s1"
proof -
  have same: "\<not> idle m" if "m s = (r', t)" for m :: "'a server_op" and r' using idleD [of m s r' t] that effect by auto
  obtain encrypted s0 where s0: "negotiate_stream tls acceptor s = (Inr encrypted, s0)" "run_session V auth encrypted s0 = (r, t)"
    using run same [of "negotiate_stream tls acceptor"] idle_negotiate unfolding handle_connection_def sbind_split by blast
  have e0: "\<not> (sv_db t = sv_db s0 \<and> sv_metrics t = sv_metrics s0)" using idleD [OF idle_negotiate s0(1)] effect by auto
  obtain startup s1 where s1: "read_body s0 = (Inr startup, s1)"
    using s0(2) e0 idleD [OF idle_read(3)] unfolding run_session_def sbind_split by blast
  have e1: "\<not> (sv_db t = sv_db s1 \<and> sv_metrics t = sv_metrics s1)" using idleD [OF idle_read(3) s1] e0 by auto
  obtain s2 where "authenticate V auth s1 = (Inr True, s2)"
  proof (cases "authenticate V auth s1")
    case (Pair q s2)
    have "sv_db s2 = sv_db s1 \<and> sv_metrics s2 = sv_metrics s1" by (rule idleD [OF idle_authenticate Pair])
    then have "q = Inr True"
      using s0(2) e1 Pair auth unfolding run_session_def sbind_Inr [of read_body, OF s1]
      by (cases q) (auto simp: sbind_def split: if_splits)
    then show ?thesis using that Pair by simp
  qed
  then show ?thesis using s0(1) s1 authenticate_accepts by blast
qed

subsection \<open>Encryption\<close>

text \<open>C19: A server that requires TLS never talks in the clear: it starts only with a certificate and a key,
  and a connection that gets past the negotiation is the plaintext of a completed handshake.\<close>

theorem required_tls_is_enforced:
  assumes tls: "tls_require tls" and loaded: "load_server_config H tls = Inr certs"
    and negotiated: "negotiate_stream tls (map_option (\<lambda>_. handshake) certs) s = (Inr encrypted, t)"
  shows "encrypted \<and> handshake (drop 8 (n_in s)) = Inr (n_in t)"
proof -
  obtain ck where certs: "certs = Some ck"
    using loaded tls by (auto simp: load_server_config_def rbind_eq_Inr split: option.splits)
  have taken: "n_in u = drop 4 (n_in v)" if "read_i32 v = (Inr x, u)" for u v :: server_state and x
    using that by (auto simp: read_i32_def read_bytes_def read_exact_def sbind_split split: if_splits)
  show ?thesis using negotiated tls certs unfolding negotiate_stream_def
    by (auto simp: sbind_split bail_Inr write_all_def dest!: taken split: if_splits)
qed

text \<open>A password is asked for only over TLS, where TLS is available: with the settings made from a
  configuration that has a certificate, a key and a password hash, an unencrypted session is refused with
  an error and no request for a password.\<close>

theorem password_only_over_tls:
  assumes auth: "auth = auth_config_of H K argon_salt scram_salt cfg tls" and tls: "tls_available tls"
    and hash: "auth_required auth" "\<not> scram_available auth" and run: "run_session V auth False s = (r, t)"
  shows "n_out t = n_out s \<or> n_out t = n_out s @ error_frame ''password authentication requires TLS''"
proof -
  have require: "ac_require_tls_for_password auth"
    using auth tls hash by (auto simp: auth_config_of_def Let_def auth_required_def scram_available_def split: if_splits)
  have out: "n_out u = n_out s" if "read_body s = (q, u)" for q u
    using that by (auto simp: read_body_def read_i32_def read_bytes_def sbind_def read_exact_def split: option.splits if_splits)
  show ?thesis using run require hash out unfolding run_session_def
    by (auto simp: sbind_split split: if_splits)
qed

subsection \<open>Queries\<close>

definition ready_frame :: "char \<Rightarrow> bytes" where
  "ready_frame status = frame CHR ''Z'' (as_bytes [status])"

text \<open>A query message, in the loop: the state after the statement ran.\<close>

definition answered :: "server_env \<Rightarrow> string \<Rightarrow> server_state \<Rightarrow> server_state" where
  "answered V sql s =
     (case execute_session (sv_codecs V) (sv_lib V) sql (sv_db s, cs_session (sv_conn s)) of
        (Inr result, (db, se)) \<Rightarrow>
          emit (result_frames result @ ready_frame (if is_active (se_transaction se) then CHR ''T'' else CHR ''I''))
            (log_query_outcome V False (s\<lparr>sv_db := db, sv_conn := (sv_conn s)\<lparr>cs_session := se, cs_in_error := False\<rparr>\<rparr>))
      | (Inl e, (db, se)) \<Rightarrow>
          emit (error_frame (error_text e) @ ready_frame CHR ''E'')
            (log_query_outcome V True (s\<lparr>sv_db := db, sv_conn := (sv_conn s)\<lparr>cs_session := se, cs_in_error := True\<rparr>\<rparr>)))"

lemma query_message:
  assumes "sql \<noteq> []" "is_text sql" "no_nul sql" "summarize_sql sql = Some preview"
  shows "handle_message V (hd (as_bytes ''Q'')) (cstring sql) s = (Inr True, answered V sql s)"
proof -
  have "read_cstring (cstring sql) = sql" using read_cstring_cstring [OF assms(2,3), of "[]"] by (simp add: read_cstring_def)
  then show ?thesis using assms
    by (auto simp: handle_message_def sbind_def run_sql_def answered_def ready_frame_def ready_status_def split: prod.split sum.split)
qed

lemma answered_counts: "queries_total (sv_metrics (answered V sql s)) = queries_total (sv_metrics s) + 1"
  by (simp add: answered_def log_query_outcome_def query_executed_def query_failed_def Let_def split: prod.split sum.split)

lemma answered_in [simp]: "n_in (answered V sql s) = n_in s"
  by (simp add: answered_def split: prod.split sum.split)

text \<open>Every query is answered: a query message runs its text once against the database and the session,
  and the answer is the result followed by the state of the transaction, or the error followed by the
  error state.\<close>

theorem query_is_answered:
  assumes sql: "sql \<noteq> []" "is_text sql" "no_nul sql" "summarize_sql sql = Some preview"
  shows "\<exists>t. handle_message V (hd (as_bytes ''Q'')) (cstring sql) s = (Inr True, t) \<and> n_in t = n_in s
    \<and> (case execute_session (sv_codecs V) (sv_lib V) sql (sv_db s, cs_session (sv_conn s)) of
         (Inr result, (db, se)) \<Rightarrow> sv_db t = db \<and> cs_session (sv_conn t) = se
           \<and> n_out t = n_out s @ result_frames result @ ready_frame (if is_active (se_transaction se) then CHR ''T'' else CHR ''I'')
       | (Inl e, (db, se)) \<Rightarrow> sv_db t = db \<and> cs_session (sv_conn t) = se
           \<and> n_out t = n_out s @ error_frame (error_text e) @ ready_frame CHR ''E'')"
  using query_message [OF sql, of V s] by (auto simp: answered_def split: prod.split sum.split)

subsection \<open>The extended protocol\<close>

text \<open>The messages of a client: a statement with a name, and the parameters of its execution, without
  format codes. \<open>results\<close> are the format codes of the result, which the server does not read.\<close>

definition parse_payload :: "string \<Rightarrow> string \<Rightarrow> bytes" where
  "parse_payload name sql = cstring name @ cstring sql @ be_bytes 2 (0 :: u16)"

fun param_field :: "string option \<Rightarrow> bytes" where
  "param_field None = be_bytes 4 (-1 :: u32)"
| "param_field (Some v) = be_bytes 4 (word_of_nat (length v) :: u32) @ as_bytes v"

definition bind_payload :: "string \<Rightarrow> u16 list \<Rightarrow> string option list \<Rightarrow> bytes \<Rightarrow> bytes" where
  "bind_payload name formats params results =
     cstring [] @ cstring name @ be_bytes 2 (word_of_nat (length formats) :: u16) @ concat (map (be_bytes 2) formats)
       @ be_bytes 2 (word_of_nat (length params) :: u16) @ concat (map param_field params) @ results"

definition param_ok :: "string option \<Rightarrow> bool" where
  "param_ok p = (case p of None \<Rightarrow> True | Some v \<Rightarrow> is_text v \<and> length v < 2 ^ 31)"

lemma bind_params_roundtrip:
  "\<forall>p \<in> set params. param_ok p \<Longrightarrow> bind_params (length params) (concat (map param_field params) @ rest) acc = acc @ params"
proof (induction params arbitrary: acc)
  case (Cons p params)
  have ok: "param_ok p" using Cons.prems by simp
  have IH: "bind_params (length params) (concat (map param_field params) @ rest) acc' = acc' @ params" for acc'
    using Cons by simp
  show ?case
  proof (cases p)
    case None
    then show ?thesis using IH by (simp add: Let_def)
  next
    case (Some v)
    then show ?thesis using IH ok small_i32 [of "length v"]
      by (simp add: param_ok_def Let_def from_utf8_lossy_text)
  qed
qed simp

lemma is_text_Nil [simp]: "is_text []" "no_nul []"
  by (simp_all add: is_text_def no_nul_def utf8_valid.simps)

text \<open>C21: The extended protocol runs the statement that was prepared with the values that were bound: after a
  parse message for a named statement and a bind message without format codes, an execute message runs the
  text of the statement with the parameters put in.\<close>

theorem prepared_statement_runs:
  assumes name: "name \<noteq> []" "is_text name" "no_nul name" and sql: "sql \<noteq> []" "is_text sql" "no_nul sql"
    and params: "\<forall>p \<in> set params. param_ok p" "length params < 2 ^ 15"
    and conn: "conn = handle_bind (bind_payload name [] params results) (handle_parse (parse_payload name sql) (sv_conn s))"
  shows "handle_execute V payload (set_conn conn s) = run_sql V (substitute_params sql params) (set_conn conn s)"
proof -
  have "handle_parse (parse_payload name sql) (sv_conn s) =
      (sv_conn s)\<lparr>cs_prepared := AList.update name sql (cs_prepared (sv_conn s))\<rparr>"
    using name sql by (simp add: handle_parse_def parse_payload_def)
  then have "cs_last_statement conn = Some sql" "cs_portal_params conn = params"
    using name params(2) bind_params_roundtrip [OF params(1), of results "[]"] small_i16 [OF params(2)]
    by (simp_all add: conn handle_bind_def bind_payload_def Let_def update_conv')
  then show ?thesis using sql by (simp add: handle_execute_def set_conn_def)
qed

text \<open>A bind message with a format code is misread: the server takes the code for the number of
  parameters, so with the code for text it binds none of them, and the statement runs with its
  placeholders.\<close>

theorem format_code_loses_parameters:
  assumes name: "is_text name" "no_nul name"
  shows "cs_portal_params (handle_bind (bind_payload name [0] params results) conn) = []"
proof -
  have "cs_portal_params (case x of None \<Rightarrow> c | Some sql \<Rightarrow> c\<lparr>cs_last_statement := Some sql\<rparr>) = cs_portal_params c"
    for x and c :: connection_session by (cases x) simp_all
  then show ?thesis using name by (simp add: handle_bind_def bind_payload_def Let_def)
qed

subsection \<open>Running a session\<close>

lemma negotiate_plain:
  assumes "n_in s = be_bytes 4 (word_of_nat (length body + 4) :: u32) @ body @ rest" "small_body body" "length body \<noteq> 4"
    "\<not> tls_require tls"
  shows "negotiate_stream tls acceptor s = (Inr False, s)"
proof -
  define len :: u32 where "len = word_of_nat (length body + 4)"
  have size: "body_size len = Some (length body)" unfolding len_def by (rule body_size_small [OF assms(2)])
  then have len: "len \<noteq> 8" using assms(3) by (auto simp: body_size_def split: if_splits)
  have "read_i32 s = (Inr len, s\<lparr>n_in := body @ rest\<rparr>)"
    using assms(1) by (intro i32_channel.get_put) (simp_all add: len_def)
  moreover have "read_bytes (length body) (s\<lparr>n_in := body @ rest\<rparr>) = (Inr body, s\<lparr>n_in := rest\<rparr>)"
    by (subst read_bytes_append) simp_all
  ultimately show ?thesis using size len assms(1,4)
    by (simp add: negotiate_stream_def sbind_def reread_startup_def len_def)
qed

lemma session_loop_end: "n_in s = [] \<Longrightarrow> session_loop V s = (Inr (), s)"
  by (simp add: session_loop.simps)

lemma session_loop_message:
  assumes "n_in s = frame tag body @ rest" "small_body body"
  shows "session_loop V s = (case handle_message V (word_of_nat (of_char tag)) body (s\<lparr>n_in := rest\<rparr>) of
    (Inl e, t) \<Rightarrow> (Inl e, t) | (Inr go_on, t) \<Rightarrow> if go_on then session_loop V t else (Inr (), t))"
proof -
  have "read_body (s\<lparr>n_in := be_bytes 4 (word_of_nat (length body + 4) :: u32) @ body @ rest\<rparr>) = (Inr body, s\<lparr>n_in := rest\<rparr>)"
    using body_channel.get_put [OF assms(2), of "s\<lparr>n_in := be_bytes 4 (word_of_nat (length body + 4) :: u32) @ body @ rest\<rparr>" rest]
    by simp
  then show ?thesis using assms(1)
    by (subst session_loop.simps) (simp add: frame_split)
qed

definition greeting :: bytes where
  "greeting = frame CHR ''R'' (be_bytes 4 (0 :: u32)) @ concat (map (\<lambda>(k, v). frame CHR ''S'' (cstring k @ cstring v)) PARAMETERS)
     @ frame CHR ''Z'' (as_bytes ''I'')"

lemma greet_eq: "greet s = (Inr (), emit greeting s)"
  by (simp add: greet_def PARAMETERS_def greeting_def sbind_def)

text \<open>A start-up message as it is on the wire.\<close>

definition startup_frame :: "bytes \<Rightarrow> bytes" where
  "startup_frame body = be_bytes 4 (word_of_nat (length body + 4) :: u32) @ body"

lemma read_startup:
  "small_body body \<Longrightarrow> n_in s = startup_frame body @ rest \<Longrightarrow> read_body s = (Inr body, s\<lparr>n_in := rest\<rparr>)"
  unfolding startup_frame_def by (rule body_channel.get_put)

lemma run_session_trust:
  assumes "n_in s = startup_frame body @ rest" "small_body body" "4 \<le> length body" "\<not> auth_required auth"
  shows "run_session V auth encrypted s = session_loop V (set_conn connection_session_new (emit greeting (s\<lparr>n_in := rest\<rparr>)))"
  using assms(3,4) 
  unfolding run_session_def sbind_Inr [of read_body, OF read_startup [OF assms(2,1)]] by (simp add: sbind_def greet_eq)

lemma cleartext_ok:
  assumes "n_in s = frame CHR ''p'' (cstring password) @ rest" "small_body (cstring password)" "is_text password" "no_nul password"
    "auth_verify (sv_host V) auth password"
  shows "authenticate_cleartext V auth s = (Inr True, emit (frame CHR ''R'' (be_bytes 4 (3 :: u32))) (s\<lparr>n_in := rest\<rparr>))"
proof -
  define e where "e = emit (frame CHR ''R'' (be_bytes 4 (3 :: u32))) s"
  have e: "n_in e = hd (as_bytes ''p'') # startup_frame (cstring password) @ rest"
    using assms(1) by (simp add: e_def frame_split startup_frame_def)
  have pw: "read_cstring (cstring password) = password"
    using read_cstring_cstring [OF assms(3,4), of "[]"] by (simp add: read_cstring_def)
  have "read_body (e\<lparr>n_in := startup_frame (cstring password) @ rest\<rparr>) = (Inr (cstring password), e\<lparr>n_in := rest\<rparr>)"
    by (subst read_startup [OF assms(2)]) simp_all
  then have "authenticate_cleartext V auth s = (Inr True, e\<lparr>n_in := rest\<rparr>)"
    unfolding authenticate_cleartext_def
    by (simp only: sbind_def send_message_eq split_conv sum.case e_def [symmetric] read_u8_Cons [OF e])
      (simp add: sbind_def pw Let_def assms(5))
  then show ?thesis by (simp add: e_def emit_def)
qed

lemma run_session_password:
  assumes "n_in s = startup_frame body @ frame CHR ''p'' (cstring password) @ rest" "small_body body" "4 \<le> length body"
    "small_body (cstring password)" "is_text password" "no_nul password" "auth_verify (sv_host V) auth password"
    "auth_required auth" "\<not> scram_available auth" "\<not> ac_require_tls_for_password auth"
  shows "run_session V auth encrypted s = session_loop V (set_conn connection_session_new
    (emit (frame CHR ''R'' (be_bytes 4 (3 :: u32)) @ greeting) (s\<lparr>n_in := rest\<rparr>)))"
proof -
  have "authenticate V auth (s\<lparr>n_in := frame CHR ''p'' (cstring password) @ rest\<rparr>) =
      (Inr True, emit (frame CHR ''R'' (be_bytes 4 (3 :: u32))) (s\<lparr>n_in := rest\<rparr>))"
    using assms(9) cleartext_ok [OF _ assms(4-7), of "s\<lparr>n_in := frame CHR ''p'' (cstring password) @ rest\<rparr>" rest]
    by (simp add: authenticate_def)
  then show ?thesis using assms(3,8-10) 
    unfolding run_session_def sbind_Inr [of read_body, OF read_startup [OF assms(2,1)]] by (simp add: sbind_def greet_eq)
qed

subsection \<open>A concrete server\<close>

definition example_host :: host_env where
  "example_host = \<lparr>he_files = [(''c.pem'', []), (''k.pem'', [])], he_toml = (\<lambda>_. Inl ''expected a table''), he_password_var = None,
     he_argon_parses = (\<lambda>_. True), he_argon_verifies = (\<lambda>password hash. password = hash), he_argon_hash = (\<lambda>_ password. password),
     he_certs = (\<lambda>_. Inr [[1]]), he_private_keys = (\<lambda>_. Inr [[2]]), he_tls_config = (\<lambda>_ _. Inr ())\<rparr>"

definition example_server :: server_env where
  "example_server = \<lparr>sv_codecs = example_engine, sv_lib = example_library, sv_crypto = example_crypto, sv_host = example_host,
     sv_query_log = query_log_from log_config_default, sv_elapsed = (\<lambda>_. 5), sv_nonce = [9]\<rparr>"

definition example_tls :: tls_settings where
  "example_tls = \<lparr>tls_cert_path = Some ''c.pem'', tls_key_path = Some ''k.pem'', tls_require = True\<rparr>"

definition example_auth :: auth_config where
  "example_auth = \<lparr>ac_password_hash = Some ''secret'', ac_scram_credentials = None, ac_require_tls_for_password = False\<rparr>"

definition startup_body :: bytes where
  "startup_body = be_bytes 4 (196608 :: u32) @ [0]"

definition example_client :: "bytes \<Rightarrow> server_state" where
  "example_client bs = \<lparr>n_in = bs, n_out = [], sv_conn = connection_session_new, sv_db = example_db, sv_metrics = metrics_new, sv_ticks = 0\<rparr>"

lemma startup_body_ok: "small_body startup_body" "4 \<le> length startup_body" "length startup_body \<noteq> 4"
  by (simp_all add: startup_body_def small_body_def)

lemma ascii_ok:
  "is_text ''secret''" "no_nul ''secret''" "is_text ''x''" "no_nul ''x''" "is_text ''q''" "no_nul ''q''"
  by (simp_all add: is_text_ascii no_nul_def)

lemma example_summary: "summarize_sql ''x'' = Some ''x''"
  by code_simp

lemma example_query_counted:
  "\<exists>r t. handle_connection example_server example_auth (tls_from_server_config server_config_default) None
     (example_client (startup_frame startup_body @ frame CHR ''p'' (cstring ''secret'') @ frame CHR ''Q'' (cstring ''x''))) = (r, t)
     \<and> sv_metrics t \<noteq> metrics_new"
proof -
  define c where "c = example_client (startup_frame startup_body @ frame CHR ''p'' (cstring ''secret'') @ frame CHR ''Q'' (cstring ''x''))"
  define d where "d = set_conn connection_session_new (emit (frame CHR ''R'' (be_bytes 4 (3 :: u32)) @ greeting)
    (c\<lparr>n_in := frame CHR ''Q'' (cstring ''x'')\<rparr>))"
  have "negotiate_stream (tls_from_server_config server_config_default) None c = (Inr False, c)"
    by (rule negotiate_plain [OF _ startup_body_ok(1,3)])
      (simp_all add: c_def example_client_def startup_frame_def tls_from_server_config_def server_config_default_def)
  moreover have "run_session example_server example_auth False c = session_loop example_server d"
    unfolding d_def by (rule run_session_password [OF _ startup_body_ok(1,2) _ ascii_ok(1,2)])
      (simp_all add: c_def example_client_def small_body_def cstring_def example_auth_def auth_verify_def verify_password_def
        example_server_def example_host_def auth_required_def scram_available_def)
  moreover have "session_loop example_server d = (Inr (), answered example_server ''x'' (d\<lparr>n_in := []\<rparr>))"
    using session_loop_message [of d "CHR ''Q''" "cstring ''x''" "[]" example_server]
      query_message [OF _ ascii_ok(3,4) example_summary, of example_server "d\<lparr>n_in := []\<rparr>"]
    by (simp add: d_def set_conn_def small_body_def cstring_def session_loop_end)
  moreover have "queries_total (sv_metrics d) = 0" by (simp add: d_def c_def set_conn_def example_client_def metrics_new_def)
  ultimately show ?thesis using answered_counts [of example_server "''x''" "d\<lparr>n_in := []\<rparr>"]
    by (auto simp: handle_connection_def sbind_def c_def [symmetric] metrics_new_def)
qed

theorem no_query_without_credentials_witness:
  "\<exists>encrypted s0 startup s1. negotiate_stream (tls_from_server_config server_config_default) None
     (example_client (startup_frame startup_body @ frame CHR ''p'' (cstring ''secret'') @ frame CHR ''Q'' (cstring ''x''))) = (Inr encrypted, s0)
     \<and> read_body s0 = (Inr startup, s1) \<and> shows_credentials example_server example_auth s1"
proof -
  obtain r t where run: "handle_connection example_server example_auth (tls_from_server_config server_config_default) None
     (example_client (startup_frame startup_body @ frame CHR ''p'' (cstring ''secret'') @ frame CHR ''Q'' (cstring ''x''))) = (r, t)"
    and t: "sv_metrics t \<noteq> metrics_new" using example_query_counted by blast
  show ?thesis
    by (rule no_query_without_credentials [OF _ run disjI2]) (use t in \<open>simp_all add: example_auth_def auth_required_def example_client_def\<close>)
qed

theorem required_tls_is_enforced_witness:
  "\<exists>t. negotiate_stream example_tls (map_option (\<lambda>_. \<lambda>bs. Inr (rev bs)) (Some ([[1 :: u8]], [2 :: u8])))
      (example_client (be_bytes 4 (8 :: u32) @ be_bytes 4 SSL_REQUEST_CODE @ [1, 2])) = (Inr True, t)
    \<and> load_server_config example_host example_tls = Inr (Some ([[1]], [2])) \<and> n_in t = [2, 1]"
proof -
  define s where "s = example_client (be_bytes 4 (8 :: u32) @ be_bytes 4 SSL_REQUEST_CODE @ [1, 2])"
  have loaded: "load_server_config example_host example_tls = Inr (Some ([[1]], [2]))" by code_simp
  have 1: "read_i32 s = (Inr 8, s\<lparr>n_in := be_bytes 4 SSL_REQUEST_CODE @ [1, 2]\<rparr>)"
    by (rule i32_channel.get_put) (simp_all add: s_def example_client_def)
  have 2: "read_i32 (s\<lparr>n_in := be_bytes 4 SSL_REQUEST_CODE @ [1, 2]\<rparr>) = (Inr SSL_REQUEST_CODE, s\<lparr>n_in := [1, 2]\<rparr>)"
    by (subst i32_channel.get_put) simp_all
  obtain t where t: "negotiate_stream example_tls (map_option (\<lambda>_. \<lambda>bs. Inr (rev bs)) (Some ([[1 :: u8]], [2 :: u8]))) s = (Inr True, t)"
    unfolding negotiate_stream_def by (simp add: sbind_def 1 2 bail_def write_all_def)
  have "drop 8 (n_in s) = [1, 2]" by (simp add: s_def example_client_def)
  then show ?thesis using required_tls_is_enforced [OF _ loaded t] t loaded
    by (auto simp: example_tls_def s_def [symmetric])
qed

theorem password_only_over_tls_witness:
  "n_out (snd (run_session example_server
      (auth_config_of example_host example_crypto [] [] (config_default\<lparr>cfg_auth := \<lparr>cfg_password_hash = Some ''secret'', cfg_password_scram = None\<rparr>\<rparr>) example_tls)
      False (example_client (startup_frame startup_body)))) \<in> {[], error_frame ''password authentication requires TLS''}"
proof -
  define auth where "auth = auth_config_of example_host example_crypto [] []
    (config_default\<lparr>cfg_auth := \<lparr>cfg_password_hash = Some ''secret'', cfg_password_scram = None\<rparr>\<rparr>) example_tls"
  have auth: "auth_required auth" "\<not> scram_available auth"
    by (simp_all add: auth_def auth_config_of_def from_config_and_env_def option_filter_def auth_required_def scram_available_def Let_def)
  show ?thesis unfolding auth_def [symmetric]
    using password_only_over_tls [OF auth_def _ auth, of example_server "example_client (startup_frame startup_body)"]
    by (cases "run_session example_server auth False (example_client (startup_frame startup_body))")
      (simp add: tls_available_def example_tls_def example_client_def)
qed

theorem query_is_answered_witness:
  "\<exists>t. handle_message example_server (hd (as_bytes ''Q'')) (cstring ''x'') (example_client []) = (Inr True, t)
    \<and> n_out t = error_frame ''SQL parse error: syntax error'' @ ready_frame CHR ''E''"
proof -
  have "\<exists>db se. execute_session (sv_codecs example_server) (sv_lib example_server) ''x''
      (sv_db (example_client []), cs_session (sv_conn (example_client []))) = (Inl (Parse ''syntax error''), (db, se))"
    by (simp add: execute_session_def execute_def example_server_def example_library_def parse_sql_def sbind_def)
  then show ?thesis using query_is_answered [OF _ ascii_ok(3,4) example_summary, of example_server "example_client []"]
    by (auto simp: example_client_def)
qed

theorem prepared_statement_runs_witness:
  "handle_execute example_server [] (set_conn
      (handle_bind (bind_payload ''q'' [] [Some ''x'', None] []) (handle_parse (parse_payload ''q'' ''x'') connection_session_new))
      (example_client []))
   = run_sql example_server (substitute_params ''x'' [Some ''x'', None]) (set_conn
      (handle_bind (bind_payload ''q'' [] [Some ''x'', None] []) (handle_parse (parse_payload ''q'' ''x'') connection_session_new))
      (example_client []))"
  using prepared_statement_runs [OF _ ascii_ok(5,6) _ ascii_ok(3,4), of "[Some ''x'', None]" _ "[]" "example_client []" example_server "[]"]
  by (simp add: param_ok_def ascii_ok example_client_def)

theorem format_code_loses_parameters_witness:
  "cs_portal_params (handle_bind (bind_payload ''q'' [0] [Some ''x''] []) connection_session_new) = []"
  by (rule format_code_loses_parameters [OF ascii_ok(5,6)])

end
