(* ===== verification/Client.thy ===== *)
theory Client
  imports Session
begin

text \<open>
  \<open>moodeng-cli/src/main.rs\<close>: one statement through a connection of its own, and \<open>ping\<close> of the server's
  \<open>main.rs\<close>. \<open>n_in\<close> is what the server sends, \<open>n_out\<close> what the client writes.
\<close>

subsection \<open>Reading the server\<close>

type_synonym 'a client_op = "(net_error, net, 'a) op"

definition read_message :: "(u8 \<times> bytes) client_op" where
  "read_message =
     sbind (read_bytes 5) (\<lambda>header.
     case body_size (from_be_bytes (tl header)) of
       None \<Rightarrow> sfail Panic
     | Some n \<Rightarrow> sbind (read_bytes n) (\<lambda>payload. sret (hd header, payload)))"

lemma read_message_less:
  assumes "read_message s = (Inr m, t)"
  shows "length (n_in t) < length (n_in s)"
proof -
  obtain h u n p where h: "read_bytes 5 s = (Inr h, u)" "read_bytes n u = (Inr p, t)"
    using assms by (auto simp: read_message_def sbind_split split: option.splits)
  then have "length (n_in u) + 5 = length (n_in s)" by (auto simp: read_bytes_def read_exact_def split: if_splits)
  then show ?thesis using read_bytes_less [OF h(2)] by simp
qed

function read_until_ready :: "unit client_op" where
  "read_until_ready s =
     (case read_message s of
        (Inl e, s) \<Rightarrow> (Inl e, s)
      | (Inr m, s) \<Rightarrow> if fst m = hd (as_bytes ''Z'') then (Inr (), s) else read_until_ready s)"
  by pat_completeness auto
termination
  by (relation "measure (length \<circ> n_in)") (simp_all add: read_message_less [OF sym])

declare read_until_ready.simps [simp del]

subsection \<open>Printing an answer\<close>

text \<open>A slice outside of the payload panics: \<open>None\<close>.\<close>

fun read_columns :: "nat \<Rightarrow> bytes \<Rightarrow> nat \<Rightarrow> string list \<Rightarrow> string list option" where
  "read_columns 0 payload pos cols = Some cols"
| "read_columns (Suc n) payload pos cols =
     (if length payload < pos then None
      else case position (\<lambda>b. b = 0) (drop pos payload) of
             Some end_ \<Rightarrow> read_columns n payload (pos + end_ + 1 + 18) (cols @ [from_utf8_lossy (take end_ (drop pos payload))])
           | None \<Rightarrow> read_columns n payload pos cols)"

fun read_values :: "nat \<Rightarrow> bytes \<Rightarrow> nat \<Rightarrow> string list \<Rightarrow> string list option" where
  "read_values 0 payload pos vals = Some vals"
| "read_values (Suc n) payload pos vals =
     (if length payload < pos + 4 then Some vals
      else let vlen = from_be_bytes (take 4 (drop pos payload)) :: u32; pos = pos + 4
           in if vlen = -1 then read_values n payload pos (vals @ [''NULL''])
              else if sint vlen < 0 \<or> length payload < pos + unat vlen then None
              else read_values n payload (pos + unat vlen) (vals @ [from_utf8_lossy (take (unat vlen) (drop pos payload))]))"

definition ncols_of :: "bytes \<Rightarrow> nat" where
  "ncols_of payload = unat (scast (from_be_bytes (take 2 payload) :: u16) :: u64)"

definition NEWLINE :: string where "NEWLINE = [CHR 0x0A]"

definition print_message :: "u8 \<Rightarrow> bytes \<Rightarrow> string option" where
  "print_message msg_type payload =
     (if msg_type = hd (as_bytes ''E'')
      then (case position (\<lambda>b. b = 0) payload of
              Some pos \<Rightarrow> if pos = 0 then None
                         else Some (''ERROR: '' @ from_utf8_lossy (take (pos - 1) (drop 1 payload)) @ NEWLINE)
            | None \<Rightarrow> Some (''ERROR: '' @ NEWLINE))
      else if msg_type = hd (as_bytes ''T'')
      then (if 2 < length payload
            then (case read_columns (ncols_of payload) payload 2 [] of
                    None \<Rightarrow> None
                  | Some cols \<Rightarrow> Some (join_with '' | '' cols @ NEWLINE
                      @ replicate (length (join_with '' | '' cols)) CHR ''-'' @ NEWLINE))
            else Some [])
      else if msg_type = hd (as_bytes ''D'')
      then (if 2 < length payload
            then map_option (\<lambda>vals. join_with '' | '' vals @ NEWLINE) (read_values (ncols_of payload) payload 2 [])
            else Some [])
      else if msg_type = hd (as_bytes ''C'')
      then (case position (\<lambda>b. b = 0) payload of
              Some pos \<Rightarrow> Some (from_utf8_lossy (take pos payload) @ NEWLINE)
            | None \<Rightarrow> Some [])
      else Some [])"

function print_reply :: "string \<Rightarrow> string client_op" where
  "print_reply output s =
     (case read_message s of
        (Inl e, s) \<Rightarrow> (Inl e, s)
      | (Inr m, s) \<Rightarrow>
          if fst m = hd (as_bytes ''Z'') then (Inr output, s)
          else case print_message (fst m) (snd m) of
                 None \<Rightarrow> (Inl Panic, s)
               | Some text \<Rightarrow> print_reply (output @ text) s)"
  by pat_completeness auto
termination
  by (relation "measure (length \<circ> n_in \<circ> snd)") (simp_all add: read_message_less [OF sym])

declare print_reply.simps [simp del]

definition client_startup :: bytes where
  "client_startup = be_bytes 4 (196608 :: u32) @ cstring ''user'' @ cstring ''moodeng'' @ [0]"

definition execute_sql :: "string \<Rightarrow> string client_op" where
  "execute_sql sql =
     sbind (write_all (be_bytes 4 (word_of_nat (length client_startup + 4) :: u32) @ client_startup)) (\<lambda>_.
     sbind read_until_ready (\<lambda>_.
     sbind (write_all (as_bytes ''Q'' @ be_bytes 4 (word_of_nat (length sql + 5) :: u32) @ as_bytes sql @ [0])) (\<lambda>_.
     sbind (print_reply []) (\<lambda>output.
     sbind (write_all (as_bytes ''X'' @ [0, 0, 0, 4])) (\<lambda>_.
       sret output)))))"

subsection \<open>The prompt\<close>

function trim_start :: "string \<Rightarrow> string" where
  "trim_start s = (if 0 < white_len s then trim_start (drop (white_len s) s) else s)"
  by pat_completeness auto
termination
  by (relation "measure length") (auto simp: white_len_def Let_def split: if_splits)

definition white_end :: "string \<Rightarrow> nat" where
  "white_end s = (case List.find (\<lambda>n. n \<le> length s \<and> white_len (drop (length s - n) s) = n) [1, 2, 3] of None \<Rightarrow> 0 | Some n \<Rightarrow> n)"

function trim_end :: "string \<Rightarrow> string" where
  "trim_end s = (if 0 < white_end s then trim_end (take (length s - white_end s) s) else s)"
  by pat_completeness auto
termination
  by (relation "measure length") (auto simp: white_end_def split: option.splits if_splits)

declare trim_start.simps [simp del] trim_end.simps [simp del]

definition trim :: "string \<Rightarrow> string" where
  "trim s = trim_end (trim_start s)"

text \<open>What the client prints: an answer on the output, an error on the error stream. \<open>exec\<close> is \<open>execute_sql\<close>
  on a new connection; the lines are what the editor returns, whose error ends the program.\<close>

datatype shown = Out string | Err net_error

fun prompt_loop :: "(string \<Rightarrow> net_error + string) \<Rightarrow> string list \<Rightarrow> shown list" where
  "prompt_loop exec [] = []"
| "prompt_loop exec (line # lines) =
     (let trimmed = trim line in
      if trimmed = [] then prompt_loop exec lines
      else if trimmed = [CHR 0x5C, CHR ''q''] \<or> eq_ignore_ascii_case trimmed ''quit'' then []
      else (case exec trimmed of Inr out \<Rightarrow> Out out | Inl e \<Rightarrow> Err e) # prompt_loop exec lines)"

definition client_main :: "(string \<Rightarrow> net_error + string) \<Rightarrow> string option \<Rightarrow> string list \<Rightarrow> net_error + shown list" where
  "client_main exec command lines =
     (case command of
        Some cmd \<Rightarrow> rbind (exec cmd) (\<lambda>out. Inr [Out out])
      | None \<Rightarrow> Inr (prompt_loop exec lines))"

subsection \<open>Reading back\<close>

lemma unat_scast_small: "n < 2 ^ 15 \<Longrightarrow> unat (scast (word_of_nat n :: u16) :: u64) = n"
proof -
  assume n: "n < 2 ^ 15"
  have "(scast (word_of_nat n :: u16) :: u64) = word_of_int (sint (word_of_nat n :: u16))" by simp
  also have "\<dots> = word_of_nat n" using small_i16 [OF n] by simp
  finally show ?thesis using n by (simp add: unsigned_of_nat take_bit_eq_mod)
qed

lemma ncols_of_append [simp]: "n < 2 ^ 15 \<Longrightarrow> ncols_of (be_bytes 2 (word_of_nat n :: u16) @ rest) = n"
  by (simp add: ncols_of_def unat_scast_small)

lemma read_message_frame:
  assumes "n_in s = frame tag body @ rest" "small_body body"
  shows "read_message s = (Inr (word_of_nat (of_char tag), body), s\<lparr>n_in := rest\<rparr>)"
proof -
  define len :: u32 where "len = word_of_nat (length body + 4)"
  have "read_bytes 5 s = (Inr (word_of_nat (of_char tag) # be_bytes 4 len), s\<lparr>n_in := body @ rest\<rparr>)"
    by (rule read_bytes_append) (simp_all add: assms(1) frame_split len_def)
  moreover have "body_size len = Some (length body)" unfolding len_def by (rule body_size_small [OF assms(2)])
  moreover have "read_bytes (length body) (s\<lparr>n_in := body @ rest\<rparr>) = (Inr body, s\<lparr>n_in := rest\<rparr>)"
    by (subst read_bytes_append) simp_all
  ultimately show ?thesis by (simp add: read_message_def sbind_def)
qed

lemma tag_byte: "(word_of_nat (of_char tag) :: u8) = hd (as_bytes [c]) \<longleftrightarrow> tag = c"
  using text_of_as_bytes [of "[tag]"] text_of_as_bytes [of "[c]"] by (metis as_bytes_simps(1,2) list.inject list.sel(1))

lemma skip_to_ready:
  assumes "n_in s = frame tag body @ rest" "small_body body"
  shows "read_until_ready s = (if tag = CHR ''Z'' then (Inr (), s\<lparr>n_in := rest\<rparr>) else read_until_ready (s\<lparr>n_in := rest\<rparr>))"
  using read_message_frame [OF assms] by (subst read_until_ready.simps) (simp add: tag_byte del: as_bytes_simps)

lemma print_reply_frame:
  assumes "n_in s = frame tag body @ rest" "small_body body"
  shows "print_reply out s = (if tag = CHR ''Z'' then (Inr out, s\<lparr>n_in := rest\<rparr>)
    else case print_message (word_of_nat (of_char tag)) body of
      None \<Rightarrow> (Inl Panic, s\<lparr>n_in := rest\<rparr>) | Some text \<Rightarrow> print_reply (out @ text) (s\<lparr>n_in := rest\<rparr>))"
  using read_message_frame [OF assms] by (subst print_reply.simps) (simp add: tag_byte del: as_bytes_simps)

subsection \<open>What the client prints\<close>

definition cell :: "db_value \<Rightarrow> string" where
  "cell v = (if is_null v then ''NULL'' else to_display_string v)"

definition value_ok :: "db_value \<Rightarrow> bool" where
  "value_ok v \<longleftrightarrow> is_text (to_display_string v) \<and> length (to_display_string v) < 2 ^ 31"

lemma read_values_roundtrip:
  "\<forall>v \<in> set vs. value_ok v \<Longrightarrow>
     read_values (length vs) (pre @ concat (map value_field vs)) (length pre) acc = Some (acc @ map cell vs)"
proof (induction vs arbitrary: pre acc)
  case (Cons v vs)
  have ok: "value_ok v" using Cons.prems by simp
  have IH: "read_values (length vs) (pre' @ concat (map value_field vs)) (length pre') acc' = Some (acc' @ map cell vs)" for pre' acc'
    using Cons by simp
  show ?case
  proof (cases "is_null v")
    case True
    then show ?thesis using IH [of "pre @ be_bytes 4 (-1 :: u32)" "acc @ [''NULL'']"] by (simp add: value_field_def [of v] cell_def [of v] Let_def)
  next
    case False
    define w where "w = to_display_string v"
    have w: "is_text w" "length w < 2 ^ 31" using ok by (simp_all add: value_ok_def w_def)
    have len: "unat (word_of_nat (length w) :: u32) = length w" "sint (word_of_nat (length w) :: u32) = int (length w)"
      using small_i32 [OF w(2)] by simp_all
    then have "(word_of_nat (length w) :: u32) \<noteq> -1" by (metis of_nat_0_le_iff sint_n1 not_one_le_zero neg_0_le_iff_le)
    then show ?thesis using IH [of "pre @ be_bytes 4 (word_of_nat (length w) :: u32) @ as_bytes w" "acc @ [w]"] False len w(1)
      by (simp add: value_field_def [of v] cell_def [of v] Let_def w_def [symmetric] from_utf8_lossy_text add.assoc)
  qed
qed simp

lemma print_data:
  assumes "row_values r \<noteq> []" "\<forall>v \<in> set (row_values r). value_ok v" "length (row_values r) < 2 ^ 15"
  shows "print_message (hd (as_bytes ''D'')) (data_row r) = Some (join_with '' | '' (map cell (row_values r)) @ NEWLINE)"
proof -
  have "4 \<le> length (value_field v)" for v by (simp add: value_field_def Let_def)
  then have "4 \<le> length (concat (map value_field (row_values r)))"
    using assms(1) by (cases "row_values r") (auto intro: trans_le_add1)
  then have "2 < length (data_row r)" unfolding data_row_def length_append length_be_bytes by linarith
  then show ?thesis
    using read_values_roundtrip [OF assms(2), of "be_bytes 2 (word_of_nat (length (row_values r)) :: u16)" "[]"] assms(3)
    by (simp add: print_message_def data_row_def)
qed

lemma cstring_position:
  "no_nul s \<Longrightarrow> position (\<lambda>b. b = 0) (cstring s @ rest) = Some (length s)"
  using position_append_miss [of "as_bytes s" "\<lambda>b. b = 0" 0 rest] nul_byte [of s]
  by (simp add: cstring_def no_nul_def) (metis (no_types))

lemma print_complete:
  "is_text tag \<Longrightarrow> no_nul tag \<Longrightarrow> print_message (hd (as_bytes ''C'')) (cstring tag) = Some (tag @ NEWLINE)"
  using cstring_position [of tag "[]"] by (simp add: print_message_def cstring_def from_utf8_lossy_text)

lemma print_error:
  assumes "is_text msg" "no_nul msg"
  shows "print_message (hd (as_bytes ''E'')) (as_bytes ''M'' @ as_bytes msg @ [0, 0]) = Some (''ERROR: '' @ msg @ NEWLINE)"
  using cstring_position [OF assms(2), of "[0]"] assms(1) by (simp add: print_message_def cstring_def from_utf8_lossy_text)

lemma print_description:
  assumes "is_text col" "no_nul col"
  shows "print_message (hd (as_bytes ''T'')) (row_description [col]) = Some (col @ NEWLINE @ replicate (length col) CHR ''-'' @ NEWLINE)"
proof -
  define rd where "rd = row_description [col]"
  have n: "ncols_of rd = Suc 0" using ncols_of_append [of 1] by (simp add: rd_def row_description_def)
  have payload: "drop 2 rd = cstring col @ be_bytes 4 (0 :: u32) @ be_bytes 2 (0 :: u16) @ be_bytes 4 (-1 :: u32) @ be_bytes 2 (0 :: u16)"
    by (simp add: rd_def row_description_def column_field_def)
  have "position (\<lambda>b. b = 0) (drop 2 rd) = Some (length col)" unfolding payload by (rule cstring_position [OF assms(2)])
  moreover have "from_utf8_lossy (take (length col) (drop 2 rd)) = col"
    unfolding payload using assms(1) by (simp add: cstring_def from_utf8_lossy_text)
  moreover have big: "2 < length rd" by (simp add: rd_def row_description_def column_field_def)
  ultimately have "read_columns (ncols_of rd) rd 2 [] = Some [col]" by (simp add: n)
  then show ?thesis using big unfolding rd_def [symmetric] by (simp add: print_message_def)
qed

lemma skip_greeting: "n_in s = greeting @ rest \<Longrightarrow> read_until_ready s = (Inr (), s\<lparr>n_in := rest\<rparr>)"
proof -
  assume "n_in s = greeting @ rest"
  then have s: "n_in s = frame CHR ''R'' (be_bytes 4 (0 :: u32)) @ frame CHR ''S'' (cstring ''server_version'' @ cstring ''16.0-moodeng'')
      @ frame CHR ''S'' (cstring ''server_encoding'' @ cstring ''UTF8'') @ frame CHR ''S'' (cstring ''client_encoding'' @ cstring ''UTF8'')
      @ frame CHR ''Z'' (as_bytes ''I'') @ rest"
    by (simp add: greeting_def PARAMETERS_def)
  have small: "small_body (be_bytes 4 (0 :: u32))" "small_body (cstring ''server_version'' @ cstring ''16.0-moodeng'')"
    "small_body (cstring ''server_encoding'' @ cstring ''UTF8'')" "small_body (cstring ''client_encoding'' @ cstring ''UTF8'')"
    "small_body (as_bytes ''I'')" by (simp_all add: small_body_def cstring_def)
  show ?thesis
    by (subst skip_to_ready [OF s small(1)], simp, subst skip_to_ready [OF _ small(2)], simp, simp,
        subst skip_to_ready [OF _ small(3)], simp, simp, subst skip_to_ready [OF _ small(4)], simp, simp,
        subst skip_to_ready [OF _ small(5)], simp, simp)
qed

fun printed :: "moodeng_error + query_result \<Rightarrow> string" where
  "printed (Inl e) = ''ERROR: '' @ error_text e @ NEWLINE"
| "printed (Inr r) =
     (if qr_rows r = [] then command_tag r @ NEWLINE
      else hd (qr_columns r) @ NEWLINE @ replicate (length (hd (qr_columns r))) CHR ''-'' @ NEWLINE
        @ concat (map (\<lambda>row. join_with '' | '' (map cell (row_values row)) @ NEWLINE) (qr_rows r))
        @ ''SELECT '' @ show_nat (length (qr_rows r)) @ NEWLINE)"

text \<open>Texts that fit in a message, and at most one column.\<close>

definition line_ok :: "string \<Rightarrow> bool" where
  "line_ok s \<longleftrightarrow> is_text s \<and> no_nul s \<and> length s < 2 ^ 30"

definition row_printable :: "row \<Rightarrow> bool" where
  "row_printable row \<longleftrightarrow> row_values row \<noteq> [] \<and> (\<forall>v \<in> set (row_values row). value_ok v) \<and> length (row_values row) < 2 ^ 15
     \<and> small_body (data_row row)"

fun printable :: "moodeng_error + query_result \<Rightarrow> bool" where
  "printable (Inl e) \<longleftrightarrow> line_ok (error_text e)"
| "printable (Inr r) \<longleftrightarrow>
     (if qr_rows r = [] then line_ok (command_tag r)
      else length (qr_columns r) = 1 \<and> line_ok (hd (qr_columns r)) \<and> (\<forall>row \<in> set (qr_rows r). row_printable row)
        \<and> line_ok (''SELECT '' @ show_nat (length (qr_rows r))))"

definition answer_frames :: "moodeng_error + query_result \<Rightarrow> bytes" where
  "answer_frames q = (case q of Inl e \<Rightarrow> error_frame (error_text e) | Inr r \<Rightarrow> result_frames r)"

lemma print_rows:
  assumes "\<forall>row \<in> set rs. row_printable row" "n_in s = concat (map (\<lambda>row. frame CHR ''D'' (data_row row)) rs) @ rest"
  shows "print_reply out s = print_reply (out @ concat (map (\<lambda>row. join_with '' | '' (map cell (row_values row)) @ NEWLINE) rs)) (s\<lparr>n_in := rest\<rparr>)"
  using assms
proof (induction rs arbitrary: out s)
  case Nil
  then have "s\<lparr>n_in := rest\<rparr> = s" by simp
  then show ?case by simp
next
  case (Cons r rs)
  have r: "n_in s = frame CHR ''D'' (data_row r) @ concat (map (\<lambda>row. frame CHR ''D'' (data_row row)) rs) @ rest"
    using Cons.prems(2) by simp
  have ok: "small_body (data_row r)"
    "print_message (hd (as_bytes ''D'')) (data_row r) = Some (join_with '' | '' (map cell (row_values r)) @ NEWLINE)"
    using Cons.prems(1) print_data [of r] by (simp_all add: row_printable_def)
  show ?case
    using Cons.IH [of "s\<lparr>n_in := concat (map (\<lambda>row. frame CHR ''D'' (data_row row)) rs) @ rest\<rparr>"] Cons.prems(1) ok(2)
    by (subst print_reply_frame [OF r ok(1)]) simp
qed

lemma print_answer:
  assumes "printable q" "n_in s = answer_frames q @ ready_frame status @ rest"
  shows "print_reply [] s = (Inr (printed q), s\<lparr>n_in := rest\<rparr>)"
proof -
  have ready: "print_reply out u = (Inr out, u\<lparr>n_in := rest\<rparr>)" if "n_in u = ready_frame status @ rest" for out u
    using that print_reply_frame [of u "CHR ''Z''" "as_bytes [status]" rest out] by (simp add: ready_frame_def small_body_def)
  have step: "print_reply out u = print_reply (out @ line) (u\<lparr>n_in := next_bytes\<rparr>)"
    if "n_in u = frame tag body @ next_bytes" "small_body body" "print_message (word_of_nat (of_char tag)) body = Some line" "tag \<noteq> CHR ''Z''"
    for out u tag body line next_bytes using print_reply_frame [OF that(1,2)] that(3,4) by simp
  have small: "small_body (cstring x)" "small_body (as_bytes ''M'' @ as_bytes x @ [0, 0])" "small_body (row_description [x])" if "line_ok x" for x
    using that by (simp_all add: line_ok_def small_body_def cstring_def row_description_def column_field_def)
  show ?thesis
  proof (cases q)
    case (Inl e)
    have s: "n_in s = frame CHR ''E'' (as_bytes ''M'' @ as_bytes (error_text e) @ [0, 0]) @ ready_frame status @ rest"
      using assms(2) Inl by (simp add: answer_frames_def error_frame_def)
    have "line_ok (error_text e)" using assms(1) Inl by simp
    then show ?thesis using step [OF s small(2)] print_error [of "error_text e"] by (simp add: Inl line_ok_def ready)
  next
    case (Inr r)
    show ?thesis
    proof (cases "qr_rows r = []")
      case True
      then have s: "n_in s = frame CHR ''C'' (cstring (command_tag r)) @ ready_frame status @ rest"
        using assms(2) Inr by (simp add: answer_frames_def result_frames_def)
      have "line_ok (command_tag r)" using assms(1) Inr True by simp
      then show ?thesis using step [OF s small(1)] print_complete [of "command_tag r"] True by (simp add: Inr line_ok_def ready)
    next
      case False
      then obtain col where col: "qr_columns r = [col]" "line_ok col" using assms(1) Inr by (cases "qr_columns r") auto
      define tag where "tag = ''SELECT '' @ show_nat (length (qr_rows r))"
      define tail where "tail = frame CHR ''C'' (cstring tag) @ ready_frame status @ rest"
      define mid where "mid = concat (map (\<lambda>row. frame CHR ''D'' (data_row row)) (qr_rows r)) @ tail"
      have tag: "line_ok tag" and rows: "\<forall>row \<in> set (qr_rows r). row_printable row" using assms(1) Inr False by (auto simp: tag_def)
      have s: "n_in s = frame CHR ''T'' (row_description [col]) @ mid"
        using assms(2) Inr False by (simp add: answer_frames_def result_frames_def col mid_def tail_def tag_def)
      have "print_reply [] s = print_reply (col @ NEWLINE @ replicate (length col) CHR ''-'' @ NEWLINE) (s\<lparr>n_in := mid\<rparr>)"
        using step [OF s small(3) [OF col(2)]] print_description [of col] col(2) by (simp add: line_ok_def)
      also have "\<dots> = print_reply (col @ NEWLINE @ replicate (length col) CHR ''-'' @ NEWLINE
          @ concat (map (\<lambda>row. join_with '' | '' (map cell (row_values row)) @ NEWLINE) (qr_rows r))) (s\<lparr>n_in := tail\<rparr>)"
        by (subst print_rows [OF rows]) (simp_all add: mid_def)
      also have "\<dots> = (Inr (printed q), s\<lparr>n_in := rest\<rparr>)"
        using step [of "s\<lparr>n_in := tail\<rparr>" "CHR ''C''" "cstring tag" "ready_frame status @ rest"] small(1) [OF tag]
          print_complete [of tag] tag False
        by (simp add: tail_def ready line_ok_def Inr col tag_def)
      finally show ?thesis .
    qed
  qed
qed

subsection \<open>Client and server\<close>

definition client_bytes :: "string \<Rightarrow> bytes" where
  "client_bytes sql = startup_frame client_startup @ frame CHR ''Q'' (cstring sql) @ frame CHR ''X'' []"

lemma client_startup_ok: "small_body client_startup" "4 \<le> length client_startup" "length client_startup \<noteq> 4"
  by (simp_all add: client_startup_def small_body_def cstring_def)

lemma client_runs:
  assumes "n_in c = greeting @ answer_frames q @ ready_frame status" "printable q"
  shows "execute_sql sql c = (Inr (printed q), emit (client_bytes sql) (c\<lparr>n_in := []\<rparr>))"
proof -
  have w: "write_all bs u = (Inr (), emit bs u)" for bs and u :: net by (simp add: write_all_def emit_def)
  have ready: "read_until_ready (emit bs c) = (Inr (), emit bs (c\<lparr>n_in := answer_frames q @ ready_frame status\<rparr>))" for bs
    using assms(1) by (subst skip_greeting [of _ "answer_frames q @ ready_frame status"]) (simp_all add: emit_def)
  have reply: "print_reply [] (emit bs (c\<lparr>n_in := answer_frames q @ ready_frame status\<rparr>)) = (Inr (printed q), emit bs (c\<lparr>n_in := []\<rparr>))" for bs
    by (subst print_answer [OF assms(2), of _ status "[]"]) (simp_all add: emit_def)
  have "frame CHR ''X'' [] = as_bytes ''X'' @ [0, 0, 0, 4]" by (simp add: frame_def eval_simps)
  then show ?thesis unfolding execute_sql_def
    by (simp add: sbind_def w ready reply client_bytes_def startup_frame_def frame_def [of "CHR ''Q''"] cstring_def algebra_simps)
qed

lemma server_runs:
  assumes s: "n_in s = client_bytes sql" and trust: "\<not> auth_required auth" "\<not> tls_require tls"
    and sql: "sql \<noteq> []" "is_text sql" "no_nul sql" "summarize_sql sql = Some preview" "small_body (cstring sql)"
  shows "handle_connection V auth tls acceptor s =
    (Inr (), answered V sql (set_conn connection_session_new (emit greeting (s\<lparr>n_in := []\<rparr>))))"
proof -
  define d where "d = set_conn connection_session_new (emit greeting (s\<lparr>n_in := frame CHR ''Q'' (cstring sql) @ frame CHR ''X'' []\<rparr>))"
  define e where "e = d\<lparr>n_in := frame CHR ''X'' []\<rparr>"
  have "negotiate_stream tls acceptor s = (Inr False, s)"
    by (rule negotiate_plain [OF _ client_startup_ok(1,3) trust(2)]) (simp add: s client_bytes_def startup_frame_def)
  moreover have "run_session V auth False s = session_loop V d"
    unfolding d_def by (rule run_session_trust [OF _ client_startup_ok(1,2) trust(1)]) (simp add: s client_bytes_def)
  moreover have "session_loop V d = session_loop V (answered V sql e)"
    using session_loop_message [of d "CHR ''Q''" "cstring sql" "frame CHR ''X'' []" V] query_message [OF sql(1-4), of V e] sql(5)
    by (simp add: d_def e_def set_conn_def)
  moreover have "session_loop V (answered V sql e) = (Inr (), (answered V sql e)\<lparr>n_in := []\<rparr>)"
    using session_loop_message [of "answered V sql e" "CHR ''X''" "[]" "[]" V]
    by (simp add: e_def small_body_def handle_message_def)
  moreover have "(answered V sql e)\<lparr>n_in := []\<rparr> = answered V sql (e\<lparr>n_in := []\<rparr>)"
    by (simp add: answered_def log_query_outcome_def emit_def Let_def split: prod.split sum.split)
  moreover have "e\<lparr>n_in := []\<rparr> = set_conn connection_session_new (emit greeting (s\<lparr>n_in := []\<rparr>))"
    by (simp add: e_def d_def set_conn_def emit_def)
  ultimately show ?thesis by (simp add: handle_connection_def sbind_def)
qed

text \<open>C13: The command line client shows what the engine answered: a server that needs no password and no TLS, fed with the
  bytes the client writes for a statement, runs the statement once and ends normally, and the client, fed
  with the bytes the server writes, prints the error, the command tag, or the rows of a one-column result,
  having written exactly the bytes the server was fed with.\<close>

theorem client_shows_answer:
  assumes s: "n_in s = client_bytes sql" "n_out s = []" and trust: "\<not> auth_required auth" "\<not> tls_require tls"
    and sql: "sql \<noteq> []" "is_text sql" "no_nul sql" "summarize_sql sql = Some preview" "small_body (cstring sql)"
    and run: "execute_session (sv_codecs V) (sv_lib V) sql (sv_db s, session_new) = (q, (db, se))" and q: "printable q"
  shows "\<exists>t c. handle_connection V auth tls acceptor s = (Inr (), t) \<and> sv_db t = db
    \<and> execute_sql sql \<lparr>n_in = n_out t, n_out = []\<rparr> = (Inr (printed q), c) \<and> n_out c = n_in s"
proof -
  define t where "t = answered V sql (set_conn connection_session_new (emit greeting (s\<lparr>n_in := []\<rparr>)))"
  have "\<exists>status. n_out t = greeting @ answer_frames q @ ready_frame status \<and> sv_db t = db"
    using run s(2) unfolding t_def
    by (cases q) (auto simp: answered_def set_conn_def connection_session_new_def answer_frames_def)
  then obtain status where t: "n_out t = greeting @ answer_frames q @ ready_frame status" "sv_db t = db" by blast
  then have "execute_sql sql \<lparr>n_in = n_out t, n_out = []\<rparr> = (Inr (printed q), emit (client_bytes sql) \<lparr>n_in = [], n_out = []\<rparr>)"
    using client_runs [of "\<lparr>n_in = n_out t, n_out = []\<rparr>" q status sql] q by simp
  then show ?thesis using server_runs [OF s(1) trust sql, of V acceptor] t(2) s(1) unfolding t_def [symmetric] by auto
qed

text \<open>A result with more columns is not always shown: the client skips six bytes too many after each
  column name, and on a result with the four columns a, b, c and d it slices beyond the end of the message
  and panics.\<close>

theorem four_columns_panic:
  "print_message (hd (as_bytes ''T'')) (row_description [''a'', ''b'', ''c'', ''d'']) = None"
  by code_simp

theorem client_shows_answer_witness:
  "\<exists>t c. handle_connection example_server auth_config_default (tls_from_server_config server_config_default) None
      (example_client (client_bytes ''x'')) = (Inr (), t)
    \<and> execute_sql ''x'' \<lparr>n_in = n_out t, n_out = []\<rparr> = (Inr (''ERROR: SQL parse error: syntax error'' @ NEWLINE), c)"
proof -
  obtain db se where run: "execute_session (sv_codecs example_server) (sv_lib example_server) ''x''
      (sv_db (example_client (client_bytes ''x'')), session_new) = (Inl (Parse ''syntax error''), (db, se))"
    by (simp add: execute_session_def execute_def example_server_def example_library_def parse_sql_def sbind_def)
  have "printable (Inl (Parse ''syntax error''))" by (simp add: line_ok_def is_text_ascii no_nul_def)
  then show ?thesis
    using client_shows_answer [OF _ _ _ _ _ ascii_ok(3,4) example_summary _ run, of auth_config_default "tls_from_server_config server_config_default" None]
    by (auto simp: example_client_def auth_config_default_def auth_required_def tls_from_server_config_def server_config_default_def
        small_body_def cstring_def)
qed

end
