(* ===== verification/Listener.thy ===== *)
theory Listener
  imports Client
begin

text \<open>
  \<open>moodeng-server/src/main.rs\<close>: starting the server, the accept loop with its limit on connections, the
  graceful shutdown, the maintenance commands and \<open>ping\<close>. The tasks of the runtime interleave: the accept
  loop is a step relation in which every step is one operation on the semaphore or on the counters.
\<close>

subsection \<open>Starting\<close>

record serve_args =
  sa_port :: "u16 option"
  sa_data_dir :: "string option"
  sa_host :: "string option"
  sa_max_connections :: "u64 option"
  sa_check :: bool

definition unwrap_or :: "'a option \<Rightarrow> 'a \<Rightarrow> 'a" where
  "unwrap_or x d = (case x of None \<Rightarrow> d | Some v \<Rightarrow> v)"

record serve_setup =
  su_host :: string
  su_port :: u16
  su_max_connections :: u64
  su_shutdown_timeout :: u64
  su_query_log :: query_log_config
  su_tls :: tls_settings
  su_acceptor :: "(bytes list \<times> bytes) option"
  su_auth :: auth_config
  su_db :: database
  su_metrics_addr :: "string option"

text \<open>A failing command prints its error. The data directories are what is on disk.\<close>

definition engine_result :: "'a res \<Rightarrow> string + 'a" where
  "engine_result r = (case r of Inl e \<Rightarrow> Inl (error_text e) | Inr x \<Rightarrow> Inr x)"

definition prepare_serve :: "host_env \<Rightarrow> crypto \<Rightarrow> engine_codecs \<Rightarrow> bytes \<Rightarrow> bytes \<Rightarrow> (string \<Rightarrow> files) \<Rightarrow> config \<Rightarrow> serve_args \<Rightarrow>
    string + serve_setup" where
  "prepare_serve H K E argon_salt scram_salt disk cfg args =
     (let host = unwrap_or (sa_host args) (cfg_host (cfg_server cfg));
          port = unwrap_or (sa_port args) (cfg_port (cfg_server cfg));
          dir = data_dir cfg (sa_data_dir args);
          max_connections = unwrap_or (sa_max_connections args) (cfg_max_connections (cfg_server cfg));
          tls = tls_from_server_config (cfg_server cfg)
      in rbind (load_server_config H tls) (\<lambda>acceptor.
         let auth = auth_config_of H K argon_salt scram_salt cfg tls in
         if tls_require tls \<and> \<not> tls_available tls
         then Inl ''require_tls is enabled but tls_cert / tls_key are not configured''
         else rbind (engine_result (database_open_with_options E (disk dir)
                \<lparr>so_max_cached_pages = unat (cfg_max_cached_pages (cfg_storage cfg)), so_rows_per_page = cfg_rows_per_page (cfg_storage cfg)\<rparr>)) (\<lambda>db.
         Inr \<lparr>su_host = host, su_port = port, su_max_connections = max_connections,
              su_shutdown_timeout = cfg_shutdown_timeout_secs (cfg_server cfg), su_query_log = query_log_from (cfg_log cfg),
              su_tls = tls, su_acceptor = acceptor, su_auth = auth, su_db = db,
              su_metrics_addr = (if 0 < cfg_metrics_port (cfg_server cfg)
                then Some (cfg_metrics_host (cfg_server cfg) @ '':'' @ show_nat (unat (cfg_metrics_port (cfg_server cfg)))) else None)\<rparr>)))"

subsection \<open>The accept loop\<close>

text \<open>A task holds its permit from its spawning to its end, and its guard while it serves.\<close>

datatype task = Spawned | Serving | Closing | Ended

record listener =
  ln_accepting :: bool
  ln_permits :: nat
  ln_tasks :: "task list"
  ln_metrics :: server_metrics

definition listener_new :: "u64 \<Rightarrow> listener" where
  "listener_new max_connections =
     \<lparr>ln_accepting = True, ln_permits = unat max_connections, ln_tasks = [], ln_metrics = metrics_new\<rparr>"

inductive serve_step :: "listener \<Rightarrow> listener \<Rightarrow> bool" where
  accept: "ln_accepting L \<Longrightarrow> ln_permits L = Suc n \<Longrightarrow>
     serve_step L (L\<lparr>ln_permits := n, ln_tasks := ln_tasks L @ [Spawned], ln_metrics := connection_accepted (ln_metrics L)\<rparr>)"
| reject: "ln_accepting L \<Longrightarrow> ln_permits L = 0 \<Longrightarrow>
     serve_step L (L\<lparr>ln_metrics := connection_rejected (ln_metrics L)\<rparr>)"
| start: "i < length (ln_tasks L) \<Longrightarrow> ln_tasks L ! i = Spawned \<Longrightarrow>
     serve_step L (L\<lparr>ln_tasks := (ln_tasks L)[i := Serving], ln_metrics := connection_opened (ln_metrics L)\<rparr>)"
| query: "i < length (ln_tasks L) \<Longrightarrow> ln_tasks L ! i = Serving \<Longrightarrow>
     m = query_executed d slow (ln_metrics L) \<or> m = query_failed d (ln_metrics L) \<Longrightarrow>
     serve_step L (L\<lparr>ln_metrics := m\<rparr>)"
| close: "i < length (ln_tasks L) \<Longrightarrow> ln_tasks L ! i = Serving \<Longrightarrow>
     serve_step L (L\<lparr>ln_tasks := (ln_tasks L)[i := Closing], ln_metrics := connection_closed (ln_metrics L)\<rparr>)"
| release: "i < length (ln_tasks L) \<Longrightarrow> ln_tasks L ! i = Closing \<Longrightarrow>
     serve_step L (L\<lparr>ln_tasks := (ln_tasks L)[i := Ended], ln_permits := ln_permits L + 1\<rparr>)"
| shutdown: "ln_accepting L \<Longrightarrow> serve_step L (L\<lparr>ln_accepting := False\<rparr>)"

abbreviation serves :: "listener \<Rightarrow> listener \<Rightarrow> bool" where
  "serves \<equiv> serve_step\<^sup>*\<^sup>*"

definition alive :: "listener \<Rightarrow> nat" where
  "alive L = length (filter (\<lambda>t. t \<noteq> Ended) (ln_tasks L))"

definition serving :: "listener \<Rightarrow> nat" where
  "serving L = length (filter (\<lambda>t. t = Serving) (ln_tasks L))"

text \<open>Every permit is in the semaphore or held by one task, the gauge counts the guards, and every
  connection is counted once when it comes in.\<close>

definition listener_inv :: "u64 \<Rightarrow> listener \<Rightarrow> bool" where
  "listener_inv n L \<longleftrightarrow> ln_permits L + alive L = unat n \<and> connections_active (ln_metrics L) = word_of_nat (serving L)
     \<and> connections_accepted (ln_metrics L) = word_of_nat (length (ln_tasks L))"

lemma metrics_frame [simp]:
  "connections_active (connection_accepted m) = connections_active m" "connections_active (connection_rejected m) = connections_active m"
  "connections_active (connection_opened m) = connections_active m + 1" "connections_active (connection_closed m) = connections_active m - 1"
  "connections_active (query_executed d slow m) = connections_active m" "connections_active (query_failed d m) = connections_active m"
  "connections_accepted (connection_accepted m) = connections_accepted m + 1" "connections_accepted (connection_rejected m) = connections_accepted m"
  "connections_accepted (connection_opened m) = connections_accepted m" "connections_accepted (connection_closed m) = connections_accepted m"
  "connections_accepted (query_executed d slow m) = connections_accepted m" "connections_accepted (query_failed d m) = connections_accepted m"
  by (simp_all add: connection_accepted_def connection_rejected_def connection_opened_def connection_closed_def
      query_executed_def query_failed_def Let_def)

lemma count_update:
  assumes "i < length xs" "P (xs ! i)" "\<not> P y"
  shows "Suc (length (filter P (xs[i := y]))) = length (filter P xs)"
  using assms
proof (induction xs arbitrary: i)
  case (Cons x xs)
  then show ?case by (cases i) auto
qed simp

lemma count_update_same:
  assumes "i < length xs" "P (xs ! i) = P y"
  shows "length (filter P (xs[i := y])) = length (filter P xs)"
  using assms
proof (induction xs arbitrary: i)
  case (Cons x xs)
  then show ?case by (cases i) auto
qed simp

lemma listener_inv_step: "serve_step L L' \<Longrightarrow> listener_inv n L \<Longrightarrow> listener_inv n L'"
proof (induction rule: serve_step.induct)
  case (start i L)
  have "Suc (serving L) = serving (L\<lparr>ln_tasks := (ln_tasks L)[i := Serving]\<rparr>)"
    using count_update [of i "(ln_tasks L)[i := Serving]" "\<lambda>t. t = Serving" Spawned] start(1,2)
    by (simp add: serving_def) (metis list_update_id)
  then have "serving (L\<lparr>ln_tasks := (ln_tasks L)[i := Serving]\<rparr>) = Suc (serving L)" by simp
  then show ?case using start count_update_same [of i "ln_tasks L" "\<lambda>t. t \<noteq> Ended" Serving]
    by (auto simp: listener_inv_def alive_def serving_def)
next
  case (close i L)
  have "serving L = Suc (serving (L\<lparr>ln_tasks := (ln_tasks L)[i := Closing]\<rparr>))"
    using count_update [of i "ln_tasks L" "\<lambda>t. t = Serving" Closing] close(1,2) by (simp add: serving_def)
  then show ?case using close count_update_same [of i "ln_tasks L" "\<lambda>t. t \<noteq> Ended" Closing]
    by (auto simp: listener_inv_def alive_def serving_def)
next
  case (release i L)
  then show ?case using count_update [of i "ln_tasks L" "\<lambda>t. t \<noteq> Ended" Ended] count_update_same [of i "ln_tasks L" "\<lambda>t. t = Serving" Ended]
    by (auto simp: listener_inv_def alive_def serving_def)
qed (auto simp: listener_inv_def alive_def serving_def)

lemma listener_inv_new: "listener_inv n (listener_new n)"
  by (simp add: listener_inv_def listener_new_def alive_def serving_def metrics_new_def)

lemma listener_inv_serves: "serves L L' \<Longrightarrow> listener_inv n L \<Longrightarrow> listener_inv n L'"
  by (induction rule: rtranclp_induct) (auto intro: listener_inv_step)

text \<open>C16: The limit on connections holds: in every interleaving of the accept loop with the tasks it has
  spawned, no more than \<open>max_connections\<close> tasks are alive, and the gauge of active connections is the
  number of tasks that serve a client, without wrapping.\<close>

theorem connection_limit:
  assumes "serves (listener_new max_connections) L"
  shows "alive L \<le> unat max_connections \<and> unat (connections_active (ln_metrics L)) = serving L \<and> serving L \<le> alive L"
proof -
  have inv: "listener_inv max_connections L" by (rule listener_inv_serves [OF assms listener_inv_new])
  then have limit: "alive L \<le> unat max_connections" by (simp add: listener_inv_def)
  have "filter (\<lambda>t. t = Serving) xs = filter (\<lambda>t. t = Serving) (filter (\<lambda>t. t \<noteq> Ended) xs)" for xs
    by (induction xs) auto
  then have le: "serving L \<le> alive L" unfolding serving_def alive_def by (metis length_filter_le)
  have "unat max_connections < 2 ^ LENGTH(64)" by (rule unsigned_less)
  then have "serving L < 2 ^ 64" using limit le by simp
  then have "unat (word_of_nat (serving L) :: u64) = serving L" by (simp add: unsigned_of_nat take_bit_eq_mod)
  then show ?thesis using inv limit le by (simp add: listener_inv_def)
qed

theorem connection_limit_witness:
  "\<exists>L. serves (listener_new 1) L \<and> serving L = 1 \<and> alive L = 1 \<and> unat (connections_active (ln_metrics L)) = 1"
proof -
  define L1 where "L1 = (listener_new 1)\<lparr>ln_permits := 0, ln_tasks := [Spawned], ln_metrics := connection_accepted metrics_new\<rparr>"
  define L2 where "L2 = L1\<lparr>ln_tasks := [Serving], ln_metrics := connection_opened (ln_metrics L1)\<rparr>"
  have 1: "serve_step (listener_new 1) L1"
    using serve_step.accept [of "listener_new 1" 0] by (simp add: L1_def listener_new_def)
  have 2: "serve_step L1 L2" using serve_step.start [of 0 L1] by (simp add: L2_def L1_def)
  have L2: "serves (listener_new 1) L2" using 1 2 by auto
  have "serving L2 = 1" by (simp add: L2_def serving_def)
  then show ?thesis using connection_limit [OF L2] L2 by auto
qed

subsection \<open>Shutting down\<close>

text \<open>\<open>look i\<close> is the gauge and \<open>now i\<close> the clock in milliseconds, at the \<open>i\<close>-th round of the loop.\<close>

partial_function (option) drain_loop :: "(nat \<Rightarrow> u64) \<Rightarrow> (nat \<Rightarrow> nat) \<Rightarrow> nat \<Rightarrow> nat \<Rightarrow> nat option" where
  "drain_loop look now deadline i =
     (if look i = 0 then Some i
      else if deadline \<le> now i then Some i
      else drain_loop look now deadline (i + 1))"

definition drain_connections :: "(nat \<Rightarrow> u64) \<Rightarrow> (nat \<Rightarrow> nat) \<Rightarrow> nat \<Rightarrow> nat option" where
  "drain_connections look now timeout = drain_loop look now (now 0 + timeout) 0"

text \<open>What follows the accept loop: the drain, and the final checkpoint, whose failure is only logged.\<close>

definition finish_serve :: "engine_codecs \<Rightarrow> (nat \<Rightarrow> u64) \<Rightarrow> (nat \<Rightarrow> nat) \<Rightarrow> u64 \<Rightarrow> database \<Rightarrow> database option" where
  "finish_serve E look now shutdown_timeout db =
     (case drain_connections look now (1000 * unat shutdown_timeout) of
        None \<Rightarrow> None
      | Some _ \<Rightarrow> Some (snd (database_checkpoint E db)))"

lemma drain_stops:
  assumes sleep: "\<And>i. now i + 100 \<le> now (i + 1)" and "deadline \<le> now i + 100 * k"
  shows "\<exists>j. drain_loop look now deadline i = Some j \<and> i \<le> j \<and> j \<le> i + k \<and> (look j = 0 \<or> deadline \<le> now j)"
  using assms(2)
proof (induction k arbitrary: i)
  case 0
  then show ?case by (subst drain_loop.simps) auto
next
  case (Suc k)
  show ?case
  proof (cases "look i = 0 \<or> deadline \<le> now i")
    case True
    then show ?thesis by (subst drain_loop.simps) auto
  next
    case False
    have "deadline \<le> now (i + 1) + 100 * k" using Suc.prems sleep [of i] by simp
    from Suc.IH [OF this] obtain j where "drain_loop look now deadline (i + 1) = Some j" "i + 1 \<le> j" "j \<le> i + 1 + k"
      "look j = 0 \<or> deadline \<le> now j" by blast
    then show ?thesis using False by (subst drain_loop.simps) auto
  qed
qed

text \<open>C17: A graceful shutdown ends, and a database that can be reopened is written completely. Since a round of
  the drain sleeps for 100 ms, the wait for the clients is over after at most ten rounds for each second of
  the configured timeout, whatever they do. The checkpoint after it leaves a directory that opens to a
  database with the schemas and tables of the running one, whose indexes cover the rows, provided that the
  tables are in memory, the storage engine has the tables of the catalog, the directory holds no other data
  files, and no two rows have the same key in a unique index.\<close>

theorem graceful_shutdown:
  assumes sleep: "\<And>i. now i + 100 \<le> now (i + 1)"
    and db: "db_stored E db" "unique_keys_hold E db" "clean_dir db" "codecs_faithful E db"
  shows "\<exists>i db1 db2. drain_connections look now (1000 * unat timeout) = Some i \<and> i \<le> 10 * unat timeout
    \<and> finish_serve E look now timeout db = Some db1 \<and> database_open E (db_files db1) = Inr db2 \<and> reopened E db db2"
proof -
  obtain i where i: "drain_connections look now (1000 * unat timeout) = Some i" "i \<le> 10 * unat timeout"
    using drain_stops [of now "now 0 + 1000 * unat timeout" 0 "10 * unat timeout" look, OF sleep]
    by (auto simp: drain_connections_def)
  obtain db1 db2 where "database_checkpoint E db = (Inr (), db1)" "database_open E (db_files db1) = Inr db2"
    "reopened E db db2"
    using checkpoint_opens [OF db] by blast
  then show ?thesis using i by (auto simp: finish_serve_def)
qed

theorem graceful_shutdown_witness:
  "\<exists>db1 db2. finish_serve example_engine (\<lambda>_. 1) (\<lambda>i. 100 * i) 30 (filled_db example_one) = Some db1
    \<and> database_open example_engine (db_files db1) = Inr db2
    \<and> map_of (st_tables (db_storage db2)) ''t'' = Some (Memory (example_data example_one))"
proof -
  obtain db1 db2 where "finish_serve example_engine (\<lambda>_. 1) (\<lambda>i. 100 * i) 30 (filled_db example_one) = Some db1"
    "database_open example_engine (db_files db1) = Inr db2" "reopened example_engine (filled_db example_one) db2"
    using graceful_shutdown [OF _ example_one_ok(1) example_one_unique example_one_ok(2,3), of "\<lambda>i. 100 * i" "\<lambda>_. 1" 30] by auto
  then show ?thesis by (auto simp: reopened_def filled_db_def empty_storage_def)
qed

subsection \<open>Maintenance commands\<close>

definition run_check :: "engine_codecs \<Rightarrow> (string \<Rightarrow> files) \<Rightarrow> config \<Rightarrow> string option \<Rightarrow> string + string list" where
  "run_check E disk cfg dir = rbind (engine_result (database_open E (disk (data_dir cfg dir)))) (\<lambda>db. Inr (database_check db))"

text \<open>The process that makes the backup is the only one with the database open, so the counter it waits for
  is its own.\<close>

definition run_backup :: "engine_codecs \<Rightarrow> (string \<Rightarrow> files) \<Rightarrow> config \<Rightarrow> string option \<Rightarrow> (string + bytes) option" where
  "run_backup E disk cfg dir =
     (case database_open E (disk (data_dir cfg dir)) of
        Inl e \<Rightarrow> Some (Inl (error_text e))
      | Inr db \<Rightarrow>
          (case backup_live E (\<lambda>_. db_active_write_txns db) db of
             None \<Rightarrow> None
           | Some (r, _) \<Rightarrow> Some (engine_result r)))"

definition run_restore :: "engine_codecs \<Rightarrow> (string \<Rightarrow> files) \<Rightarrow> config \<Rightarrow> string option \<Rightarrow> bytes \<Rightarrow> string + files" where
  "run_restore E disk cfg dir archive = engine_result (restore E archive (disk (data_dir cfg dir)))"

datatype command_out = Served serve_setup | Checked "string list" | BackedUp bytes | Restored files | Printed string

definition run_serve :: "host_env \<Rightarrow> crypto \<Rightarrow> engine_codecs \<Rightarrow> bytes \<Rightarrow> bytes \<Rightarrow> (string \<Rightarrow> files) \<Rightarrow> config \<Rightarrow> serve_args \<Rightarrow>
    string + command_out" where
  "run_serve H K E argon_salt scram_salt disk cfg args =
     (if sa_check args then rbind (run_check E disk cfg (sa_data_dir args)) (\<lambda>msgs. Inr (Checked msgs))
      else rbind (prepare_serve H K E argon_salt scram_salt disk cfg args) (\<lambda>su. Inr (Served su)))"

subsection \<open>Health check\<close>

lemma read_frame_less: "read_frame s = (Inr m, t) \<Longrightarrow> length (n_in t) < length (n_in s)"
proof -
  assume "read_frame s = (Inr m, t)"
  then obtain b u p where "read_u8 s = (Inr b, u)" "read_body u = (Inr p, t)" by (auto simp: read_frame_def sbind_split)
  moreover have "length (n_in u) < length (n_in s)" if "read_u8 s = (Inr b, u)"
    using that by (auto simp: read_u8_def read_bytes_def read_exact_def sbind_split split: if_splits)
  ultimately show ?thesis using read_body_less [of u] by fastforce
qed

function read_until_auth_ready :: "string option \<Rightarrow> bool client_op" where
  "read_until_auth_ready password s =
     (case read_frame s of
        (Inl e, s) \<Rightarrow> (Inl e, s)
      | (Inr m, s) \<Rightarrow>
          if fst m = hd (as_bytes ''R'')
          then if 4 \<le> length (snd m) \<and> (from_be_bytes (take 4 (snd m)) :: u32) = 0 then (Inr True, s)
               else if 4 \<le> length (snd m) \<and> (from_be_bytes (take 4 (snd m)) :: u32) = 3
               then read_until_auth_ready password (emit (frame CHR ''p'' (cstring (unwrap_or password []))) s)
               else (Inr False, s)
          else if fst m = hd (as_bytes ''E'') then (Inr False, s)
          else if fst m = hd (as_bytes ''Z'') then (Inr True, s)
          else read_until_auth_ready password s)"
  by pat_completeness auto
termination
  by (relation "measure (length \<circ> n_in \<circ> snd)") (simp_all add: read_frame_less [OF sym])

function ping_loop :: "unit client_op" where
  "ping_loop s =
     (if n_in s = [] then (Inl (Bail ''connection closed before ReadyForQuery''), s)
      else case read_frame s of
        (Inl e, s) \<Rightarrow> (Inl e, s)
      | (Inr m, s) \<Rightarrow>
          if fst m = hd (as_bytes ''Z'') then (Inr (), s)
          else if fst m = hd (as_bytes ''E'') then (Inl (Bail ''server returned error during ping''), s)
          else ping_loop s)"
  by pat_completeness auto
termination
  by (relation "measure (length \<circ> n_in)") (simp_all add: read_frame_less [OF sym])

declare read_until_auth_ready.simps [simp del] ping_loop.simps [simp del]

definition ping_startup :: bytes where
  "ping_startup = be_bytes 4 (196608 :: u32) @ cstring ''user'' @ cstring ''moodeng''"

definition ping :: "string option \<Rightarrow> unit client_op" where
  "ping password =
     sbind (write_all (be_bytes 4 (word_of_nat (length ping_startup + 4) :: u32) @ ping_startup)) (\<lambda>_.
     sbind (read_until_auth_ready password) (\<lambda>ok.
     if \<not> ok then sfail (Bail ''authentication failed during ping'') else ping_loop))"

definition connect_host :: "string \<Rightarrow> string" where
  "connect_host host = (if host = ''0.0.0.0'' \<or> host = ''::'' then ''127.0.0.1'' else host)"

text \<open>\<open>net\<close> is what answers at an address.\<close>

definition run_ping :: "host_env \<Rightarrow> config \<Rightarrow> (string \<times> u16 \<Rightarrow> bytes) \<Rightarrow> string option \<Rightarrow> u16 option \<Rightarrow> string option \<Rightarrow> net_error + unit" where
  "run_ping H cfg network host port password =
     (let host = unwrap_or host (cfg_host (cfg_server cfg)); port = unwrap_or port (cfg_port (cfg_server cfg));
          password = (case password of Some p \<Rightarrow> Some p | None \<Rightarrow> he_password_var H)
      in fst (ping password \<lparr>n_in = network (connect_host host, port), n_out = []\<rparr>))"

subsection \<open>The command line of the server\<close>

datatype command = Serve serve_args | Check "string option" | Backup "string option" | Restore bytes "string option"
  | Ping "string option" "u16 option" "string option" | HashPassword string bool

text \<open>\<open>None\<close>: the command never returns, as a backup that waits for writers may.\<close>

definition server_main :: "host_env \<Rightarrow> crypto \<Rightarrow> engine_codecs \<Rightarrow> bytes \<Rightarrow> bytes \<Rightarrow> (string \<Rightarrow> files) \<Rightarrow> (string \<times> u16 \<Rightarrow> bytes) \<Rightarrow>
    string option \<Rightarrow> command option \<Rightarrow> serve_args \<Rightarrow> (string + command_out) option" where
  "server_main H K E argon_salt scram_salt disk network config_path command args =
     (case load_config H config_path of
        Inl e \<Rightarrow> Some (Inl e)
      | Inr cfg \<Rightarrow>
          (case command of
             None \<Rightarrow> Some (run_serve H K E argon_salt scram_salt disk cfg args)
           | Some (Serve args) \<Rightarrow> Some (run_serve H K E argon_salt scram_salt disk cfg args)
           | Some (Check dir) \<Rightarrow> Some (rbind (run_check E disk cfg dir) (\<lambda>msgs. Inr (Checked msgs)))
           | Some (Backup dir) \<Rightarrow> map_option (\<lambda>r. rbind r (\<lambda>archive. Inr (BackedUp archive))) (run_backup E disk cfg dir)
           | Some (Restore archive dir) \<Rightarrow> Some (rbind (run_restore E disk cfg dir archive) (\<lambda>fs. Inr (Restored fs)))
           | Some (Ping host port password) \<Rightarrow>
               Some (case run_ping H cfg network host port password of
                       Inr _ \<Rightarrow> Inr (Printed (''ok: '' @ connect_host (unwrap_or host (cfg_host (cfg_server cfg))) @ '':''
                         @ show_nat (unat (unwrap_or port (cfg_port (cfg_server cfg)))) @ '' is ready''))
                     | Inl (Bail e) \<Rightarrow> Inl e
                     | Inl UnexpectedEof \<Rightarrow> Inl ''early eof''
                     | Inl Panic \<Rightarrow> Inl ''panic'')
           | Some (HashPassword password scram) \<Rightarrow>
               Some (Inr (Printed (if scram then hash_scram K scram_salt password else hash_password H argon_salt password)))))"

subsection \<open>Laws of the health check\<close>

lemma ping_startup_ok: "small_body ping_startup" "4 \<le> length ping_startup" "length ping_startup \<noteq> 4"
  by (simp_all add: ping_startup_def small_body_def cstring_def)

lemma read_frame_frame:
  assumes "n_in s = frame tag body @ rest" "small_body body"
  shows "read_frame s = (Inr (word_of_nat (of_char tag), body), s\<lparr>n_in := rest\<rparr>)"
  using frame_channel.get_put [of "(word_of_nat (of_char tag), body)" s rest] assms by (simp add: frame_split)

lemma ping_loop_frame:
  assumes "n_in s = frame tag body @ rest" "small_body body"
  shows "ping_loop s = (if tag = CHR ''Z'' then (Inr (), s\<lparr>n_in := rest\<rparr>)
    else if tag = CHR ''E'' then (Inl (Bail ''server returned error during ping''), s\<lparr>n_in := rest\<rparr>) else ping_loop (s\<lparr>n_in := rest\<rparr>))"
  using read_frame_frame [OF assms] assms(1) by (subst ping_loop.simps) (simp add: tag_byte frame_split del: as_bytes_simps)

lemma auth_request:
  assumes "n_in s = frame CHR ''R'' (be_bytes 4 code @ body) @ rest" "small_body (be_bytes 4 (code :: u32) @ body)"
  shows "read_until_auth_ready password s =
    (if code = 0 then (Inr True, s\<lparr>n_in := rest\<rparr>)
     else if code = 3 then read_until_auth_ready password (emit (frame CHR ''p'' (cstring (unwrap_or password []))) (s\<lparr>n_in := rest\<rparr>))
     else (Inr False, s\<lparr>n_in := rest\<rparr>))"
  using read_frame_frame [OF assms] by (subst read_until_auth_ready.simps) simp

lemma ping_greeting:
  assumes "n_in s = greeting @ rest"
  shows "\<exists>t. read_until_auth_ready password s = (Inr True, t) \<and> n_out t = n_out s \<and> ping_loop t = (Inr (), t\<lparr>n_in := rest\<rparr>)"
proof -
  define params where "params = frame CHR ''S'' (cstring ''server_version'' @ cstring ''16.0-moodeng'')
      @ frame CHR ''S'' (cstring ''server_encoding'' @ cstring ''UTF8'') @ frame CHR ''S'' (cstring ''client_encoding'' @ cstring ''UTF8'')
      @ frame CHR ''Z'' (as_bytes ''I'') @ rest"
  have small: "small_body (be_bytes 4 (0 :: u32) @ [])" "small_body (cstring ''server_version'' @ cstring ''16.0-moodeng'')"
    "small_body (cstring ''server_encoding'' @ cstring ''UTF8'')" "small_body (cstring ''client_encoding'' @ cstring ''UTF8'')"
    "small_body (as_bytes ''I'')" by (simp_all add: small_body_def cstring_def)
  have "n_in s = frame CHR ''R'' (be_bytes 4 (0 :: u32) @ []) @ params"
    using assms by (simp add: greeting_def PARAMETERS_def params_def)
  from auth_request [OF this small(1)] have "read_until_auth_ready password s = (Inr True, s\<lparr>n_in := params\<rparr>)" by simp
  moreover have "ping_loop (s\<lparr>n_in := params\<rparr>) = (Inr (), s\<lparr>n_in := rest\<rparr>)" unfolding params_def
    by (subst ping_loop_frame [OF _ small(2)], simp, simp, subst ping_loop_frame [OF _ small(3)], simp, simp,
        subst ping_loop_frame [OF _ small(4)], simp, simp, subst ping_loop_frame [OF _ small(5)], simp, simp)
  ultimately show ?thesis by auto
qed

text \<open>A health check with the right password succeeds on a server with a password hash: fed with each
  other's bytes, the server lets the check in and the check reports that the server is ready.\<close>

theorem ping_reaches_ready:
  assumes s: "n_in s = startup_frame ping_startup @ frame CHR ''p'' (cstring password)" "n_out s = []"
    and password: "small_body (cstring password)" "is_text password" "no_nul password" "auth_verify (sv_host V) auth password"
    and auth: "auth_required auth" "\<not> scram_available auth" "\<not> ac_require_tls_for_password auth" "\<not> tls_require tls"
  shows "\<exists>t c. handle_connection V auth tls acceptor s = (Inr (), t) \<and> ping (Some password) \<lparr>n_in = n_out t, n_out = []\<rparr> = (Inr (), c)
    \<and> n_out c = n_in s"
proof -
  define request where "request = frame CHR ''R'' (be_bytes 4 (3 :: u32) @ [])"
  define t where "t = set_conn connection_session_new (emit (request @ greeting) (s\<lparr>n_in := []\<rparr>))"
  have "negotiate_stream tls acceptor s = (Inr False, s)"
    by (rule negotiate_plain [OF _ ping_startup_ok(1,3) auth(4)]) (simp add: s startup_frame_def)
  moreover have "run_session V auth False s = session_loop V t"
    using run_session_password [of s ping_startup password "[]", OF _ ping_startup_ok(1,2) password auth(1-3)] s(1)
    by (simp add: t_def request_def)
  moreover have "session_loop V t = (Inr (), t)" by (rule session_loop_end) (simp add: t_def set_conn_def)
  ultimately have server: "handle_connection V auth tls acceptor s = (Inr (), t)" by (simp add: handle_connection_def sbind_def)
  have out: "n_out t = request @ greeting" using s(2) by (simp add: t_def set_conn_def)
  define c where "c = emit (startup_frame ping_startup) \<lparr>n_in = request @ greeting, n_out = []\<rparr>"
  define d where "d = emit (frame CHR ''p'' (cstring password)) (c\<lparr>n_in := greeting\<rparr>)"
  have "read_until_auth_ready (Some password) c = read_until_auth_ready (Some password) d"
    using auth_request [of c 3 "[]" greeting "Some password"] by (simp add: c_def request_def d_def small_body_def unwrap_or_def)
  moreover obtain u where "read_until_auth_ready (Some password) d = (Inr True, u)" "n_out u = n_out d" "ping_loop u = (Inr (), u\<lparr>n_in := []\<rparr>)"
    using ping_greeting [of d "[]" "Some password"] by (auto simp: d_def)
  moreover have "write_all (startup_frame ping_startup) \<lparr>n_in = n_out t, n_out = []\<rparr> = (Inr (), c)"
    by (simp add: write_all_def c_def emit_def out)
  ultimately have "ping (Some password) \<lparr>n_in = n_out t, n_out = []\<rparr> = (Inr (), u\<lparr>n_in := []\<rparr>)" "n_out u = n_out d"
    by (simp_all add: ping_def sbind_def startup_frame_def)
  then show ?thesis using server s(1) by (simp add: d_def c_def)
qed

text \<open>C22: A health check fails on every server that does not require TLS and whose password comes from the
  environment: such a server asks for SCRAM, which the check cannot do, so it reports a failed authentication whatever password it has.\<close>

theorem ping_fails_with_env_password:
  assumes auth: "auth = auth_config_of H K argon_salt scram_salt cfg tls"
    and env: "he_password_var H = Some secret" "secret \<noteq> []" "cfg_auth cfg = \<lparr>cfg_password_hash = None, cfg_password_scram = None\<rparr>"
    and s: "n_in s = startup_frame ping_startup" "n_out s = []" and tls: "\<not> tls_require tls"
  shows "\<exists>t c. handle_connection V auth tls acceptor s = (Inl UnexpectedEof, t)
    \<and> ping password \<lparr>n_in = n_out t, n_out = []\<rparr> = (Inl (Bail ''authentication failed during ping''), c) \<and> n_out c = n_in s"
proof -
  define request where "request = frame CHR ''R'' (be_bytes 4 (10 :: u32) @ as_bytes SCRAM_SHA256 @ [0, 0])"
  have scram: "auth_required auth" "scram_available auth"
    using env by (auto simp: auth auth_config_of_def from_config_and_env_def option_filter_def auth_required_def scram_available_def Let_def)
  have "negotiate_stream tls acceptor s = (Inr False, s)"
    by (rule negotiate_plain [OF _ ping_startup_ok(1,3) tls]) (simp add: s startup_frame_def)
  moreover have "read_body s = (Inr ping_startup, s\<lparr>n_in := []\<rparr>)" using s(1) by (intro read_startup ping_startup_ok) simp
  moreover have "authenticate V auth (s\<lparr>n_in := []\<rparr>) = (Inl UnexpectedEof, emit request (s\<lparr>n_in := []\<rparr>))"
    using scram(2) by (simp add: authenticate_def authenticate_scram_def sbind_def read_sasl_message_def read_u8_def read_bytes_def
        request_def emit_def)
  ultimately have server: "handle_connection V auth tls acceptor s = (Inl UnexpectedEof, emit request (s\<lparr>n_in := []\<rparr>))"
    using scram ping_startup_ok(2) by (simp add: handle_connection_def run_session_def sbind_def)
  define c where "c = emit (startup_frame ping_startup) \<lparr>n_in = request, n_out = []\<rparr>"
  have "read_until_auth_ready password c = (Inr False, c\<lparr>n_in := []\<rparr>)"
    using auth_request [of c 10 "as_bytes SCRAM_SHA256 @ [0, 0]" "[]" password]
    by (simp add: c_def request_def small_body_def SCRAM_SHA256_def)
  moreover have "write_all (startup_frame ping_startup) \<lparr>n_in = request, n_out = []\<rparr> = (Inr (), c)"
    by (simp add: write_all_def c_def emit_def)
  ultimately have "ping password \<lparr>n_in = request, n_out = []\<rparr> = (Inl (Bail ''authentication failed during ping''), c\<lparr>n_in := []\<rparr>)"
    by (simp add: ping_def sbind_def startup_frame_def)
  then show ?thesis using server s by (simp add: c_def)
qed

theorem ping_reaches_ready_witness:
  "\<exists>t c. handle_connection example_server example_auth (tls_from_server_config server_config_default) None
      (example_client (startup_frame ping_startup @ frame CHR ''p'' (cstring ''secret''))) = (Inr (), t)
    \<and> ping (Some ''secret'') \<lparr>n_in = n_out t, n_out = []\<rparr> = (Inr (), c)"
  using ping_reaches_ready [OF _ _ _ ascii_ok(1,2), of "example_client (startup_frame ping_startup @ frame CHR ''p'' (cstring ''secret''))"
      example_server example_auth "tls_from_server_config server_config_default" None]
  by (auto simp: example_client_def small_body_def cstring_def example_auth_def auth_verify_def verify_password_def example_server_def
      example_host_def auth_required_def scram_available_def tls_from_server_config_def server_config_default_def)

theorem ping_fails_with_env_password_witness:
  "\<exists>t c. handle_connection example_server
      (auth_config_of (example_host\<lparr>he_password_var := Some ''secret''\<rparr>) example_crypto [] [] config_default (tls_from_server_config server_config_default))
      (tls_from_server_config server_config_default) None (example_client (startup_frame ping_startup)) = (Inl UnexpectedEof, t)
    \<and> ping (Some ''secret'') \<lparr>n_in = n_out t, n_out = []\<rparr> = (Inl (Bail ''authentication failed during ping''), c)"
  using ping_fails_with_env_password [OF refl, of "example_host\<lparr>he_password_var := Some ''secret''\<rparr>" "''secret''" config_default
      "example_client (startup_frame ping_startup)" "tls_from_server_config server_config_default" example_server example_crypto "[]" "[]" None
      "Some ''secret''"]
  by (auto simp: example_client_def config_default_def tls_from_server_config_def server_config_default_def)

end
