(* ===== verification/Outages.thy ===== *)
theory Outages
  imports Listener
begin

text \<open>
  What a client or a configuration file can do to a running server, proved through the components involved:
  a transaction that is never ended, a configuration that cannot be read, and a query whose log line
  cannot be cut.
\<close>

subsection \<open>Transactions left behind\<close>

lemma wait_stuck: "wait_for_write_txns obs i = Some j \<Longrightarrow> obs j = 0"
  by (erule wait_for_write_txns.raw_induct [rotated, where P = "\<lambda>obs i j. obs j = 0"]) (auto simp: word_gt_0 split: if_splits)

lemma backup_stuck: "(\<And>i. obs i \<noteq> 0) \<Longrightarrow> backup_live E obs db = None"
  using wait_stuck [of obs 0] by (cases "wait_for_write_txns obs 0") (auto simp: backup_live_def)

lemma begin_leaves_counter:
  assumes "lib_parse_sql L sql = Inr [StartTransaction]"
  shows "\<exists>r db1 se. execute_session E L sql (db, session_new) = (Inr r, (db1, se))
    \<and> db_active_write_txns db1 = db_active_write_txns db + 1"
proof -
  have "\<exists>s1. execute (ec_storage E) L sql (executor_new db session_new) = (Inr (qr_modified 0 ''BEGIN''), s1)
      \<and> ex_active_write_txns s1 = db_active_write_txns db + 1"
    by (simp add: execute_def parse_sql_def assms sbind_def ex_begin_def executor_new_def session_new_def transaction_default_def
        is_active_def set_auto_commit_def on_txn_def txn_begin_def track_write_txn_start_def Let_def split: prod.split)
  then show ?thesis
    by (auto simp: execute_session_def executor_done_def qr_modified_def update_stats_def split: prod.split)
qed

text \<open>C18: A transaction that a client begins and never ends blocks live backups of that database: the command
  line client opens a connection for each statement, so BEGIN leaves the counter of write transactions raised
  when its connection is closed, and \<open>backup_live\<close> called on the same database, which waits for the counter to
  be zero, never returns. (The backup subcommand opens a database of its own, with a counter of its own, and is
  not blocked.)\<close>

theorem abandoned_transaction_blocks_backup:
  assumes s: "n_in s = client_bytes sql" and trust: "\<not> auth_required auth" "\<not> tls_require tls"
    and sql: "sql \<noteq> []" "is_text sql" "no_nul sql" "summarize_sql sql = Some preview" "small_body (cstring sql)"
    and begin_stmt: "lib_parse_sql (sv_lib V) sql = Inr [StartTransaction]" and db: "db_active_write_txns (sv_db s) = 0"
  shows "\<exists>t. handle_connection V auth tls acceptor s = (Inr (), t) \<and> db_active_write_txns (sv_db t) = 1
    \<and> backup_live (sv_codecs V) (\<lambda>_. db_active_write_txns (sv_db t)) (sv_db t) = None"
proof -
  define t where "t = answered V sql (set_conn connection_session_new (emit greeting (s\<lparr>n_in := []\<rparr>)))"
  obtain r db1 se where "execute_session (sv_codecs V) (sv_lib V) sql (sv_db s, session_new) = (Inr r, (db1, se))"
    "db_active_write_txns db1 = 1"
    using begin_leaves_counter [OF begin_stmt, of "sv_codecs V" "sv_db s"] db by auto
  then have "db_active_write_txns (sv_db t) = 1"
    by (simp add: t_def answered_def set_conn_def connection_session_new_def)
  then show ?thesis using server_runs [OF s trust sql, of V acceptor] backup_stuck by (auto simp: t_def [symmetric])
qed

definition begin_library :: sql_library where
  "begin_library = \<lparr>lib_parse_sql = (\<lambda>_. Inr [StartTransaction]), lib_show_expr = (\<lambda>_. ''?'')\<rparr>"

theorem abandoned_transaction_blocks_backup_witness:
  "\<exists>t. handle_connection (example_server\<lparr>sv_lib := begin_library\<rparr>) auth_config_default (tls_from_server_config server_config_default) None
      (example_client (client_bytes ''x'')) = (Inr (), t)
    \<and> backup_live example_engine (\<lambda>_. db_active_write_txns (sv_db t)) (sv_db t) = None"
  using abandoned_transaction_blocks_backup [OF _ _ _ _ ascii_ok(3,4) example_summary, of "example_client (client_bytes ''x'')"
      auth_config_default "tls_from_server_config server_config_default" "example_server\<lparr>sv_lib := begin_library\<rparr>" None]
  by (auto simp: example_client_def auth_config_default_def auth_required_def tls_from_server_config_def server_config_default_def
      small_body_def cstring_def begin_library_def example_db_def example_server_def)

subsection \<open>Configuration\<close>

text \<open>C20: A configuration file that cannot be read opens the server to everyone: a file that is found but is not
  valid is skipped without an error, and the server starts with the defaults, without a password and
  without TLS, unless the environment variable MOODENG_PASSWORD sets a password.\<close>

theorem broken_config_opens_server:
  assumes toml: "map_of (he_files H) ''moodeng.toml'' = Some content" "he_toml H content = Inl e" and env: "he_password_var H = None"
    and start: "load_config H None = Inr cfg" "prepare_serve H K E argon_salt scram_salt disk cfg args = Inr su"
  shows "\<not> auth_required (su_auth su) \<and> su_acceptor su = None \<and> \<not> tls_require (su_tls su)"
proof -
  have cfg: "cfg = config_default"
    using start(1) toml by (simp add: load_config_def find_and_load_def CONFIG_CANDIDATES_def config_load_def result_ok_def)
  then show ?thesis using start(2) env
    by (auto simp: prepare_serve_def rbind_eq_Inr Let_def config_default_def tls_from_server_config_def server_config_default_def
        load_server_config_def auth_config_of_def from_config_and_env_def option_filter_def auth_config_default_def auth_required_def
        tls_available_def split: if_splits)
qed

theorem broken_config_opens_server_witness:
  "\<exists>su. prepare_serve (example_host\<lparr>he_files := [(''moodeng.toml'', ''x'')]\<rparr>) example_crypto example_engine [] [] (\<lambda>_. []) config_default
      \<lparr>sa_port = None, sa_data_dir = None, sa_host = None, sa_max_connections = None, sa_check = False\<rparr> = Inr su
    \<and> load_config (example_host\<lparr>he_files := [(''moodeng.toml'', ''x'')]\<rparr>) None = Inr config_default \<and> \<not> auth_required (su_auth su)"
proof -
  define H where "H = example_host\<lparr>he_files := [(''moodeng.toml'', ''x'')]\<rparr>"
  have cfg: "load_config H None = Inr config_default" unfolding H_def by code_simp
  have "\<not> isl (prepare_serve H example_crypto example_engine [] [] (\<lambda>_. []) config_default
      \<lparr>sa_port = None, sa_data_dir = None, sa_host = None, sa_max_connections = None, sa_check = False\<rparr>)" unfolding H_def by code_simp
  then obtain su where su: "prepare_serve H example_crypto example_engine [] [] (\<lambda>_. []) config_default
      \<lparr>sa_port = None, sa_data_dir = None, sa_host = None, sa_max_connections = None, sa_check = False\<rparr> = Inr su"
    by (cases "prepare_serve H example_crypto example_engine [] [] (\<lambda>_. []) config_default
      \<lparr>sa_port = None, sa_data_dir = None, sa_host = None, sa_max_connections = None, sa_check = False\<rparr>") auto
  then show ?thesis using broken_config_opens_server [OF _ _ _ cfg su, of "''x''" "''expected a table''"] cfg
    by (simp add: H_def example_host_def)
qed

subsection \<open>The query log\<close>

text \<open>The first 200 bytes of a query are kept for the log. A query of 199 letters and one accented letter is cut
  inside of a character, which ends the connection before the query runs.\<close>

definition long_query :: string where
  "long_query = replicate 199 CHR ''a'' @ text_of [0xC3, 0xA9]"

lemma white_len_letter [simp]: "white_len (CHR ''a'' # s) = 0"
  by (simp add: white_len_def byte_at_def get_or_def Let_def)

lemma words_of_letters: "words_of (replicate n CHR ''a'' @ s) word = words_of s (word @ replicate n CHR ''a'')"
proof (induction n arbitrary: word)
  case (Suc n)
  have "words_of (replicate (Suc n) CHR ''a'' @ s) word = words_of (replicate n CHR ''a'' @ s) (word @ [CHR ''a''])"
    by (subst words_of.simps) simp
  then show ?case using Suc.IH [of "word @ [CHR ''a'']"] by (simp add: replicate_append_same)
qed simp

lemma utf8_valid_letters: "utf8_valid (replicate n 97 @ bs) = utf8_valid bs"
proof (induction n)
  case (Suc n)
  have "utf8_char (97 # replicate n 97 @ bs) = (True, 1)" by (simp add: utf8_char_def byte_at_def get_or_def)
  then show ?case using Suc by (subst utf8_valid.simps) simp
qed simp

lemma long_query_summary: "summarize_sql long_query = None"
proof -
  have accent: "white_len (text_of [0xC3, 0xA9]) = 0" "white_len (text_of [0xA9]) = 0" by code_simp+
  have "words_of (text_of [0xC3, 0xA9]) word = [word @ text_of [0xC3, 0xA9]]" for word
    using accent by (subst words_of.simps, subst words_of.simps, subst words_of.simps) simp
  then have "words_of long_query [] = [long_query]" by (simp add: long_query_def words_of_letters del: text_of_simps)
  moreover have "byte_at (as_bytes long_query) 200 = 0xA9" "length long_query = 201"
    by (simp_all add: long_query_def byte_at_def get_or_def nth_append as_bytes_def)
  ultimately show ?thesis by (simp add: summarize_sql_def is_continuation_def)
qed

theorem long_query_ends_session:
  "handle_message V (hd (as_bytes ''Q'')) (cstring long_query) s = (Inl Panic, s)"
proof -
  have "as_bytes long_query = replicate 199 97 @ [0xC3, 0xA9]" by (simp add: long_query_def as_bytes_def)
  moreover have "utf8_valid [0xC3, 0xA9]" by code_simp
  ultimately have "is_text long_query" by (simp add: is_text_def utf8_valid_letters)
  moreover have "no_nul long_query" "long_query \<noteq> []" by (auto simp: no_nul_def long_query_def char_of_def)
  ultimately have "read_cstring (cstring long_query) = long_query" "long_query \<noteq> []"
    using read_cstring_cstring [of long_query "[]"] by (simp_all add: read_cstring_def)
  then show ?thesis by (simp add: handle_message_def sbind_def run_sql_def long_query_summary)
qed

end
