(* ===== verification/Anomalies.thy ===== *)
theory Anomalies
  imports Database
begin

text \<open>
  Behaviour of the executor that differs from what SQL, the README or the code's own comments say, stated
  on the model of the statements.
\<close>

subsection \<open>Aggregates\<close>

lemma group_rows_all: "group_rows_by [] names rows [(k, rs)] = Inr [(k, rs @ rows)]" if "k = []"
  using that by (induction rows arbitrary: rs) (auto simp: group_key_def add_to_group_def)

lemma group_rows_none:
  "rows \<noteq> [] \<Longrightarrow> group_rows_by [] names rows [] = Inr [([], rows)]"
  using group_rows_all [of "[]" names] by (cases rows) (auto simp: group_key_def add_to_group_def)

lemma count_is_aggregate:
  "to_uppercase name = ''COUNT'' \<Longrightarrow> is_aggregate_query [UnnamedExpr (Function name args)]"
  by (simp add: is_aggregate_query_def is_agg_function_def)

text \<open>C29: COUNT without GROUP BY does not count. The number of rows is computed and then replaced when the
  projection evaluates the aggregate a second time on the grouped row: whatever rows match, a query for
  COUNT of anything answers 1, and on no rows it answers with no row at all instead of 0.\<close>

theorem count_answers_one:
  assumes "to_uppercase name = ''COUNT''" and "sel_projection sel = [UnnamedExpr (Function name (Some args))]"
    and "group_by_exprs (sel_group_by sel) = []" and "q_order_by q = None" and "q_limit q = None" and "q_offset q = None"
  shows "finalize_select L q sel out rows names = Inr (qr_select [lib_show_expr L (Function name (Some args))]
    (if rows = [] then [] else [row_new [Int8 1]]))"
proof -
  have one: "eval_expr (Function name (Some args)) vals names = Inr (Int8 1)" for vals
    using assms(1) by (simp add: eval_expr_def eval_function_with_excluded_def Let_def split: list.splits function_arg.splits)
  have agg: "is_agg_expr (Function name (Some args))" using assms(1) by (simp add: is_agg_function_def)
  have grouped: "apply_group_by (lib_show_expr L) (sel_projection sel) [] rows names =
      Inr ([lib_show_expr L (Function name (Some args))],
        if rows = [] then [] else [row_new [Int8 (word_of_nat (length rows))]])"
    using assms(1,2) agg count_is_aggregate [OF assms(1)] group_rows_none [of rows names]
    by (auto simp: apply_group_by_def eval_group_def has_wildcard_def eval_grouped_expr_def map_filter_simps Let_def)
  show ?thesis
    unfolding finalize_select_def assms(3-6)
    using grouped assms(2) count_is_aggregate [OF assms(1)] one
    by (auto simp: apply_limit_offset_def project_rows_def has_wildcard_def)
qed

definition example_count :: select where
  "example_count = \<lparr>sel_projection = [UnnamedExpr (Function ''count'' (Some [ArgWildcard]))], sel_from = [],
     sel_selection = None, sel_group_by = GroupByExprs []\<rparr>"

theorem count_answers_one_witness:
  "finalize_select example_library example_query example_count [] [row_new [Int8 5], row_new [Int8 6]] [''a''] =
    Inr (qr_select [''?''] [row_new [Int8 1]])"
proof -
  have "to_uppercase ''count'' = ''COUNT''" by code_simp
  from count_answers_one [OF this, of example_count "[ArgWildcard]" example_query example_library "[]"
      "[row_new [Int8 5], row_new [Int8 6]]" "[''a'']"]
  show ?thesis by (simp add: example_count_def example_query_def example_library_def)
qed

subsection \<open>INSERT with a duplicate key\<close>

lemma insert_new_row_fails:
  assumes "ex_inv C (Suc n) s" "map_of (cat_tables (ex_catalog s)) table = Some schema"
    and "insert_new_row C table schema rvals txn s = (Inl e, s')"
  shows "\<exists>i. ex_rows C s table i = None
      \<and> ex_rows C s' = (ex_rows C s)(table := (ex_rows C s table)(i \<mapsto> row_new rvals))"
    and "\<exists>msg. e = DuplicateKey msg"
    and "ex_session s' = ex_session s" "ex_active_write_txns s' = ex_active_write_txns s"
proof -
  note inv = ex_invD [OF assms(1)]
  obtain i st where ins: "st_insert C table (row_new rvals) txn (ex_storage s) = (Inr i, st)"
    "ex_rows C s table i = None"
    "st_changed C (ex_storage s) table ((ex_rows C s table)(i \<mapsto> row_new rvals)) st"
    using mem_insert [OF inv(2,3) inv(5) [OF assms(2)] inv(4)] by blast
  obtain res m where run: "im_insert_row table rvals (schema_names schema) i (ex_indexes s) = (res, m)" by fastforce
  have fresh: "ex_vals C s table i = None" using ins(2) by (simp add: table_vals_def row_vals_def)
  have r: "res = Inl e" "s' = s\<lparr>ex_storage := st, ex_indexes := m\<rparr>"
    using assms(3) ins(1) run
    by (auto simp: insert_new_row_def sbind_def on_storage_def on_indexes_def split: sum.splits)
  then show "ex_session s' = ex_session s" "ex_active_write_txns s' = ex_active_write_txns s" by simp_all
  show "\<exists>i. ex_rows C s table i = None
      \<and> ex_rows C s' = (ex_rows C s)(table := (ex_rows C s table)(i \<mapsto> row_new rvals))"
    using ins(2,3) r(2) by (auto simp: st_changed_def)
  show "\<exists>msg. e = DuplicateKey msg"
    using im_insert_row_law [OF inv(6) [OF assms(2)] fresh run] r(1) by auto
qed

lemma coerce_no_duplicate: "coerce_row schema vals \<noteq> Inl (DuplicateKey msg)"
proof -
  have "coerce_to v t \<noteq> Inl (DuplicateKey msg)" for v t
    by (cases v; cases t; simp add: coerce_to_def)
  then have "rmapM (\<lambda>(i, col). coerce_to (get_or Null vals i) (col_type col)) xs \<noteq> Inl (DuplicateKey msg)"
    for xs :: "(nat \<times> column_def) list"
    by (induction xs) (auto simp: rbind_def split: sum.splits)
  then show ?thesis by (simp add: coerce_row_def)
qed

lemma finish_no_duplicate: "finish_auto_commit_if_needed C s \<noteq> (Inl (DuplicateKey msg), s')"
  by (auto simp: finish_auto_commit_if_needed_def sbind_split on_txn_def txn_commit_def split: prod.splits option.splits)

lemma begin_fresh:
  assumes "ex_inv C n s" "tr_txn_id (ex_transaction s) = None"
  shows "(\<exists>e t. begin_write_txn C s = (Inl (Execution e), t)) \<or>
    (\<exists>txn t. begin_write_txn C s = (Inr txn, t) \<and> same_tables C s t \<and> ex_inv C n t \<and> tr_active (ex_transaction t)
      \<and> ex_active_write_txns t = ex_active_write_txns s + 1 \<and> se_auto_commit (ex_session t))"
  using assms by (auto simp: begin_write_txn_def current_txn_id_def sbind_def on_txn_def txn_begin_def Let_def
      set_auto_commit_def track_write_txn_start_def same_tables_def split: prod.splits)

text \<open>C27: an INSERT refused for a duplicate key still stores its row. When a one-row INSERT without ON
  CONFLICT runs outside of a transaction and fails with a duplicate key, the row is in the table
  afterwards, under a new id, and the transaction the statement opened is still active and still counted
  as an active write transaction.\<close>

theorem refused_insert_stays:
  assumes "ex_inv C 1 s" and "map_of (cat_tables (ex_catalog s)) (extract_table_name (ins_table ins)) = Some schema"
    and "ins_source ins = Some source" and "q_body source = Values [row]" and "ins_on ins = None"
    and "tr_txn_id (ex_transaction s) = None"
    and "execute_statement C L (Insert ins) s = (Inl (DuplicateKey msg), s')"
  shows "\<exists>i rvals. coerce_row schema (map insert_literal row) = Inr rvals
    \<and> ex_rows C s (extract_table_name (ins_table ins)) i = None
    \<and> ex_rows C s' (extract_table_name (ins_table ins)) i = Some (row_new rvals)
    \<and> tr_active (ex_transaction s') \<and> ex_active_write_txns s' = ex_active_write_txns s + 1"
proof -
  let ?t = "extract_table_name (ins_table ins)"
  have "ex_insert C ins source s = sbind (begin_write_txn C) (\<lambda>txn.
      sbind (insert_row C ?t schema None txn (map insert_literal row)) (\<lambda>k.
      sbind (finish_auto_commit_if_needed C) (\<lambda>_. sret (qr_modified (0 + k) (''INSERT 0 '' @ show_nat (unat (0 + k))))))) s"
    using assms(2-5)
    by (simp add: ex_insert_def Let_def sbind_def get_table_def slift_def sret_def values_from_insert_def split: sum.split prod.split)
  then have ex: "sbind (begin_write_txn C) (\<lambda>txn. sbind (insert_row C ?t schema None txn (map insert_literal row)) (\<lambda>k.
      sbind (finish_auto_commit_if_needed C) (\<lambda>_. sret (qr_modified (0 + k) (''INSERT 0 '' @ show_nat (unat (0 + k))))))) s
      = (Inl (DuplicateKey msg), s')"
    using assms(3,7) by simp
  obtain txn t where t: "begin_write_txn C s = (Inr txn, t)" "same_tables C s t" "ex_inv C 1 t" "tr_active (ex_transaction t)"
      "ex_active_write_txns t = ex_active_write_txns s + 1" "se_auto_commit (ex_session t)"
    using begin_fresh [OF assms(1,6)] ex by (auto simp: sbind_split)
  have tab: "map_of (cat_tables (ex_catalog t)) ?t = Some schema" using t(2) assms(2) by (simp add: same_tables_def)
  have ins: "insert_row C ?t schema None txn (map insert_literal row) t = (Inl (DuplicateKey msg), s')"
    using ex t(1) finish_no_duplicate by (auto simp: sbind_split)
  then obtain rvals where r: "coerce_row schema (map insert_literal row) = Inr rvals"
    "insert_new_row C ?t schema rvals txn t = (Inl (DuplicateKey msg), s')"
    using coerce_no_duplicate by (auto simp: insert_row_def sbind_split slift_def sret_def validate_row_def split: sum.splits option.splits)
  have inv: "ex_inv C (Suc 0) t" using t(3) by simp
  from insert_new_row_fails [OF inv tab r(2)] r(1) t(2,4,5) show ?thesis
    by (auto simp: same_tables_def)
qed

lemma example_dup_fails:
  "\<exists>msg s'. execute_statement example_storage_codecs example_library example_insert example_dup = (Inl (DuplicateKey msg), s')"
  by (simp add: example_insert_def ex_insert_def example_dup_def example_exec_def example_eval example_literal
      values_from_insert_def slift_def example_schema_def insert_row_def coerce_row_def coerce_to_def
      validate_row_def null_column_def is_null_def get_or_def insert_new_row_def st_insert_def entry_or_new_def
      be_insert_def td_insert_def row_new_def im_insert_row_def index_insert_def example_index_def
      key_of_row_def eq_ignore_ascii_case_def index_key_def
      del: insert_literal.simps split: prod.splits)

theorem refused_insert_stays_witness:
  "\<exists>msg s' i. execute_statement example_storage_codecs example_library example_insert example_dup = (Inl (DuplicateKey msg), s')
    \<and> ex_rows example_storage_codecs s' ''t'' i = Some (row_new [Int8 5]) \<and> tr_active (ex_transaction s')"
proof -
  obtain msg s' where run: "execute_statement example_storage_codecs example_library example_insert example_dup = (Inl (DuplicateKey msg), s')"
    using example_dup_fails by blast
  have row: "coerce_row example_schema (map insert_literal [ValueE (Number ''5'' False)]) = Inr [Int8 5]" by code_simp
  have name: "extract_table_name [''t''] = ''t''" by (simp add: extract_table_name_def last_or_default_def)
  have tab: "map_of (cat_tables (ex_catalog example_dup)) (extract_table_name [''t'']) = Some example_schema"
    by (simp add: example_dup_def example_exec_def name)
  have txn: "tr_txn_id (ex_transaction example_dup) = None"
    by (simp add: example_dup_def example_exec_def session_new_def transaction_default_def)
  show ?thesis
    using refused_insert_stays [OF example_dup_inv _ _ _ _ txn run [unfolded example_insert_def],
        where schema = example_schema and row = "[ValueE (Number ''5'' False)]"] tab run row
    by (auto simp: name)
qed

subsection \<open>A refused UPDATE\<close>

definition new_values :: "table_schema \<Rightarrow> assignment list \<Rightarrow> row \<Rightarrow> db_value list res" where
  "new_values schema assigns r = rbind (apply_assignments schema None assigns (row_values r))
     (\<lambda>vals. rbind (validate_row schema vals) (\<lambda>_. Inr vals))"

lemma im_lookup_agrees:
  assumes "manager_agrees m table names R" "i \<in> set (im_lookup m table n key)"
  shows "R i \<noteq> None"
  using assms
  by (fastforce simp: im_lookup_def get_index_def manager_agrees_def indexes_agree_def amap_inv_def index_agrees_def
      covers_def split: option.splits dest: map_of_SomeD)

text \<open>The state a refused change leaves: the row is out of the indexes.\<close>

definition unindexed :: "string \<Rightarrow> table_schema \<Rightarrow> u64 \<Rightarrow> row \<Rightarrow> exec_state \<Rightarrow> exec_state" where
  "unindexed table schema i r t = (record_undo (UUpdate table i r) t)
     \<lparr>ex_indexes := im_remove_row table (row_values r) (schema_names schema) i (ex_indexes t)\<rparr>"

lemma change_row_refused:
  assumes "new_values schema assigns r = Inl e"
  shows "change_row C table schema assigns None txn i r t = (Inl e, unindexed table schema i r t)"
proof -
  have "ex_indexes (record_undo u t) = ex_indexes t" for u by (simp add: record_undo_def)
  then show ?thesis using assms
    by (auto simp: change_row_def new_values_def sbind_def rbind_def on_indexes_def unindexed_def split: sum.splits)
qed

lemma update_loop_refused:
  assumes "\<forall>(i, r) \<in> set xs. \<exists>b. row_selected w schema r = Inr b"
    and "\<forall>(i, r) \<in> set xs. row_selected w schema r = Inr True \<longrightarrow> (\<exists>e. new_values schema assigns r = Inl e)"
    and "\<exists>(i, r) \<in> set xs. row_selected w schema r = Inr True"
  shows "\<exists>e i r. (i, r) \<in> set xs \<and> row_selected w schema r = Inr True \<and> new_values schema assigns r = Inl e
    \<and> sfold (update_row C table schema assigns w txn) xs c t = (Inl e, unindexed table schema i r t)"
  using assms
proof (induction xs)
  case (Cons x xs)
  obtain i r where x: "x = (i, r)" by fastforce
  obtain b where b: "row_selected w schema r = Inr b" using Cons.prems(1) x by auto
  show ?case
  proof (cases b)
    case True
    then obtain e where e: "new_values schema assigns r = Inl e" using Cons.prems(2) b x by auto
    then have "update_row C table schema assigns w txn x c t = (Inl e, unindexed table schema i r t)"
      using b True x change_row_refused [OF e] by (simp add: update_row_def sbind_def)
    then have "sfold (update_row C table schema assigns w txn) (x # xs) c t = (Inl e, unindexed table schema i r t)"
      by (simp add: sbind_def)
    then show ?thesis using b e True x by (metis list.set_intros(1))
  next
    case False
    then have "update_row C table schema assigns w txn x c t = (Inr c, t)"
      using b x by (simp add: update_row_def sbind_def)
    then have skip: "sfold (update_row C table schema assigns w txn) (x # xs) c t = sfold (update_row C table schema assigns w txn) xs c t"
      by (simp add: sbind_def)
    have "\<exists>(i, r) \<in> set xs. row_selected w schema r = Inr True" using Cons.prems(3) b False x by auto
    then obtain e j q where "(j, q) \<in> set xs" "row_selected w schema q = Inr True" "new_values schema assigns q = Inl e"
      "sfold (update_row C table schema assigns w txn) xs c t = (Inl e, unindexed table schema j q t)"
      using Cons.IH Cons.prems(1,2) by (meson list.set_intros(2))
    then show ?thesis unfolding skip by (meson list.set_intros(2))
  qed
qed simp

text \<open>C28: A refused UPDATE takes a row out of the indexes. When an UPDATE outside of a transaction matches at
  least one row and gives every row it matches values that are refused (a NULL in a NOT NULL column, a
  value of the wrong type), it fails, the table is as before, and a row it matched is in no index of the
  table any more, so a SELECT that uses an index does not find it; the transaction the statement opened is
  still active.\<close>

theorem refused_update_hides_row:
  assumes "ex_inv C n s" and "map_of (cat_tables (ex_catalog s)) (table_factor_name tf) = Some schema"
    and "tr_txn_id (ex_transaction s) = None" and "\<not> tr_active (ex_transaction s)"
    and "\<forall>i r. ex_rows C s (table_factor_name tf) i = Some r \<longrightarrow> (\<exists>b. row_selected w schema r = Inr b)"
    and "\<forall>i r. ex_rows C s (table_factor_name tf) i = Some r \<longrightarrow> row_selected w schema r = Inr True \<longrightarrow>
           (\<exists>e. new_values schema assigns r = Inl e)"
    and "matching w schema (ex_rows C s (table_factor_name tf)) \<noteq> {}"
  shows "\<exists>e s' i. execute_statement C L (Update tf assigns w) s = (Inl e, s')
    \<and> i \<in> matching w schema (ex_rows C s (table_factor_name tf)) \<and> ex_rows C s' = ex_rows C s
    \<and> (\<forall>name key. i \<notin> set (im_lookup (ex_indexes s') (table_factor_name tf) name key))
    \<and> tr_active (ex_transaction s') \<and> ex_active_write_txns s' = ex_active_write_txns s + 1"
proof -
  let ?t = "table_factor_name tf"
  obtain xs st where scan: "st_scan C ?t (ex_storage s) = (Inr xs, st)" "lists_rows xs (ex_rows C s ?t)"
    "st_same C (ex_storage s) st" "mem_same (ex_storage s) st"
    using mem_scan [OF ex_invD(2,3) [OF assms(1)]] by blast
  let ?s = "s\<lparr>ex_storage := st\<rparr>"
  have reads: "reads C s ?s" using scan(3,4) by (auto simp: reads_def)
  have "ex_inv C n ?s" by (rule reads_inv [OF reads assms(1)])
  then obtain txn t where t: "begin_write_txn C ?s = (Inr txn, t)" "same_tables C ?s t" "ex_inv C n t"
    "tr_active (ex_transaction t)" "ex_active_write_txns t = ex_active_write_txns s + 1" "se_auto_commit (ex_session t)"
    using begin_fresh [of C n ?s] assms(3,4)
    by (auto simp: begin_write_txn_def current_txn_id_def sbind_def on_txn_def txn_begin_def Let_def split: prod.splits)
  have rows: "ex_rows C t = ex_rows C s" "ex_catalog t = ex_catalog s"
    using t(2) reads_frame(5) [OF reads] by (simp_all add: same_tables_def)
  have xs: "(i, r) \<in> set xs \<longleftrightarrow> ex_rows C s ?t i = Some r" for i r
    using scan(2) map_of_eq_Some_iff [OF scanned_rows(1) [OF scan(2)], of i r] by (simp add: lists_rows_def)
  then obtain e i r where r: "(i, r) \<in> set xs" "row_selected w schema r = Inr True"
    "sfold (update_row C ?t schema assigns w txn) xs 0 t = (Inl e, unindexed ?t schema i r t)"
    using update_loop_refused [of xs w schema assigns C ?t txn 0 t] assms(5-7) by (fastforce simp: matching_def)
  have "execute_statement C L (Update tf assigns w) s = (Inl e, unindexed ?t schema i r t)"
    using assms(2) scan(1) t(1) r(3) by (simp add: ex_update_def sbind_def get_table_def on_storage_def)
  moreover have "i \<in> matching w schema (ex_rows C s ?t)" using r(1,2) xs by (auto simp: matching_def)
  moreover have "manager_agrees (im_remove_row ?t (row_values r) (schema_names schema) i (ex_indexes t)) ?t (schema_names schema)
      ((ex_vals C t ?t)(i := None))"
    using ex_invD(6) [OF t(3)] assms(2) rows r(1) xs by (intro im_remove_row_law) (auto simp: table_vals_def row_vals_def)
  then have "i \<notin> set (im_lookup (ex_indexes (unindexed ?t schema i r t)) ?t name key)" for name key
    using im_lookup_agrees by (fastforce simp: unindexed_def)
  moreover have "ex_rows C (unindexed ?t schema i r t) = ex_rows C s" "tr_active (ex_transaction (unindexed ?t schema i r t))"
    "ex_active_write_txns (unindexed ?t schema i r t) = ex_active_write_txns s + 1"
    using t rows(1) by (simp_all add: unindexed_def record_undo_def)
  ultimately show ?thesis by blast
qed

definition example_bad_assign :: "assignment list" where
  "example_bad_assign = [\<lparr>as_target = ColumnName [''a''], as_value = ValueE (SingleQuotedString ''x'')\<rparr>]"

theorem refused_update_hides_row_witness:
  "\<exists>e s'. execute_statement example_storage_codecs example_library (Update (Table [''t'']) example_bad_assign None) example_dup = (Inl e, s')
    \<and> ex_rows example_storage_codecs s' ''t'' = [1 \<mapsto> row_new [Int8 5]]
    \<and> im_lookup (ex_indexes example_dup) ''t'' ''i'' [Int8 5] = [1] \<and> 1 \<notin> set (im_lookup (ex_indexes s') ''t'' ''i'' [Int8 5])"
proof -
  have name: "table_factor_name (Table [''t'']) = ''t''" by (simp add: extract_table_name_def last_or_default_def)
  have rows: "ex_rows example_storage_codecs example_dup ''t'' = [1 \<mapsto> row_new [Int8 5]]"
    using example_exec_rows by (simp add: example_dup_def)
  have look: "im_lookup (ex_indexes example_dup) ''t'' ''i'' [Int8 5] = [1]"
    by (simp add: example_dup_def im_lookup_def get_index_def example_index_def index_lookup_def index_key_def)
  have tab: "map_of (cat_tables (ex_catalog example_dup)) ''t'' = Some example_schema"
    by (simp add: example_dup_def example_exec_def)
  have txn: "tr_txn_id (ex_transaction example_dup) = None" "\<not> tr_active (ex_transaction example_dup)"
    by (simp_all add: example_dup_def example_exec_def session_new_def transaction_default_def)
  have "isl (new_values example_schema example_bad_assign (row_new [Int8 5]))" by code_simp
  then have bad: "\<exists>e. new_values example_schema example_bad_assign (row_new [Int8 5]) = Inl e" by (auto simp: isl_def)
  have "matching None example_schema [1 \<mapsto> row_new [Int8 5]] = {1}"
    by (auto simp: matching_def row_selected_def split: if_splits)
  then show ?thesis
    using refused_update_hides_row [OF example_dup_inv, where tf = "Table [''t'']" and w = None and assigns = example_bad_assign,
        OF _ txn, unfolded name rows, OF tab] bad look
    by (fastforce simp: row_selected_def rows simp del: execute_statement.simps split: if_splits)
qed

subsection \<open>ROLLBACK\<close>

text \<open>A refused INSERT of a duplicate key leaves no undo record, so a ROLLBACK does not remove its row: the table
  has two rows with the same key afterwards.\<close>

theorem rollback_keeps_refused_row:
  "\<exists>r s1 msg s2 s3. execute_statement example_storage_codecs example_library StartTransaction example_dup = (Inr r, s1)
    \<and> run_each example_storage_codecs example_library [example_insert] s1 = ([Inl (DuplicateKey msg)], s2)
    \<and> execute_statement example_storage_codecs example_library Rollback s2 = (Inr (qr_modified 0 ''ROLLBACK''), s3)
    \<and> ex_vals example_storage_codecs s3 ''t'' = [1 \<mapsto> [Int8 5], 2 \<mapsto> [Int8 5]]"
  by (simp add: example_insert_def ex_begin_def ex_rollback_def txn_rollback_def on_tables_def
      ex_insert_def example_dup_def example_exec_def example_eval example_literal
      values_from_insert_def slift_def example_schema_def insert_row_def coerce_row_def coerce_to_def
      validate_row_def null_column_def is_null_def get_or_def insert_new_row_def st_insert_def entry_or_new_def
      be_insert_def td_insert_def row_new_def im_insert_row_def index_insert_def example_index_def
      key_of_row_def eq_ignore_ascii_case_def index_key_def table_vals_def st_rows_def row_vals_def fun_eq_iff
      del: insert_literal.simps split: prod.splits)

text \<open>DROP TABLE and CREATE TABLE are not undone, and the undo log speaks of tables by name. When a transaction
  deletes the rows of a table, drops it and creates a table of another type under its name, a ROLLBACK puts
  the old rows into the new table: an integer into a column of texts.\<close>

definition example_redefine :: "statement list" where
  "example_redefine = [example_delete, Drop ''TABLE'' [[''t'']],
     CreateTable [''t''] [\<lparr>scd_name = ''a'', scd_data_type = SqlText, scd_options = []\<rparr>] []]"

theorem rollback_into_new_table:
  "\<exists>r s1 q1 q2 q3 s2 s3 schema. execute_statement example_storage_codecs example_library StartTransaction example_exec = (Inr r, s1)
    \<and> run_each example_storage_codecs example_library example_redefine s1 = ([Inr q1, Inr q2, Inr q3], s2)
    \<and> execute_statement example_storage_codecs example_library Rollback s2 = (Inr (qr_modified 0 ''ROLLBACK''), s3)
    \<and> map_of (cat_tables (ex_catalog s3)) ''t'' = Some schema \<and> map col_type (ts_columns schema) = [TText]
    \<and> ex_vals example_storage_codecs s3 ''t'' = [1 \<mapsto> [Int8 5]]"
  by (simp add: example_redefine_def example_delete_def ex_begin_def ex_rollback_def txn_rollback_def on_tables_def
      ex_delete_def example_exec_def example_eval drop_table_def create_table_def st_drop_table_def im_drop_table_def
      cat_drop_table_def cat_create_table_def set_table_count_def on_catalog_def ensure_table_def entry_or_new_def new_empty_backend_def
      use_paged_def storage_options_default_def set_backend_def create_primary_key_index_def pk_names_def
      mark_primary_key_def extract_pk_from_constraints_def sql_column_to_def_def slift_def example_schema_def
      st_apply_insert_def be_apply_insert_def td_apply_insert_def table_data_default_def im_insert_row_def
      on_fst_def on_snd_def txn_record_def row_new_def table_vals_def st_rows_def row_vals_def fun_eq_iff starts_with_def
      split: prod.splits)

end
