(* ===== verification/Joins.thy ===== *)
theory Joins
  imports Statements
begin

text \<open>
  Joins of \<open>executor.rs\<close> against a specification: \<open>select_join\<close> reads table after table and filters after
  each, and the rows it finds are those of the tuples of row ids that satisfy every ON condition.
\<close>

subsection \<open>Specification\<close>

text \<open>The values of a tuple of rows and the names of its columns.\<close>

definition tuple_values :: "(string \<Rightarrow> u64 \<rightharpoonup> row) \<Rightarrow> string list \<Rightarrow> u64 list \<Rightarrow> db_value list" where
  "tuple_values R tabs ids = concat (map2 (\<lambda>t i. row_values (the (R t i))) tabs ids)"

definition joined_columns :: "catalog \<Rightarrow> string list \<Rightarrow> string list" where
  "joined_columns cat tabs = concat (map (\<lambda>t. qualified_columns t (the (map_of (cat_tables cat) t))) tabs)"

definition eval_on :: "(string \<Rightarrow> u64 \<rightharpoonup> row) \<Rightarrow> catalog \<Rightarrow> string list \<Rightarrow> expr \<Rightarrow> u64 list \<Rightarrow> bool res" where
  "eval_on R cat tabs e ids = eval_where e (tuple_values R tabs ids) (joined_columns cat tabs)"

definition row_tuples :: "(string \<Rightarrow> u64 \<rightharpoonup> row) \<Rightarrow> string list \<Rightarrow> u64 list set" where
  "row_tuples R tabs = {ids. list_all2 (\<lambda>t i. i \<in> dom (R t)) tabs ids}"

text \<open>Joins are given by their tables and conditions; the \<open>k\<close>-th condition sees the first \<open>k + 2\<close> tables.\<close>

abbreviation join_tabs :: "string \<Rightarrow> (string \<times> expr) list \<Rightarrow> string list" where
  "join_tabs t js \<equiv> t # map fst js"

definition on_holds :: "(string \<Rightarrow> u64 \<rightharpoonup> row) \<Rightarrow> catalog \<Rightarrow> string \<Rightarrow> (string \<times> expr) list \<Rightarrow> nat \<Rightarrow> u64 list \<Rightarrow> bool res" where
  "on_holds R cat t js k ids = eval_on R cat (take (k + 2) (join_tabs t js)) (snd (js ! k)) (take (k + 2) ids)"

definition join_tuples :: "(string \<Rightarrow> u64 \<rightharpoonup> row) \<Rightarrow> catalog \<Rightarrow> string \<Rightarrow> (string \<times> expr) list \<Rightarrow> u64 list set" where
  "join_tuples R cat t js =
     {ids \<in> row_tuples R (join_tabs t js). \<forall>k < length js. on_holds R cat t js k ids = Inr True}"

text \<open>Every condition has a truth value on the tuples it can meet.\<close>

definition joins_evaluable :: "(string \<Rightarrow> u64 \<rightharpoonup> row) \<Rightarrow> catalog \<Rightarrow> string \<Rightarrow> (string \<times> expr) list \<Rightarrow> bool" where
  "joins_evaluable R cat t js \<longleftrightarrow> (\<forall>k < length js. \<forall>ids \<in> row_tuples R (take (k + 2) (join_tabs t js)).
     \<exists>b. eval_on R cat (take (k + 2) (join_tabs t js)) (snd (js ! k)) ids = Inr b)"

lemma row_tuples_length: "ids \<in> row_tuples R tabs \<Longrightarrow> length ids = length tabs"
  by (simp add: row_tuples_def list_all2_lengthD)

lemma row_tuples_snoc:
  "ids \<in> row_tuples R (tabs @ [t]) \<longleftrightarrow> (\<exists>ids' i. ids = ids' @ [i] \<and> ids' \<in> row_tuples R tabs \<and> i \<in> dom (R t))"
  by (cases ids rule: rev_cases) (auto simp: row_tuples_def list_all2_conv_all_nth nth_append less_Suc_eq)

lemma tuple_values_snoc:
  assumes "length ids = length tabs"
  shows "tuple_values R (tabs @ [t]) (ids @ [i]) = tuple_values R tabs ids @ row_values (the (R t i))"
  using assms by (simp add: tuple_values_def)

lemma joined_columns_snoc: "joined_columns cat (tabs @ [t]) =
    joined_columns cat tabs @ qualified_columns t (the (map_of (cat_tables cat) t))"
  by (simp add: joined_columns_def)

lemma on_holds_snoc:
  assumes "k < length js" "length ids = Suc (length js)"
  shows "on_holds R cat t (js @ [j]) k (ids @ [i]) = on_holds R cat t js k ids"
  using assms by (simp add: on_holds_def nth_append)

lemma join_tuples_snoc:
  "ids \<in> join_tuples R cat t (js @ [(u, e)]) \<longleftrightarrow> (\<exists>ids' i. ids = ids' @ [i] \<and> ids' \<in> join_tuples R cat t js
     \<and> i \<in> dom (R u) \<and> eval_on R cat (join_tabs t js @ [u]) e (ids' @ [i]) = Inr True)"
proof -
  have last: "on_holds R cat t (js @ [(u, e)]) (length js) (ids' @ [i]) = eval_on R cat (join_tabs t js @ [u]) e (ids' @ [i])"
    if "length ids' = Suc (length js)" for ids' i using that by (simp add: on_holds_def)
  have all: "(\<forall>k < length (js @ [(u, e)]). on_holds R cat t (js @ [(u, e)]) k (ids' @ [i]) = Inr True) \<longleftrightarrow>
      (\<forall>k < length js. on_holds R cat t js k ids' = Inr True)
      \<and> eval_on R cat (join_tabs t js @ [u]) e (ids' @ [i]) = Inr True"
    if "ids' \<in> row_tuples R (join_tabs t js)" for ids' i
    using row_tuples_length [OF that] last [of ids' i] on_holds_snoc [of _ js ids']
    by (auto simp: less_Suc_eq)
  have "ids \<in> row_tuples R (join_tabs t (js @ [(u, e)])) \<longleftrightarrow>
      (\<exists>ids' i. ids = ids' @ [i] \<and> ids' \<in> row_tuples R (join_tabs t js) \<and> i \<in> dom (R u))"
    using row_tuples_snoc [of ids R "join_tabs t js" u] by simp
  then show ?thesis using all unfolding join_tuples_def by blast
qed

lemma joins_evaluable_snoc:
  assumes "joins_evaluable R cat t (js @ [(u, e)])"
  shows "joins_evaluable R cat t js"
    "\<And>ids. ids \<in> row_tuples R (join_tabs t js @ [u]) \<Longrightarrow> \<exists>b. eval_on R cat (join_tabs t js @ [u]) e ids = Inr b"
proof -
  note ev = assms [unfolded joins_evaluable_def]
  show "joins_evaluable R cat t js"
    unfolding joins_evaluable_def
  proof (intro allI impI)
    fix k assume k: "k < length js"
    then show "\<forall>ids \<in> row_tuples R (take (k + 2) (join_tabs t js)).
        \<exists>b. eval_on R cat (take (k + 2) (join_tabs t js)) (snd (js ! k)) ids = Inr b"
      using ev [rule_format, of k] by (simp add: nth_append)
  qed
  show "\<exists>b. eval_on R cat (join_tabs t js @ [u]) e ids = Inr b" if "ids \<in> row_tuples R (join_tabs t js @ [u])" for ids
    using ev [rule_format, of "length js" ids] that by simp
qed

subsection \<open>Nested loops\<close>

declare parse_inner_join.simps [simp del]

text \<open>The tuples one more table gives, in ascending order.\<close>

definition extend_tuples :: "u64 list list \<Rightarrow> u64 list \<Rightarrow> u64 list list" where
  "extend_tuples tuples ids = concat (map (\<lambda>l. map (\<lambda>i. l @ [i]) ids) tuples)"

lemma set_extend_tuples: "set (extend_tuples tuples ids) = {l @ [i] | l i. l \<in> set tuples \<and> i \<in> set ids}"
  by (auto simp: extend_tuples_def)

lemma sorted_extend_tuples:
  assumes "sorted_wrt (<) tuples" "sorted_wrt (<) ids" "\<forall>l \<in> set tuples. length l = n"
  shows "sorted_wrt (<) (extend_tuples tuples ids)"
  using assms
proof (induction tuples)
  case Nil
  then show ?case by (simp add: extend_tuples_def)
next
  case (Cons l tuples)
  have "sorted_wrt (<) (map (\<lambda>i. l @ [i]) ids)"
    unfolding sorted_wrt_map
    by (rule sorted_wrt_mono_rel [OF _ Cons.prems(2)]) (auto simp: list_less_def intro: lexord_append_leftI)
  moreover have "l @ [i] < l' @ [j]" if "l' \<in> set tuples" for l' i j
    using Cons.prems(1,3) that by (auto simp: list_less_def intro: lexord_sufI)
  ultimately show ?case using Cons by (auto simp: extend_tuples_def sorted_wrt_append)
qed

lemma nested_loop_rows:
  assumes "\<forall>ids \<in> set tuples. length ids = length tabs" "\<forall>(i, r) \<in> set xs. R t i = Some r"
  shows "concat (map (\<lambda>l. map (\<lambda>(_, r). row_new (row_values l @ row_values r)) xs) (map (row_new \<circ> tuple_values R tabs) tuples)) =
    map (row_new \<circ> tuple_values R (tabs @ [t])) (extend_tuples tuples (map fst xs))"
proof -
  have "map (\<lambda>(_, r). row_new (tuple_values R tabs ids @ row_values r)) xs =
      map ((row_new \<circ> tuple_values R (tabs @ [t])) \<circ> (\<lambda>i. ids @ [i])) (map fst xs)" if "ids \<in> set tuples" for ids
    using assms that by (auto simp: tuple_values_snoc)
  then show ?thesis
    by (auto simp: extend_tuples_def map_concat row_new_def intro!: arg_cong [where f = concat])
qed

lemma filter_tuple_rows:
  assumes "\<forall>ids \<in> set tuples. \<exists>b. eval_on R cat tabs e ids = Inr b"
  shows "filter_rows (Some e) (joined_columns cat tabs) (map (row_new \<circ> tuple_values R tabs) tuples) =
    Inr (map (row_new \<circ> tuple_values R tabs) (filter (\<lambda>ids. eval_on R cat tabs e ids = Inr True) tuples))"
  using assms by (subst filter_rows_kept) (auto simp: eval_on_def row_new_def filter_map comp_def)

lemma join_step_tuples:
  assumes "ex_inv C n s" "reads C s s'" "parse_inner_join j = Inr (u, e)" "u \<in> cat_dom s"
    and "sorted_wrt (<) tuples" "set tuples = join_tuples (ex_rows C s) (ex_catalog s) t js"
    and "joins_evaluable (ex_rows C s) (ex_catalog s) t (js @ [(u, e)])"
  shows "\<exists>tuples' s''. join_step C j (joined_columns (ex_catalog s) (join_tabs t js),
        map (row_new \<circ> tuple_values (ex_rows C s) (join_tabs t js)) tuples) s' =
      (Inr (joined_columns (ex_catalog s) (join_tabs t js @ [u]),
        map (row_new \<circ> tuple_values (ex_rows C s) (join_tabs t js @ [u])) tuples'), s'')
    \<and> reads C s s'' \<and> sorted_wrt (<) tuples' \<and> set tuples' = join_tuples (ex_rows C s) (ex_catalog s) t (js @ [(u, e)])"
proof -
  let ?R = "ex_rows C s" and ?cat = "ex_catalog s" and ?tabs = "join_tabs t js"
  note inv = ex_invD [OF reads_inv [OF assms(2,1)]]
  obtain schema where schema: "map_of (cat_tables ?cat) u = Some schema" using assms(4) by auto
  obtain xs st where scan: "st_scan C u (ex_storage s') = (Inr xs, st)" "lists_rows xs (?R u)"
    "st_same C (ex_storage s') st" "mem_same (ex_storage s') st"
    using mem_scan [OF inv(2,3), of u] reads_frame(5) [OF assms(2)] by auto
  have "reads C s' (s'\<lparr>ex_storage := st\<rparr>)" using scan(3,4) by (auto simp: reads_def)
  then have reads: "reads C s (s'\<lparr>ex_storage := st\<rparr>)" by (rule reads_trans [OF assms(2)])
  have tups: "\<forall>ids \<in> set tuples. ids \<in> row_tuples ?R ?tabs" using assms(6) by (simp add: join_tuples_def)
  then have len: "\<forall>ids \<in> set tuples. length ids = length ?tabs" using row_tuples_length by blast
  have xs: "\<forall>(i, r) \<in> set xs. ?R u i = Some r" using scanned_rows(2) [OF scan(2)] by auto
  have ids: "set (map fst xs) = dom (?R u)" "sorted_wrt (<) (map fst xs)"
    using map_snd_scan(2) [OF scan(2)] scan(2) by (simp_all add: lists_rows_def)
  let ?ext = "extend_tuples tuples (map fst xs)"
  let ?new = "filter (\<lambda>ids. eval_on ?R ?cat (?tabs @ [u]) e ids = Inr True) ?ext"
  have ext: "\<forall>ids \<in> set ?ext. \<exists>b. eval_on ?R ?cat (?tabs @ [u]) e ids = Inr b"
    using joins_evaluable_snoc(2) [OF assms(7)] tups unfolding set_extend_tuples ids(1) row_tuples_snoc by blast
  have "join_rows e (joined_columns ?cat (?tabs @ [u])) (map (row_new \<circ> tuple_values ?R ?tabs) tuples) xs =
      Inr (map (row_new \<circ> tuple_values ?R (?tabs @ [u])) ?new)"
    unfolding join_rows_def nested_loop_rows [OF len, of xs ?R u, OF xs] by (rule filter_tuple_rows [OF ext])
  moreover have "joined_columns ?cat (?tabs @ [u]) = joined_columns ?cat ?tabs @ qualified_columns u schema"
    unfolding joined_columns_snoc schema by simp
  ultimately have "join_step C j (joined_columns ?cat ?tabs, map (row_new \<circ> tuple_values ?R ?tabs) tuples) s' =
      (Inr (joined_columns ?cat (?tabs @ [u]), map (row_new \<circ> tuple_values ?R (?tabs @ [u])) ?new), s'\<lparr>ex_storage := st\<rparr>)"
    using assms(3) schema scan(1) reads_frame(1) [OF assms(2)]
    by (simp add: join_step_def sbind_def slift_def sret_def on_storage_def get_table_def Let_def)
  moreover have "sorted_wrt (<) ?new"
    by (rule sorted_wrt_filter [OF sorted_extend_tuples [OF assms(5) ids(2) len]])
  moreover have "set ?new = join_tuples ?R ?cat t (js @ [(u, e)])"
    using assms(6) ids(1) join_tuples_snoc [of _ ?R ?cat t js u e] by (auto simp: set_extend_tuples)
  ultimately show ?thesis using reads by blast
qed

lemma joins_tuples:
  assumes "ex_inv C n s" "reads C s s0" "map parse_inner_join joins = map Inr js" "\<forall>u \<in> set (map fst js). u \<in> cat_dom s"
    and "sorted_wrt (<) tuples" "set tuples = dom (ex_rows C s t)"
    and "joins_evaluable (ex_rows C s) (ex_catalog s) t js"
  shows "\<exists>tuples' s'. sfold (join_step C) joins (joined_columns (ex_catalog s) [t],
        map (row_new \<circ> tuple_values (ex_rows C s) [t]) (map (\<lambda>i. [i]) tuples)) s0 =
      (Inr (joined_columns (ex_catalog s) (join_tabs t js),
        map (row_new \<circ> tuple_values (ex_rows C s) (join_tabs t js)) tuples'), s')
    \<and> reads C s s' \<and> sorted_wrt (<) tuples' \<and> set tuples' = join_tuples (ex_rows C s) (ex_catalog s) t js"
  using assms(3,4,7)
proof (induction joins arbitrary: js rule: rev_induct)
  case Nil
  have "set (map (\<lambda>i. [i]) tuples) = join_tuples (ex_rows C s) (ex_catalog s) t []"
    using assms(6) by (auto simp: join_tuples_def row_tuples_def list_all2_Cons1)
  moreover have "sorted_wrt (<) (map (\<lambda>i. [i]) tuples)"
    using assms(5) by (simp add: sorted_wrt_map)
  ultimately show ?case using Nil assms(2)
    by (intro exI [of _ "map (\<lambda>i. [i]) tuples"] exI [of _ s0]) (simp add: sret_def)
next
  case (snoc j joins)
  then obtain js' u e where js: "js = js' @ [(u, e)]" "map parse_inner_join joins = map Inr js'" "parse_inner_join j = Inr (u, e)"
    by (cases js rule: rev_cases) auto
  note ev = snoc.prems(3) [unfolded js(1)]
  have "\<forall>u \<in> set (map fst js'). u \<in> cat_dom s" using snoc.prems(2) js(1) by simp
  from snoc.IH [OF js(2) this joins_evaluable_snoc(1) [OF ev]]
  obtain tuples' s' where IH: "sfold (join_step C) joins (joined_columns (ex_catalog s) [t],
        map (row_new \<circ> tuple_values (ex_rows C s) [t]) (map (\<lambda>i. [i]) tuples)) s0 =
      (Inr (joined_columns (ex_catalog s) (join_tabs t js'),
        map (row_new \<circ> tuple_values (ex_rows C s) (join_tabs t js')) tuples'), s')"
    "reads C s s'" "sorted_wrt (<) tuples'" "set tuples' = join_tuples (ex_rows C s) (ex_catalog s) t js'" by blast
  have "u \<in> cat_dom s" using snoc.prems(2) js(1) by simp
  from join_step_tuples [OF assms(1) IH(2) js(3) this IH(3,4) ev] show ?case
    unfolding sfold_snoc js(1) sbind_Inr [of "sfold (join_step C) joins _", OF IH(1)] by (simp only: map_append list.map fst_conv append_Cons)
qed

subsection \<open>The rows of a join\<close>

definition where_holds :: "(string \<Rightarrow> u64 \<rightharpoonup> row) \<Rightarrow> catalog \<Rightarrow> string list \<Rightarrow> expr option \<Rightarrow> u64 list \<Rightarrow> bool res" where
  "where_holds R cat tabs w ids = (case w of None \<Rightarrow> Inr True | Some e \<Rightarrow> eval_on R cat tabs e ids)"

lemma filter_where_rows:
  assumes "\<forall>ids \<in> set tuples. \<exists>b. where_holds R cat tabs w ids = Inr b"
  shows "filter_rows w (joined_columns cat tabs) (map (row_new \<circ> tuple_values R tabs) tuples) =
    Inr (map (row_new \<circ> tuple_values R tabs) (filter (\<lambda>ids. where_holds R cat tabs w ids = Inr True) tuples))"
  using assms filter_rows_kept [where w = None] filter_tuple_rows [of tuples R cat tabs]
  by (cases w) (auto simp: where_holds_def)

text \<open>C5: A SELECT with inner joins returns the matching combinations. On a database whose tables and indexes
  agree, it passes to grouping, ordering, limits and projection exactly one row for each tuple of rows of
  the joined tables on which every ON condition and the WHERE clause hold, in the lexicographic order of
  the row ids, and it changes no row, no index and no transaction. The hypotheses: the tables exist, and
  the conditions can be evaluated on the tuples of rows they can meet.\<close>

theorem join_returns_matching_tuples:
  fixes t js C s q sel
  defines "tabs \<equiv> join_tabs t js" and "R \<equiv> ex_rows C s" and "cat \<equiv> ex_catalog s"
  assumes "ex_inv C n s" and "q_body q = Select sel" and "sel_from sel = f # fs" and "twj_joins f \<noteq> []"
    and "table_factor_name (twj_relation f) = t" and "map parse_inner_join (twj_joins f) = map Inr js"
    and "\<forall>u \<in> set tabs. u \<in> dom (map_of (cat_tables cat))"
    and "joins_evaluable R cat t js"
    and "\<forall>ids \<in> join_tuples R cat t js. \<exists>b. where_holds R cat tabs (sel_selection sel) ids = Inr b"
  shows "\<exists>tuples s'. sorted_wrt (<) tuples
    \<and> set tuples = {ids \<in> join_tuples R cat t js. where_holds R cat tabs (sel_selection sel) ids = Inr True}
    \<and> execute_statement C L (Query q) s =
       (finalize_select L q sel
          (if has_wildcard (sel_projection sel) then joined_columns cat tabs
           else select_items_to_columns (lib_show_expr L) (sel_projection sel))
          (map (row_new \<circ> tuple_values R tabs) tuples) (joined_columns cat tabs), s')
    \<and> ex_inv C n s' \<and> ex_vals C s' = ex_vals C s \<and> ex_catalog s' = ex_catalog s
    \<and> ex_indexes s' = ex_indexes s \<and> ex_session s' = ex_session s"
proof -
  note inv = ex_invD [OF assms(4)]
  obtain schema where schema: "map_of (cat_tables cat) t = Some schema" using assms(10) by (auto simp: tabs_def)
  obtain xs st where scan: "st_scan C t (ex_storage s) = (Inr xs, st)" "lists_rows xs (R t)"
    "st_same C (ex_storage s) st" "mem_same (ex_storage s) st"
    using mem_scan [OF inv(2,3), of t] unfolding R_def by blast
  let ?s = "s\<lparr>ex_storage := st\<rparr>" and ?w = "sel_selection sel"
  have reads: "reads C s ?s" using scan(3,4) by (auto simp: reads_def)
  have ids: "sorted_wrt (<) (map fst xs)" "set (map fst xs) = dom (R t)"
    using map_snd_scan(2) [OF scan(2)] scan(2) by (simp_all add: lists_rows_def)
  have "row_new (row_values r) = row_new (tuple_values R [t] [i])" if "(i, r) \<in> set xs" for i r
    using scanned_rows(2) [OF scan(2) that] by (simp add: tuple_values_def)
  then have left: "map (\<lambda>(_, r). row_new (row_values r)) xs = map (row_new \<circ> tuple_values R [t]) (map (\<lambda>i. [i]) (map fst xs))"
    by auto
  have "\<forall>u \<in> set (map fst js). u \<in> cat_dom s" using assms(10) by (auto simp: tabs_def cat_def)
  from joins_tuples [OF assms(4) reads assms(9) this ids(1) ids(2) [unfolded R_def] assms(11) [unfolded R_def cat_def]]
  obtain tuples s' where fold: "sfold (join_step C) (twj_joins f) (joined_columns cat [t],
        map (row_new \<circ> tuple_values R [t]) (map (\<lambda>i. [i]) (map fst xs))) ?s =
      (Inr (joined_columns cat tabs, map (row_new \<circ> tuple_values R tabs) tuples), s')"
    "reads C s s'" "sorted_wrt (<) tuples" "set tuples = join_tuples R cat t js"
    unfolding R_def cat_def tabs_def by blast
  note fold = fold(1) [folded left] fold(2-)
  let ?new = "filter (\<lambda>ids. where_holds R cat tabs ?w ids = Inr True) tuples"
  have "filter_rows ?w (joined_columns cat tabs) (map (row_new \<circ> tuple_values R tabs) tuples) =
      Inr (map (row_new \<circ> tuple_values R tabs) ?new)"
    by (rule filter_where_rows) (use assms(12) fold(4) in blast)
  moreover have "qualified_columns t schema = joined_columns cat [t]" using schema by (simp add: joined_columns_def)
  ultimately have "execute_statement C L (Query q) s =
       (finalize_select L q sel
          (if has_wildcard (sel_projection sel) then joined_columns cat tabs
           else select_items_to_columns (lib_show_expr L) (sel_projection sel))
          (map (row_new \<circ> tuple_values R tabs) ?new) (joined_columns cat tabs), s')"
    using assms(5-8) schema scan(1) fold(1)
    by (simp add: ex_select_def select_join_def Let_def sbind_def get_table_def slift_def on_storage_def cat_def)
  moreover have "sorted_wrt (<) ?new" by (rule sorted_wrt_filter [OF fold(3)])
  moreover have "set ?new = {ids \<in> join_tuples R cat t js. where_holds R cat tabs ?w ids = Inr True}"
    using fold(4) by auto
  ultimately show ?thesis using reads_frame [OF fold(2)] reads_inv [OF fold(2) assms(4)] by blast
qed

subsection \<open>A concrete join\<close>

definition example_on :: expr where
  "example_on = BinaryOp (CompoundIdentifier [''t'', ''a'']) Eq (CompoundIdentifier [''t'', ''a''])"

definition example_join_sel :: select where
  "example_join_sel = \<lparr>sel_projection = [Wildcard], sel_from = [\<lparr>twj_relation = Table [''t''],
       twj_joins = [\<lparr>jn_relation = Table [''t''], jn_operator = Inner (On example_on)\<rparr>]\<rparr>],
     sel_selection = None, sel_group_by = GroupByExprs []\<rparr>"

definition example_join_query :: query where
  "example_join_query = \<lparr>q_body = Select example_join_sel, q_order_by = None, q_limit = None, q_offset = None\<rparr>"

lemma example_row_tuples:
  "row_tuples (ex_rows example_storage_codecs example_exec) [''t'', ''t''] = {[1, 1]}"
  by (auto simp: row_tuples_def list_all2_Cons1 example_exec_rows split: if_splits)

lemma example_eval_on:
  "eval_on (ex_rows example_storage_codecs example_exec) (ex_catalog example_exec) [''t'', ''t''] example_on [1, 1] = Inr True"
proof -
  have "tuple_values (ex_rows example_storage_codecs example_exec) [''t'', ''t''] [1, 1] = [Int8 5, Int8 5]"
    by (simp add: tuple_values_def example_exec_rows row_new_def)
  moreover have "joined_columns (ex_catalog example_exec) [''t'', ''t''] = [''t.a'', ''t.a'']"
    by (simp add: joined_columns_def example_exec_table qualified_columns_def example_schema_def)
  moreover have "eval_where example_on [Int8 5, Int8 5] [''t.a'', ''t.a''] = Inr True" by code_simp
  ultimately show ?thesis by (simp add: eval_on_def)
qed

theorem join_returns_matching_tuples_witness:
  "\<exists>s'. execute_statement example_storage_codecs example_library (Query example_join_query) example_exec =
     (Inr (qr_select [''t.a'', ''t.a''] [row_new [Int8 5, Int8 5]]), s')"
proof -
  let ?R = "ex_rows example_storage_codecs example_exec" and ?cat = "ex_catalog example_exec"
  have tab: "table_factor_name (Table [''t'']) = ''t''" by (simp add: extract_table_name_def last_or_default_def)
  have js: "map parse_inner_join [\<lparr>jn_relation = Table [''t''], jn_operator = Inner (On example_on)\<rparr>] =
      map Inr [(''t'', example_on)]" by (simp add: parse_inner_join.simps tab del: table_factor_name.simps)
  have ev: "joins_evaluable ?R ?cat ''t'' [(''t'', example_on)]"
    using example_eval_on by (auto simp: joins_evaluable_def example_row_tuples)
  have tup: "join_tuples ?R ?cat ''t'' [(''t'', example_on)] = {[1, 1]}"
    using example_eval_on by (auto simp: join_tuples_def on_holds_def example_row_tuples)
  have q: "q_body example_join_query = Select example_join_sel" by (simp add: example_join_query_def)
  have from_t: "sel_from example_join_sel = \<lparr>twj_relation = Table [''t''],
       twj_joins = [\<lparr>jn_relation = Table [''t''], jn_operator = Inner (On example_on)\<rparr>]\<rparr> # []"
    by (simp add: example_join_sel_def)
  have fin: "finalize_select example_library example_join_query example_join_sel [''t.a'', ''t.a'']
      [row_new [Int8 5, Int8 5]] [''t.a'', ''t.a''] = Inr (qr_select [''t.a'', ''t.a''] [row_new [Int8 5, Int8 5]])"
    by code_simp
  have wild: "has_wildcard (sel_projection example_join_sel)" "sel_selection example_join_sel = None"
    by (simp_all add: example_join_sel_def has_wildcard_def)
  have cols: "joined_columns ?cat [''t'', ''t''] = [''t.a'', ''t.a'']"
    by (simp add: joined_columns_def example_exec_table qualified_columns_def example_schema_def)
  have vals: "tuple_values ?R [''t'', ''t''] [1, 1] = [Int8 5, Int8 5]"
    by (simp add: tuple_values_def example_exec_rows row_new_def)
  have "\<forall>u \<in> set (join_tabs ''t'' [(''t'', example_on)]). u \<in> dom (map_of (cat_tables ?cat))"
    by (auto simp: example_exec_table)
  moreover have "\<forall>ids \<in> join_tuples ?R ?cat ''t'' [(''t'', example_on)].
      \<exists>b. where_holds ?R ?cat (join_tabs ''t'' [(''t'', example_on)]) (sel_selection example_join_sel) ids = Inr b"
    by (auto simp: where_holds_def wild)
  ultimately obtain tuples s' where s': "sorted_wrt (<) tuples" "set tuples = {[1, 1]}"
    "execute_statement example_storage_codecs example_library (Query example_join_query) example_exec =
       (finalize_select example_library example_join_query example_join_sel [''t.a'', ''t.a'']
          (map (row_new \<circ> tuple_values ?R [''t'', ''t'']) tuples) [''t.a'', ''t.a''], s')"
    using join_returns_matching_tuples [OF example_exec_inv [of 0] q from_t _ _ _ _ ev, of example_library] js tab
    by (auto simp: where_holds_def tup wild cols simp del: execute_statement.simps)
  have "tuples = [[1, 1]]" using strict_sorted_equal [OF s'(1), of "[[1, 1]]"] s'(2) by simp
  then show ?thesis using s'(3) fin vals by simp
qed

end
