(* ===== verification/Locks.thy ===== *)
theory Locks
  imports Prelude
begin

text \<open>
  \<open>moodeng-core/src/lock.rs\<close>: the lock manager, with the interleavings of threads that UPDATE and DELETE
  rows. A lock (an \<open>Arc<RwLock<()>>\<close>) is a number, the maps of the manager hold the numbers, and a thread
  is at one of the points between two atomic operations of \<open>row_lock\<close>, \<open>write\<close> and the two drops at the
  end of its scope: the guard first, which evicts the entry of the map when only the map and the handle
  refer to the lock, then the handle.
\<close>

subsection \<open>The lock manager\<close>

type_synonym lock_key = "string \<times> u64"

record lock_manager =
  lm_ddl_locks :: "(string \<times> nat) list"
  lm_row_locks :: "(lock_key \<times> nat) list"
  lm_next_lock :: nat

record row_lock_handle =
  rh_key :: lock_key
  rh_lock :: nat

definition lock_manager_new :: lock_manager where
  "lock_manager_new = \<lparr>lm_ddl_locks = [], lm_row_locks = [], lm_next_lock = 0\<rparr>"

definition row_locks_len :: "lock_manager \<Rightarrow> nat" where
  "row_locks_len m = length (lm_row_locks m)"

text \<open>\<open>entry(key).or_insert_with(...).clone()\<close>.\<close>

definition ddl_lock_for :: "string \<Rightarrow> lock_manager \<Rightarrow> nat \<times> lock_manager" where
  "ddl_lock_for table m =
     (case map_of (lm_ddl_locks m) table of
        Some l \<Rightarrow> (l, m)
      | None \<Rightarrow> (lm_next_lock m, m\<lparr>lm_ddl_locks := AList.update table (lm_next_lock m) (lm_ddl_locks m),
                                   lm_next_lock := lm_next_lock m + 1\<rparr>))"

definition row_lock :: "lock_key \<Rightarrow> lock_manager \<Rightarrow> row_lock_handle \<times> lock_manager" where
  "row_lock key m =
     (case map_of (lm_row_locks m) key of
        Some l \<Rightarrow> (\<lparr>rh_key = key, rh_lock = l\<rparr>, m)
      | None \<Rightarrow> (\<lparr>rh_key = key, rh_lock = lm_next_lock m\<rparr>,
                 m\<lparr>lm_row_locks := AList.update key (lm_next_lock m) (lm_row_locks m),
                   lm_next_lock := lm_next_lock m + 1\<rparr>))"

subsection \<open>Threads\<close>

datatype thread =
    Idle
  | Requested row_lock_handle
  | Holding row_lock_handle
  | Evicting row_lock_handle
  | Releasing row_lock_handle
  | Released row_lock_handle

record lock_state =
  lk_manager :: lock_manager
  lk_threads :: "thread list"

fun thread_handle :: "thread \<Rightarrow> row_lock_handle option" where
  "thread_handle Idle = None"
| "thread_handle (Requested h) = Some h"
| "thread_handle (Holding h) = Some h"
| "thread_handle (Evicting h) = Some h"
| "thread_handle (Releasing h) = Some h"
| "thread_handle (Released h) = Some h"

text \<open>The write guard of the lock exists from \<open>Holding\<close> to \<open>Releasing\<close>.\<close>

fun guards :: "nat \<Rightarrow> thread \<Rightarrow> bool" where
  "guards l (Holding h) = (rh_lock h = l)"
| "guards l (Evicting h) = (rh_lock h = l)"
| "guards l (Releasing h) = (rh_lock h = l)"
| "guards l _ = False"

definition refers :: "nat \<Rightarrow> thread \<Rightarrow> bool" where
  "refers l t \<longleftrightarrow> (\<exists>h. thread_handle t = Some h \<and> rh_lock h = l)"

definition strong_count :: "nat \<Rightarrow> lock_state \<Rightarrow> nat" where
  "strong_count l st = length (filter (\<lambda>e. snd e = l) (lm_row_locks (lk_manager st)))
     + length (filter (refers l) (lk_threads st))"

definition write_locked :: "nat \<Rightarrow> lock_state \<Rightarrow> bool" where
  "write_locked l st = list_ex (guards l) (lk_threads st)"

definition set_thread :: "nat \<Rightarrow> thread \<Rightarrow> lock_state \<Rightarrow> lock_state" where
  "set_thread i t st = st\<lparr>lk_threads := (lk_threads st)[i := t]\<rparr>"

definition evict :: "lock_key \<Rightarrow> lock_state \<Rightarrow> lock_state" where
  "evict key st = st\<lparr>lk_manager := (lk_manager st)\<lparr>lm_row_locks := AList.delete key (lm_row_locks (lk_manager st))\<rparr>\<rparr>"

datatype lock_event = Request nat lock_key | Write nat | DropGuard nat | Evict nat | Unlock nat | DropHandle nat

fun lock_next :: "lock_event \<Rightarrow> lock_state \<Rightarrow> lock_state option" where
  "lock_next (Request i key) st =
     (if i < length (lk_threads st) \<and> lk_threads st ! i = Idle
      then let (h, m) = row_lock key (lk_manager st)
           in Some (set_thread i (Requested h) (st\<lparr>lk_manager := m\<rparr>))
      else None)"
| "lock_next (Write i) st =
     (if i < length (lk_threads st) then
        (case lk_threads st ! i of
           Requested h \<Rightarrow> if write_locked (rh_lock h) st then None else Some (set_thread i (Holding h) st)
         | _ \<Rightarrow> None)
      else None)"
| "lock_next (DropGuard i) st =
     (if i < length (lk_threads st) then
        (case lk_threads st ! i of
           Holding h \<Rightarrow> Some (set_thread i (if strong_count (rh_lock h) st = 2 then Evicting h else Releasing h) st)
         | _ \<Rightarrow> None)
      else None)"
| "lock_next (Evict i) st =
     (if i < length (lk_threads st) then
        (case lk_threads st ! i of
           Evicting h \<Rightarrow> Some (set_thread i (Releasing h) (evict (rh_key h) st))
         | _ \<Rightarrow> None)
      else None)"
| "lock_next (Unlock i) st =
     (if i < length (lk_threads st) then
        (case lk_threads st ! i of Releasing h \<Rightarrow> Some (set_thread i (Released h) st) | _ \<Rightarrow> None)
      else None)"
| "lock_next (DropHandle i) st =
     (if i < length (lk_threads st) then
        (case lk_threads st ! i of Released h \<Rightarrow> Some (set_thread i Idle st) | _ \<Rightarrow> None)
      else None)"

inductive lock_step :: "lock_state \<Rightarrow> lock_event \<Rightarrow> lock_state \<Rightarrow> bool" where
  "lock_next e st = Some st' \<Longrightarrow> lock_step st e st'"

inductive_simps lock_step_iff: "lock_step st e st'"

definition lock_start :: "nat \<Rightarrow> lock_state" where
  "lock_start n = \<lparr>lk_manager = lock_manager_new, lk_threads = replicate n Idle\<rparr>"

fun lock_run :: "lock_event list \<Rightarrow> lock_state \<Rightarrow> lock_state option" where
  "lock_run [] st = Some st"
| "lock_run (e # es) st = (case lock_next e st of None \<Rightarrow> None | Some st' \<Rightarrow> lock_run es st')"

text \<open>The threads in the critical section of a row.\<close>

definition holders :: "lock_key \<Rightarrow> lock_state \<Rightarrow> nat set" where
  "holders key st = {i. i < length (lk_threads st) \<and> (\<exists>h. lk_threads st ! i = Holding h \<and> rh_key h = key)}"

subsection \<open>Mutual exclusion\<close>

text \<open>A run is calm when no thread asks for a row between the check and the removal of an eviction of the
  same row, which \<open>drop\<close> performs as two operations.\<close>

fun evicts :: "lock_key \<Rightarrow> thread \<Rightarrow> bool" where
  "evicts key (Evicting h) = (rh_key h = key)"
| "evicts key _ = False"

fun calm :: "lock_state \<Rightarrow> lock_event \<Rightarrow> bool" where
  "calm st (Request i key) = (\<not> list_ex (evicts key) (lk_threads st))"
| "calm st _ = True"

inductive calm_reached :: "nat \<Rightarrow> lock_state \<Rightarrow> bool" for n where
  calm_start: "calm_reached n (lock_start n)"
| calm_step: "calm_reached n st \<Longrightarrow> lock_step st e st' \<Longrightarrow> calm st e \<Longrightarrow> calm_reached n st'"

text \<open>Before its eviction a thread's lock is the one in the map; \<open>own\<close> gives the row a lock was made for.\<close>

fun attached :: "thread \<Rightarrow> bool" where
  "attached (Requested h) = True"
| "attached (Holding h) = True"
| "attached (Evicting h) = True"
| "attached _ = False"

abbreviation row_locks :: "lock_state \<Rightarrow> (lock_key \<times> nat) list" where
  "row_locks st \<equiv> lm_row_locks (lk_manager st)"

abbreviation next_lock :: "lock_state \<Rightarrow> nat" where
  "next_lock st \<equiv> lm_next_lock (lk_manager st)"

definition thread_ok :: "(nat \<Rightarrow> lock_key) \<Rightarrow> lock_state \<Rightarrow> nat \<Rightarrow> bool" where
  "thread_ok own st i \<longleftrightarrow> (\<forall>h. thread_handle (lk_threads st ! i) = Some h \<longrightarrow>
       rh_lock h < next_lock st \<and> own (rh_lock h) = rh_key h
       \<and> (attached (lk_threads st ! i) \<longrightarrow> map_of (row_locks st) (rh_key h) = Some (rh_lock h)))
     \<and> (\<forall>h j. lk_threads st ! i = Evicting h \<longrightarrow> j < length (lk_threads st) \<longrightarrow> j \<noteq> i \<longrightarrow>
         \<not> refers (rh_lock h) (lk_threads st ! j))"

definition locks_ok :: "(nat \<Rightarrow> lock_key) \<Rightarrow> lock_state \<Rightarrow> bool" where
  "locks_ok own st \<longleftrightarrow> distinct (map fst (row_locks st))
     \<and> (\<forall>k l. map_of (row_locks st) k = Some l \<longrightarrow> l < next_lock st \<and> own l = k)
     \<and> (\<forall>i < length (lk_threads st). thread_ok own st i)
     \<and> (\<forall>i j l. i < length (lk_threads st) \<longrightarrow> j < length (lk_threads st) \<longrightarrow>
          guards l (lk_threads st ! i) \<longrightarrow> guards l (lk_threads st ! j) \<longrightarrow> i = j)"

lemma locks_okD:
  assumes "locks_ok own st"
  shows "distinct (map fst (row_locks st))"
    and "map_of (row_locks st) k = Some l \<Longrightarrow> l < next_lock st" "map_of (row_locks st) k = Some l \<Longrightarrow> own l = k"
    and "i < length (lk_threads st) \<Longrightarrow> thread_ok own st i"
    and "i < length (lk_threads st) \<Longrightarrow> j < length (lk_threads st) \<Longrightarrow>
      guards x (lk_threads st ! i) \<Longrightarrow> guards x (lk_threads st ! j) \<Longrightarrow> i = j"
  using assms unfolding locks_ok_def by blast+

lemma refers_handle: "refers l t \<Longrightarrow> thread_handle t = Some h \<Longrightarrow> rh_lock h = l"
  by (auto simp: refers_def)

lemma guards_refers: "guards l t \<Longrightarrow> refers l t"
  by (cases t) (auto simp: refers_def)

lemma set_thread_simps [simp]:
  "lk_manager (set_thread i t st) = lk_manager st"
  "lk_threads (set_thread i t st) = (lk_threads st)[i := t]"
  by (simp_all add: set_thread_def)

lemma evict_threads [simp]: "lk_threads (evict key st) = lk_threads st"
  by (simp add: evict_def)

text \<open>A thread that moves on with the same handle, keeping the invariant's conditions for itself.\<close>

lemma locks_ok_move:
  assumes ok: "locks_ok own st" and i: "i < length (lk_threads st)"
    and h: "thread_handle (lk_threads st ! i) = Some h" "thread_handle t = None \<or> thread_handle t = Some h"
    and att: "attached t \<Longrightarrow> attached (lk_threads st ! i)"
    and ev: "\<And>h'. t = Evicting h' \<Longrightarrow> \<forall>j < length (lk_threads st). j \<noteq> i \<longrightarrow> \<not> refers (rh_lock h) (lk_threads st ! j)"
    and gd: "\<And>l j. guards l t \<Longrightarrow> j < length (lk_threads st) \<Longrightarrow> j \<noteq> i \<Longrightarrow> \<not> guards l (lk_threads st ! j)"
  shows "locks_ok own (set_thread i t st)"
proof -
  have refers: "refers l t \<Longrightarrow> refers l (lk_threads st ! i)" for l using h by (auto simp: refers_def)
  have "thread_ok own (set_thread i t st) k" if k: "k < length (lk_threads st)" for k
  proof (cases "k = i")
    case True
    have old: "thread_ok own st i" using ok i by (simp add: locks_ok_def)
    have "rh_lock h' < next_lock st \<and> own (rh_lock h') = rh_key h'
       \<and> (attached t \<longrightarrow> map_of (row_locks st) (rh_key h') = Some (rh_lock h'))" if "thread_handle t = Some h'" for h'
      using that old h att by (auto simp: thread_ok_def)
    moreover have "\<not> refers (rh_lock h') (lk_threads st ! j)"
      if "t = Evicting h'" "j < length (lk_threads st)" "j \<noteq> i" for h' j
      using that ev h(2) by auto
    ultimately show ?thesis using True i by (simp add: thread_ok_def)
  next
    case False
    have old: "thread_ok own st k" using ok k by (simp add: locks_ok_def)
    have "\<not> refers (rh_lock h') ((lk_threads st)[i := t] ! j)"
      if "lk_threads st ! k = Evicting h'" "j < length (lk_threads st)" "j \<noteq> k" for h' j
      using that old refers by (cases "j = i") (auto simp: thread_ok_def)
    then show ?thesis using old False by (simp add: thread_ok_def)
  qed
  moreover have "a = b" if "a < length (lk_threads st)" "b < length (lk_threads st)"
    "guards l ((lk_threads st)[i := t] ! a)" "guards l ((lk_threads st)[i := t] ! b)" for a b l
  proof -
    have uniq: "guards l (lk_threads st ! a) \<Longrightarrow> guards l (lk_threads st ! b) \<Longrightarrow> a = b"
      using ok that(1,2) unfolding locks_ok_def by blast
    consider "a = i" "b = i" | "a = i" "b \<noteq> i" | "a \<noteq> i" "b = i" | "a \<noteq> i" "b \<noteq> i" by blast
    then show ?thesis by cases (use that uniq gd [of l] i in auto)
  qed
  ultimately show ?thesis using ok by (simp add: locks_ok_def)
qed

lemma strong_count_two:
  assumes "map_of (row_locks st) key = Some l" "i < length (lk_threads st)" "refers l (lk_threads st ! i)"
    and "strong_count l st = 2" "j < length (lk_threads st)" "j \<noteq> i"
  shows "\<not> refers l (lk_threads st ! j)"
proof
  assume j: "refers l (lk_threads st ! j)"
  have "(key, l) \<in> set (filter (\<lambda>e. snd e = l) (row_locks st))" using assms(1) map_of_SomeD by fastforce
  then have 1: "1 \<le> length (filter (\<lambda>e. snd e = l) (row_locks st))"
    by (metis One_nat_def Suc_leI length_pos_if_in_set)
  have "card {i, j} \<le> card {k. k < length (lk_threads st) \<and> refers l (lk_threads st ! k)}"
    by (rule card_mono) (use assms(2,3,5) j in auto)
  then have "2 \<le> length (filter (refers l) (lk_threads st))"
    using assms(6) by (simp add: length_filter_conv_card)
  with 1 assms(4) show False by (simp add: strong_count_def)
qed

lemma locks_ok_request:
  assumes ok: "locks_ok own st" and i: "i < length (lk_threads st)" "lk_threads st ! i = Idle"
    and calm: "\<not> list_ex (evicts key) (lk_threads st)" and run: "row_lock key (lk_manager st) = (h, m)"
  shows "\<exists>own'. locks_ok own' (set_thread i (Requested h) (st\<lparr>lk_manager := m\<rparr>))"
proof -
  have thr: "thread_ok own st k" if "k < length (lk_threads st)" for k using ok that by (simp add: locks_ok_def)
  have noev: "\<not> evicts key (lk_threads st ! k)" if "k < length (lk_threads st)" for k
    using calm that by (simp add: list_ex_length)
  let ?ts = "(lk_threads st)[i := Requested h]"
  have excl: "a = b" if "a < length (lk_threads st)" "b < length (lk_threads st)" "guards l (?ts ! a)" "guards l (?ts ! b)" for a b l
  proof -
    have "a \<noteq> i" "b \<noteq> i" using that i by auto
    then show ?thesis using that ok unfolding locks_ok_def by auto
  qed
  have others: "thread_ok own' (set_thread i (Requested h) (st\<lparr>lk_manager := m\<rparr>)) k"
    if k: "k < length (lk_threads st)" "k \<noteq> i" and m: "next_lock st \<le> lm_next_lock m"
      "\<And>k' l. map_of (row_locks st) k' = Some l \<Longrightarrow> map_of (lm_row_locks m) k' = Some l"
      "\<And>l. l < next_lock st \<Longrightarrow> own' l = own l"
      "\<And>h'. lk_threads st ! k = Evicting h' \<Longrightarrow> rh_lock h' \<noteq> rh_lock h" for own' k
  proof -
    have same: "?ts ! k = lk_threads st ! k" using k(2) by simp
    have "rh_lock h' < lm_next_lock m \<and> own' (rh_lock h') = rh_key h'
       \<and> (attached (lk_threads st ! k) \<longrightarrow> map_of (lm_row_locks m) (rh_key h') = Some (rh_lock h'))"
      if "thread_handle (lk_threads st ! k) = Some h'" for h'
      using thr [OF k(1)] that m(1,2,3) by (auto simp: thread_ok_def)
    moreover have "\<not> refers (rh_lock h') (?ts ! j)"
      if "lk_threads st ! k = Evicting h'" "j < length (lk_threads st)" "j \<noteq> k" for h' j
      using thr [OF k(1)] that m(4) [OF that(1)] i(1) by (cases "j = i") (auto simp: thread_ok_def refers_def)
    ultimately show ?thesis using same by (simp add: thread_ok_def)
  qed
  show ?thesis
  proof (cases "map_of (row_locks st) key")
    case (Some l)
    have h: "h = \<lparr>rh_key = key, rh_lock = l\<rparr>" "m = lk_manager st" using run Some by (simp_all add: row_lock_def)
    have l: "l < next_lock st" "own l = key" using locks_okD(2,3) [OF ok Some] .
    have "rh_lock h' \<noteq> rh_lock h" if "k < length (lk_threads st)" "lk_threads st ! k = Evicting h'" for k h'
      using thr [OF that(1)] noev [OF that(1)] that(2) l h(1) by (auto simp: thread_ok_def)
    then have "thread_ok own (set_thread i (Requested h) (st\<lparr>lk_manager := m\<rparr>)) k" if "k < length (lk_threads st)" for k
      using others [OF that, of own] that i h l Some by (cases "k = i") (auto simp: thread_ok_def)
    then show ?thesis using ok excl h(2) by (intro exI [of _ own]) (simp add: locks_ok_def)
  next
    case None
    let ?l = "next_lock st" and ?own = "own(next_lock st := key)"
    have h: "h = \<lparr>rh_key = key, rh_lock = ?l\<rparr>"
      "m = (lk_manager st)\<lparr>lm_row_locks := AList.update key ?l (row_locks st), lm_next_lock := ?l + 1\<rparr>"
      using run None by (simp_all add: row_lock_def)
    have "rh_lock h' \<noteq> rh_lock h" if "k < length (lk_threads st)" "lk_threads st ! k = Evicting h'" for k h'
      using thr [OF that(1)] that(2) h(1) by (auto simp: thread_ok_def)
    note lock = this
    have "thread_ok ?own (set_thread i (Requested h) (st\<lparr>lk_manager := m\<rparr>)) k" if "k < length (lk_threads st)" for k
    proof (cases "k = i")
      case True
      then show ?thesis using i h by (simp add: thread_ok_def update_conv')
    next
      case False
      show ?thesis
      proof (rule others [OF that False])
        fix k' l assume "map_of (row_locks st) k' = Some l"
        with None have "k' \<noteq> key" by auto
        then show "map_of (lm_row_locks m) k' = Some l" using \<open>map_of (row_locks st) k' = Some l\<close> h(2) by (simp add: update_conv')
      qed (use h lock [OF that] in simp_all)
    qed
    moreover have "l < ?l + 1 \<and> ?own l = k" if "map_of (AList.update key ?l (row_locks st)) k = Some l" for k l
    proof (cases "k = key")
      case False
      then have "map_of (row_locks st) k = Some l" using that by (simp add: update_conv')
      from locks_okD(2,3) [OF ok this] have "l < ?l" "own l = k" .
      then show ?thesis by simp
    qed (use that in \<open>simp add: update_conv'\<close>)
    ultimately show ?thesis using ok excl h(2) by (intro exI [of _ ?own]) (simp add: locks_ok_def distinct_update)
  qed
qed

lemma only_guard:
  assumes "locks_ok own st" "i < length (lk_threads st)" "guards l (lk_threads st ! i)"
    and "j < length (lk_threads st)" "j \<noteq> i"
  shows "\<not> guards l (lk_threads st ! j)"
  using locks_okD(5) [OF assms(1,2,4,3)] assms(5) by blast

lemma locks_ok_evict:
  assumes ok: "locks_ok own st" and i: "i < length (lk_threads st)" "lk_threads st ! i = Evicting h"
  shows "locks_ok own (set_thread i (Releasing h) (evict (rh_key h) st))"
proof -
  note thr = locks_okD(4) [OF ok]
  let ?st = "set_thread i (Releasing h) st"
  have move: "locks_ok own ?st"
    by (rule locks_ok_move [OF ok i(1), where h = h]) (use i(2) only_guard [OF ok i(1)] in simp_all)
  have own: "own (rh_lock h) = rh_key h" "map_of (row_locks st) (rh_key h) = Some (rh_lock h)"
    using thr [OF i(1)] i(2) by (auto simp: thread_ok_def)
  have gone: "rh_key h' \<noteq> rh_key h"
    if k: "k < length (lk_threads st)" "thread_handle (lk_threads ?st ! k) = Some h'" "attached (lk_threads ?st ! k)" for k h'
  proof
    assume eq: "rh_key h' = rh_key h"
    have ne: "k \<noteq> i" using k i by auto
    then have "map_of (row_locks st) (rh_key h') = Some (rh_lock h')"
      using thr [OF k(1)] k by (auto simp: thread_ok_def)
    then have "rh_lock h' = rh_lock h" using own eq by simp
    moreover have "\<not> refers (rh_lock h) (lk_threads st ! k)" using thr [OF i(1)] i(2) k(1) ne by (auto simp: thread_ok_def)
    ultimately show False using k(2) ne by (simp add: refers_def)
  qed
  have "thread_ok own (evict (rh_key h) ?st) k" if k: "k < length (lk_threads st)" for k
  proof -
    have old: "thread_ok own ?st k" using locks_okD(4) [OF move] k by simp
    show ?thesis unfolding thread_ok_def
      using old gone [OF k] by (auto simp: thread_ok_def evict_def delete_conv')
  qed
  moreover have rows: "map_of (row_locks (evict (rh_key h) ?st)) k = Some l \<Longrightarrow> map_of (row_locks st) k = Some l" for k l
    by (auto simp: evict_def delete_conv' split: if_splits)
  moreover have "distinct (map fst (row_locks (evict (rh_key h) ?st)))"
    using locks_okD(1) [OF ok] by (simp add: evict_def distinct_delete)
  moreover have "next_lock (evict (rh_key h) ?st) = next_lock st" by (simp add: evict_def)
  moreover have "lk_threads (evict (rh_key h) ?st) = lk_threads ?st" by simp
  ultimately have "locks_ok own (evict (rh_key h) ?st)"
    using locks_okD(2,3) [OF ok] locks_okD(5) [OF move] unfolding locks_ok_def by (metis length_list_update set_thread_simps(2))
  moreover have "evict (rh_key h) ?st = set_thread i (Releasing h) (evict (rh_key h) st)"
    by (simp add: evict_def set_thread_def)
  ultimately show ?thesis by simp
qed

lemma locks_ok_step:
  assumes ok: "locks_ok own st" and step: "lock_step st e st'" and calm: "calm st e"
  shows "\<exists>own'. locks_ok own' st'"
proof (cases e)
  case (Request i key)
  with step obtain h m where h: "i < length (lk_threads st)" "lk_threads st ! i = Idle"
    "row_lock key (lk_manager st) = (h, m)" "st' = set_thread i (Requested h) (st\<lparr>lk_manager := m\<rparr>)"
    by (auto simp: lock_step_iff split: if_splits prod.splits)
  then show ?thesis using locks_ok_request [OF ok h(1,2) _ h(3)] calm Request by simp
next
  case (Write i)
  with step obtain h where h: "i < length (lk_threads st)" "lk_threads st ! i = Requested h"
    "\<not> write_locked (rh_lock h) st" "st' = set_thread i (Holding h) st"
    by (auto simp: lock_step_iff split: if_splits thread.splits)
  have "locks_ok own (set_thread i (Holding h) st)"
    by (rule locks_ok_move [OF ok h(1), where h = h])
      (use h(2,3) in \<open>auto simp: write_locked_def list_ex_length\<close>)
  then show ?thesis using h(4) by blast
next
  case (DropGuard i)
  with step obtain h where h: "i < length (lk_threads st)" "lk_threads st ! i = Holding h"
    "st' = set_thread i (if strong_count (rh_lock h) st = 2 then Evicting h else Releasing h) st"
    by (auto simp: lock_step_iff split: if_splits thread.splits)
  have entry: "map_of (row_locks st) (rh_key h) = Some (rh_lock h)" "refers (rh_lock h) (lk_threads st ! i)"
    using locks_okD(4) [OF ok h(1)] h(2) by (auto simp: thread_ok_def refers_def)
  have "locks_ok own st'" unfolding h(3)
    by (rule locks_ok_move [OF ok h(1), where h = h])
      (use h(2) strong_count_two [OF entry(1) h(1) entry(2)] only_guard [OF ok h(1)] in \<open>simp_all split: if_splits\<close>)
  then show ?thesis by blast
next
  case (Evict i)
  then show ?thesis using step locks_ok_evict [OF ok]
    by (auto simp: lock_step_iff split: if_splits thread.splits)
next
  case (Unlock i)
  with step obtain h where h: "i < length (lk_threads st)" "lk_threads st ! i = Releasing h" "st' = set_thread i (Released h) st"
    by (auto simp: lock_step_iff split: if_splits thread.splits)
  have "locks_ok own st'" unfolding h(3)
    by (rule locks_ok_move [OF ok h(1), where h = h]) (use h(2) in auto)
  then show ?thesis by blast
next
  case (DropHandle i)
  with step obtain h where h: "i < length (lk_threads st)" "lk_threads st ! i = Released h" "st' = set_thread i Idle st"
    by (auto simp: lock_step_iff split: if_splits thread.splits)
  have "locks_ok own st'" unfolding h(3)
    by (rule locks_ok_move [OF ok h(1), where h = h]) (use h(2) in auto)
  then show ?thesis by blast
qed

lemma calm_ok: "calm_reached n st \<Longrightarrow> \<exists>own. locks_ok own st"
proof (induction rule: calm_reached.induct)
  case calm_start
  have "locks_ok own (lock_start n)" for own
    by (simp add: locks_ok_def lock_start_def lock_manager_new_def thread_ok_def)
  then show ?case by blast
qed (use locks_ok_step in blast)

text \<open>C24: row locks exclude each other in calm runs. As long as no thread asks for a row while another one
  is between the reference count check and the removal in its drop of the same row's lock, at most one
  thread is in the critical section of a row, for any number of threads and rows.\<close>

theorem row_lock_exclusive:
  assumes "calm_reached n st" and "i \<in> holders key st" and "j \<in> holders key st"
  shows "i = j"
proof -
  obtain own where ok: "locks_ok own st" using calm_ok [OF assms(1)] by blast
  obtain h h' where h: "i < length (lk_threads st)" "lk_threads st ! i = Holding h" "rh_key h = key"
    "j < length (lk_threads st)" "lk_threads st ! j = Holding h'" "rh_key h' = key"
    using assms(2,3) by (auto simp: holders_def)
  then have "rh_lock h = rh_lock h'" using locks_okD(4) [OF ok h(1)] locks_okD(4) [OF ok h(4)] by (auto simp: thread_ok_def)
  then show ?thesis using locks_okD(5) [OF ok h(1,4), of "rh_lock h"] h by simp
qed

text \<open>C25: the eviction of a row lock has a race. Three threads suffice: one drops its guard, finds only the
  map and its own handle referring to the lock and is about to remove the entry; a second thread asks for
  the row and gets the old lock; the first removes the entry; a third asks for the row and gets a new
  lock. The second and the third thread are then in the critical section of the row together.\<close>

theorem row_lock_race:
  "\<exists>es st. lock_run es (lock_start 3) = Some st \<and> holders (''t'', 1) st = {1, 2}"
proof -
  let ?k = "(''t'', 1 :: u64)"
  let ?es = "[Request 0 ?k, Write 0, DropGuard 0, Request 1 ?k, Evict 0, Unlock 0, Write 1, Request 2 ?k, Write 2]"
  let ?st = "\<lparr>lk_manager = \<lparr>lm_ddl_locks = [], lm_row_locks = [(?k, 1)], lm_next_lock = 2\<rparr>,
    lk_threads = [Released \<lparr>rh_key = ?k, rh_lock = 0\<rparr>, Holding \<lparr>rh_key = ?k, rh_lock = 0\<rparr>,
      Holding \<lparr>rh_key = ?k, rh_lock = 1\<rparr>]\<rparr>"
  have "lock_run ?es (lock_start 3) = Some ?st"
    by (simp add: lock_start_def lock_manager_new_def row_lock_def set_thread_def evict_def write_locked_def
        strong_count_def refers_def numeral_3_eq_3 numeral_2_eq_2)
  moreover have "holders ?k ?st = {1, 2}"
  proof (rule set_eqI)
    fix i :: nat
    consider "i = 0" | "i = 1" | "i = 2" | "3 \<le> i" by linarith
    then show "i \<in> holders ?k ?st \<longleftrightarrow> i \<in> {1, 2}" by cases (simp_all add: holders_def)
  qed
  ultimately show ?thesis by blast
qed

text \<open>C26: A thread waits for its own row only. In a calm run, a thread that has asked for a row cannot take the
  lock exactly as long as the lock is held for this row: if it has to wait, another thread has the guard of
  the same row and can take its next step, and while another thread is in the critical section of the row,
  it has to wait. Threads that write different rows never wait for each other.\<close>

theorem row_lock_waits_for_its_row:
  assumes "calm_reached n st" and "i < length (lk_threads st)" and "lk_threads st ! i = Requested h"
  shows "(lock_next (Write i) st = None \<longrightarrow>
      (\<exists>j < length (lk_threads st). j \<noteq> i \<and> guards (rh_lock h) (lk_threads st ! j)
        \<and> map_option rh_key (thread_handle (lk_threads st ! j)) = Some (rh_key h)
        \<and> (\<exists>e \<in> {DropGuard j, Evict j, Unlock j}. lock_next e st \<noteq> None)))
    \<and> (holders (rh_key h) st \<noteq> {} \<longrightarrow> lock_next (Write i) st = None)"
proof -
  obtain own where ok: "locks_ok own st" using calm_ok [OF assms(1)] by blast
  have own: "own (rh_lock h') = rh_key h'" if "k < length (lk_threads st)" "thread_handle (lk_threads st ! k) = Some h'" for k h'
    using locks_okD(4) [OF ok that(1)] that(2) by (simp add: thread_ok_def)
  have "map_option rh_key (thread_handle (lk_threads st ! j)) = Some (rh_key h)
      \<and> (\<exists>e \<in> {DropGuard j, Evict j, Unlock j}. lock_next e st \<noteq> None)"
    if j: "j < length (lk_threads st)" "guards (rh_lock h) (lk_threads st ! j)" for j
    using own [OF assms(2)] own [OF j(1)] assms(3) j by (cases "lk_threads st ! j") auto
  then have wait: "lock_next (Write i) st = None \<longrightarrow>
      (\<exists>j < length (lk_threads st). j \<noteq> i \<and> guards (rh_lock h) (lk_threads st ! j)
        \<and> map_option rh_key (thread_handle (lk_threads st ! j)) = Some (rh_key h)
        \<and> (\<exists>e \<in> {DropGuard j, Evict j, Unlock j}. lock_next e st \<noteq> None))"
  proof (intro impI)
    assume guard: "\<And>j. j < length (lk_threads st) \<Longrightarrow> guards (rh_lock h) (lk_threads st ! j) \<Longrightarrow>
        map_option rh_key (thread_handle (lk_threads st ! j)) = Some (rh_key h)
        \<and> (\<exists>e \<in> {DropGuard j, Evict j, Unlock j}. lock_next e st \<noteq> None)"
    assume "lock_next (Write i) st = None"
    then have "write_locked (rh_lock h) st" using assms(2,3) by (simp split: if_splits)
    then obtain j where j: "j < length (lk_threads st)" "guards (rh_lock h) (lk_threads st ! j)"
      by (auto simp: write_locked_def list_ex_length)
    then have "j \<noteq> i" using assms(3) by auto
    then show "\<exists>j < length (lk_threads st). j \<noteq> i \<and> guards (rh_lock h) (lk_threads st ! j)
        \<and> map_option rh_key (thread_handle (lk_threads st ! j)) = Some (rh_key h)
        \<and> (\<exists>e \<in> {DropGuard j, Evict j, Unlock j}. lock_next e st \<noteq> None)"
      using j guard [OF j] by blast
  qed
  have "write_locked (rh_lock h) st" if "k \<in> holders (rh_key h) st" for k
  proof -
    obtain h' where h': "k < length (lk_threads st)" "lk_threads st ! k = Holding h'" "rh_key h' = rh_key h"
      using \<open>k \<in> _\<close> by (auto simp: holders_def)
    then have "rh_lock h' = rh_lock h"
      using locks_okD(4) [OF ok h'(1)] locks_okD(4) [OF ok assms(2)] assms(3) by (auto simp: thread_ok_def)
    then show ?thesis using h'(1,2) by (auto simp: write_locked_def list_ex_length)
  qed
  then show ?thesis using wait assms(2,3) by auto
qed

text \<open>The map of locks can keep an entry that no thread uses. The doc comment of the guard says it evicts the
  entry if nothing else refers to it; when the second of two threads drops its guard before the first has
  dropped its handle, neither evicts it.\<close>

theorem row_lock_entry_leaks:
  "\<exists>es st. lock_run es (lock_start 2) = Some st \<and> lk_threads st = [Idle, Idle] \<and> row_locks_len (lk_manager st) = 1"
proof -
  let ?k = "(''t'', 1 :: u64)"
  let ?es = "[Request 0 ?k, Write 0, Request 1 ?k, DropGuard 0, Unlock 0, Write 1, DropGuard 1, Unlock 1, DropHandle 0, DropHandle 1]"
  let ?st = "\<lparr>lk_manager = \<lparr>lm_ddl_locks = [], lm_row_locks = [(?k, 0)], lm_next_lock = 1\<rparr>, lk_threads = [Idle, Idle]\<rparr>"
  have "lock_run ?es (lock_start 2) = Some ?st"
    by (simp add: lock_start_def lock_manager_new_def row_lock_def set_thread_def write_locked_def
        strong_count_def refers_def numeral_2_eq_2)
  moreover have "lk_threads ?st = [Idle, Idle]" "row_locks_len (lk_manager ?st) = 1" by (simp_all add: row_locks_len_def)
  ultimately show ?thesis by blast
qed

subsection \<open>A concrete run\<close>

definition example_handle :: row_lock_handle where
  "example_handle = \<lparr>rh_key = (''t'', 1), rh_lock = 0\<rparr>"

definition example_locks :: "thread \<Rightarrow> lock_state" where
  "example_locks t = \<lparr>lk_manager = \<lparr>lm_ddl_locks = [], lm_row_locks = [((''t'', 1), 0)], lm_next_lock = 1\<rparr>, lk_threads = [t, Idle]\<rparr>"

lemmas example_lock_defs = example_locks_def example_handle_def lock_start_def lock_manager_new_def row_lock_def
  set_thread_def write_locked_def numeral_2_eq_2

lemma example_write: "lock_step (example_locks (Requested example_handle)) (Write 0) (example_locks (Holding example_handle))"
  by (simp add: lock_step_iff example_lock_defs)

lemma example_calm: "calm_reached 2 (example_locks (Holding example_handle))"
proof -
  have "lock_step (lock_start 2) (Request 0 (''t'', 1)) (example_locks (Requested example_handle))"
    by (simp add: lock_step_iff example_lock_defs)
  from calm_step [OF calm_start this] have "calm_reached 2 (example_locks (Requested example_handle))"
    by (simp add: lock_start_def numeral_2_eq_2)
  from calm_step [OF this example_write] show ?thesis by simp
qed

theorem row_lock_exclusive_witness:
  "\<exists>st. calm_reached 2 st \<and> holders (''t'', 1) st = {0}"
proof -
  let ?st = "example_locks (Holding example_handle)"
  have "0 \<in> holders (''t'', 1) ?st" by (simp add: holders_def example_locks_def example_handle_def)
  moreover from this have "j \<in> holders (''t'', 1) ?st \<Longrightarrow> j = 0" for j
    by (rule row_lock_exclusive [OF example_calm, rotated])
  ultimately have "holders (''t'', 1) ?st = {0}" by blast
  then show ?thesis using example_calm by blast
qed

theorem row_lock_waits_for_its_row_witness:
  "\<exists>st j h. calm_reached 2 st \<and> lk_threads st ! 1 = Requested h \<and> lock_next (Write 1) st = None
    \<and> j < 2 \<and> j \<noteq> 1 \<and> guards (rh_lock h) (lk_threads st ! j)"
proof -
  let ?st = "set_thread 1 (Requested example_handle) (example_locks (Holding example_handle))"
  have "lock_step (example_locks (Holding example_handle)) (Request 1 (''t'', 1)) ?st"
    by (simp add: lock_step_iff example_lock_defs)
  moreover have "calm (example_locks (Holding example_handle)) (Request 1 (''t'', 1))" by (simp add: example_locks_def)
  ultimately have calm: "calm_reached 2 ?st" by (rule calm_step [OF example_calm])
  have thr: "1 < length (lk_threads ?st)" "lk_threads ?st ! 1 = Requested example_handle" by (simp_all add: example_locks_def)
  have "0 \<in> holders (rh_key example_handle) ?st" by (simp add: holders_def example_locks_def example_handle_def)
  with row_lock_waits_for_its_row [OF calm thr] have none: "lock_next (Write 1) ?st = None" by blast
  with row_lock_waits_for_its_row [OF calm thr] obtain j where
    "j < length (lk_threads ?st)" "j \<noteq> 1" "guards (rh_lock example_handle) (lk_threads ?st ! j)" by blast
  then show ?thesis using calm thr(2) none by (intro exI [of _ ?st] exI [of _ j] exI [of _ example_handle]) (simp add: example_locks_def)
qed

end
