(* ===== verification/Spec2Isabelle.thy ===== *)
theory Spec2Isabelle
  imports Outages Anomalies Joins Locks
begin

text \<open>
  \<^bold>\<open>MoodengSQL\<close>: a small SQL database in Rust, with a storage engine (\<open>src/moodeng-core\<close>), a server that
  speaks a part of the PostgreSQL wire protocol (\<open>src/moodeng-server\<close>) and a command line client
  (\<open>src/moodeng-cli\<close>). This library models the three of them and proves what makes them correct, and
  where they are not, what goes wrong. All theories are imported here.

  \<^bold>\<open>How the parts work together.\<close> A connection (\<open>protocol.rs\<close>) negotiates TLS, authenticates
  (\<open>auth.rs\<close>, \<open>scram.rs\<close>) and hands each query text to the database (\<open>engine.rs\<close>), which parses it and runs
  the statements in the executor (\<open>executor.rs\<close>) with the session of the connection. The executor reads
  the catalog (\<open>catalog.rs\<close>), plans the scan (\<open>planner.rs\<close>), evaluates expressions (\<open>parser.rs\<close>), changes
  rows in the storage engine (\<open>storage.rs\<close>, with tables in memory or in pages, \<open>page_table.rs\<close>) and entries
  in the indexes (\<open>index.rs\<close>), and keeps an undo log (\<open>transaction.rs\<close>). The storage engine logs every
  change (\<open>wal.rs\<close>) and checkpoints from time to time (\<open>recovery.rs\<close>); opening a directory loads the
  metadata (\<open>meta.rs\<close>), replays the log and rebuilds the indexes. \<open>backup.rs\<close> archives the directory.

  \<^bold>\<open>Theories and sources.\<close> A group of definitions follows the order of its source file and keeps its
  names, with a prefix where two types have a method of the same name (\<open>td_\<close> for tables in memory, \<open>pt_\<close>
  for page tables, \<open>be_\<close> for the backend enum, \<open>st_\<close> for the storage engine, \<open>im_\<close> for the index
  manager, \<open>cat_\<close> for the catalog, \<open>ex_\<close> for the executor).
  \<^item> \<open>Prelude\<close>: results and stateful operations with their weakest preconditions, association lists, byte
    codecs (locale \<open>fixed_codec\<close>), stable sorting (locale \<open>comparator_on\<close>). \<open>Floats\<close>: IEEE arithmetic,
    parsing and printing of numbers.
  \<^item> \<open>Types\<close>: \<open>error.rs\<close>, \<open>types.rs\<close>. \<open>Catalog\<close>: \<open>catalog.rs\<close>. \<open>Index\<close>: \<open>index.rs\<close>, with the contract of an
    index as locale \<open>row_index\<close>.
  \<^item> \<open>Wal\<close>: \<open>wal.rs\<close>. \<open>Pages\<close> and \<open>Page_Store\<close>: \<open>page_table.rs\<close>. \<open>Row_Store\<close>: the contract of a table
    (locale \<open>row_store\<close>), interpreted by page tables in \<open>Page_Store\<close> and by tables in memory and the backend
    enum in \<open>Storage\<close>, which models \<open>storage.rs\<close>; page tables also keep the contract \<open>strict_store\<close>, where an
    update of a row that is not there does nothing. \<open>Recovery\<close>: \<open>recovery.rs\<close>. \<open>Example_Codec\<close>: an encoding
    for concrete runs.
  \<^item> \<open>Sql\<close>: \<open>parser.rs\<close>. \<open>Planner\<close>: \<open>planner.rs\<close>. \<open>Query_Util\<close>: \<open>query_util.rs\<close>. \<open>Transaction\<close>:
    \<open>transaction.rs\<close>. \<open>Executor\<close>: \<open>executor.rs\<close>, with its laws in \<open>Execution\<close> (invariant, undo),
    \<open>Statements\<close> (effect of SELECT, UPDATE, DELETE), \<open>Joins\<close> (joins) and \<open>Database\<close> (transactions and
    orderly runs). \<open>Anomalies\<close>: statements that do not do what SQL says.
  \<^item> \<open>Locks\<close>: \<open>lock.rs\<close> as a step relation of threads.
  \<^item> \<open>Engine\<close> and \<open>Restart\<close>: \<open>engine.rs\<close>, \<open>meta.rs\<close>, \<open>backup.rs\<close>.
  \<^item> \<open>Wire\<close>: streams, frames and text of \<open>protocol.rs\<close> (locale \<open>channel\<close>). \<open>Scram\<close>: \<open>scram.rs\<close>.
    \<open>Config\<close>: \<open>config.rs\<close>, \<open>auth.rs\<close>, \<open>tls.rs\<close>. \<open>Server\<close> and \<open>Session\<close>: \<open>session.rs\<close>, \<open>protocol.rs\<close>,
    \<open>metrics.rs\<close>. \<open>Client\<close>: the client's \<open>main.rs\<close>. \<open>Listener\<close>: the server's \<open>main.rs\<close>. \<open>Outages\<close>:
    failures that involve several of them.

  \<^bold>\<open>What is proved.\<close>
  \<^item> Statements. Where tables and indexes agree, a SELECT returns the matching rows, by a scan and by an
    index unless it compares floats, and with joins the matching tuples of rows; a successful UPDATE or
    DELETE changes exactly the matching rows; ROLLBACK restores every table and index after statements that
    were accepted or refused harmlessly. Harmless (\<open>harmless\<close>) are the refusals that leave tables and indexes in
    agreement: not those of an UPDATE, of an INSERT for a duplicate key, or of one with ON CONFLICT. In orderly
    runs (\<open>orderly\<close>), where every refusal is harmless and a ROLLBACK ends an uninterrupted transaction of
    queries and data statements, primary keys are unique, rows fit their schema, and catalog, tables and
    indexes agree; the program has other runs, and there these properties fail (see Failures). ORDER BY sorts
    by the values of its expressions and is stable, a range scan is exact and in order.
  \<^item> Storage. Page tables, with their cache and file, refine a map from ids to rows and agree with tables
    in memory on calls that update rows the table has; the version check prevents lost updates; the cache
    holds exactly the pages used last.
  \<^item> Durability. A crash loses less than one batch of log records, and recovery rebuilds exactly the committed
    transactions among those that survive. After a checkpoint the directory opens to the same schemas and
    tables with complete indexes exactly when no two rows share a key of a unique index, and so does a
    restored backup; otherwise it does not open. The checksum is CRC-32.
  \<^item> Concurrency. Row locks exclude each other in runs without a request inside an eviction, and fail to do
    so in one with such a request; a thread waits only for a guard of the row it asked for. The accept loop
    keeps to its limit.
  \<^item> Connections. No statement runs without credentials the server accepts, SCRAM accepts the password and
    only the right proof, required TLS is enforced, client and server understand each other on
    one-column results, a prepared statement runs with its values, the shutdown ends and writes the data.
  \<^item> Failures. Records after a checkpoint are skipped when the log is reopened, a refused INSERT or UPDATE
    leaves its traces, which a ROLLBACK does not remove and which may prevent the next start, a ROLLBACK may
    put rows into a table of another type, equality of floats depends on the plan, COUNT answers one, an
    abandoned transaction blocks live backups of its database for ever, a configuration that cannot be read
    opens the server, the health check fails on a server with SCRAM.

  \<^bold>\<open>Conventions and bounds.\<close> Strings are their UTF-8 bytes and case mapping is the ASCII one. Integers keep
    their width and wrap. Maps are association lists whose order stands for the unspecified iteration order.
    A Rust panic is an error value. Loops are structural or have a termination proof; the two that may run
    for ever, waiting for write transactions and draining connections, are partial functions into \<open>option\<close>,
    and what is proved of them is that they return, within a number of rounds, or that they do not. Laws of
    whole statements are for tables in memory, the default configuration (\<open>mem_only\<close>), with \<open>room\<close> for
    the ids of the new rows below \<open>2 ^ 64\<close>. Theorems about text that is written and read back assume frames
    below \<open>2 ^ 31\<close> bytes, the limit of the length field. Some limits of Rust and its libraries are not in the
    model: a page table with no rows per page, where \<open>page_id\<close> divides by zero and panics (\<open>div\<close> gives 0
    here); a shutdown timeout beyond the range of the clock; more
    connections than a semaphore has permits. The content of the log when it is opened counts as synced.
    \<open>backup_live\<close> is modelled on any database; the program calls it on one that the backup command has opened.

  \<^bold>\<open>Parameters.\<close> What other crates do is an argument, with its laws as hypotheses and an instance that
    satisfies them: \<open>bincode\<close> and the archive format (\<open>storage_codecs\<close>, \<open>engine_codecs\<close>: decoding inverts
    encoding, also for rows with JSON values, which no statement stores), the SQL parser and the printing of expressions (\<open>sql_library\<close>, no law), hashes, keyed hash,
    base64 and Argon2 (\<open>crypto\<close>, \<open>host_env\<close>), the TLS handshake, TOML and PEM readers, random bytes and the
    clock (\<open>host_env\<close>, \<open>server_env\<close>).

  \<^bold>\<open>Not modelled.\<close> Asynchronous polling of streams, the log subscriber, signal handlers, the line editor and
    banners have no state of the database; the tests and the benchmark are not part of the program. The
    executor runs one statement at a time, so the locks appear in \<open>Locks\<close> only. File operations succeed,
    except that a crash cuts the log after what was synced.
\<close>

end
